(* ===== verification/Prelude.thy ===== *)
theory Prelude
  imports Main "HOL-Library.Word"
begin

text \<open>
  Shared vocabulary of the development: bytes and byte strings, little-endian readers and
  writers of \<^verbatim>\<open>src/src/crypto/common.h\<close>, the tests on bit flags, and the generic list and
  word lemmas that the component theories use.  The collections \<open>le_simps\<close> and \<open>flag_simps\<close>
  carry the facts that component proofs pass to the simplifier.
\<close>

unbundle bit_operations_syntax

named_theorems le_simps \<open>little-endian encodings\<close>
named_theorems flag_simps \<open>tests of bit flags\<close>

type_synonym byte = "8 word"
type_synonym bytes = "byte list"
type_synonym valtype = "byte list"
type_synonym flags = "32 word"

section \<open>Little-endian integers\<close>

text \<open>The value of a byte string read with the least significant byte first, and the
  \<open>n\<close>-byte string of a value.\<close>

primrec le_nat :: "bytes \<Rightarrow> nat" where
  "le_nat [] = 0"
| "le_nat (b # bs) = unat b + 256 * le_nat bs"

primrec le_bytes :: "nat \<Rightarrow> nat \<Rightarrow> bytes" where
  "le_bytes 0 x = []"
| "le_bytes (Suc n) x = of_nat x # le_bytes n (x div 256)"

text \<open>\<^verbatim>\<open>memcpy\<close> of the first bytes into an integer, followed by \<^verbatim>\<open>leNNtoh\<close>.\<close>

definition ReadLE16 :: "bytes \<Rightarrow> nat" where
  "ReadLE16 ptr = le_nat (take 2 ptr)"

definition ReadLE32 :: "bytes \<Rightarrow> nat" where
  "ReadLE32 ptr = le_nat (take 4 ptr)"

definition WriteLE16 :: "nat \<Rightarrow> bytes" where
  "WriteLE16 x = le_bytes 2 x"

definition WriteLE32 :: "nat \<Rightarrow> bytes" where
  "WriteLE32 x = le_bytes 4 x"

lemma unat_of_nat_byte [simp]: "unat (of_nat x :: byte) = x mod 256"
  by (simp add: unat_of_nat)

lemma unat_byte_less [simp]: "unat (b :: byte) < 256"
  using unsigned_less [of b, where ?'a = nat] by simp

lemma byte_mod_128:
  "unat (b :: byte) mod 128 = (if 128 \<le> unat b then unat b - 128 else unat b)"
proof -
  have "unat b - 128 < 128" using unat_byte_less [of b] by linarith
  then show ?thesis by (simp add: le_mod_geq)
qed

lemma butlast_snoc_update [simp]:
  "(butlast xs @ [x])[length xs - Suc 0 := y] = butlast xs @ [y]"
  by (metis One_nat_def length_butlast list_update_length)

lemma le_nat_append [le_simps]: "le_nat (xs @ ys) = le_nat xs + 256 ^ length xs * le_nat ys"
  by (induction xs) (simp_all add: algebra_simps)

lemma le_nat_less: "le_nat bs < 256 ^ length bs"
proof (induction bs)
  case (Cons b bs)
  have "unat b + 256 * le_nat bs < 256 + 256 * le_nat bs" by simp
  also have "\<dots> \<le> 256 * 256 ^ length bs"
    using Cons.IH by (metis Suc_leI mult.commute mult_Suc mult_le_mono2)
  finally show ?case by simp
qed simp

lemma length_le_bytes [simp]: "length (le_bytes n x) = n"
  by (induction n arbitrary: x) simp_all

lemma le_nat_le_bytes [le_simps]: "le_nat (le_bytes n x) = x mod 256 ^ n"
  by (induction n arbitrary: x) (simp_all add: mod_mult2_eq)

lemma le_bytes_le_nat [le_simps]: "le_bytes (length bs) (le_nat bs) = bs"
proof (induction bs)
  case (Cons b bs)
  have "(unat b + 256 * le_nat bs) div 256 = le_nat bs" by simp
  moreover have "(of_nat (unat b + 256 * le_nat bs) :: byte) = b"
    by (simp add: word_unat_eq_iff unat_of_nat del: of_nat_add of_nat_mult)
  ultimately show ?case using Cons.IH by simp
qed simp

lemma le_nat_inj: "length xs = length ys \<Longrightarrow> le_nat xs = le_nat ys \<Longrightarrow> xs = ys"
  by (metis le_bytes_le_nat)

lemma ReadLE16_WriteLE16 [le_simps]: "x < 65536 \<Longrightarrow> ReadLE16 (WriteLE16 x @ rest) = x"
  by (simp add: ReadLE16_def WriteLE16_def le_simps)

lemma ReadLE32_WriteLE32 [le_simps]: "x < 4294967296 \<Longrightarrow> ReadLE32 (WriteLE32 x @ rest) = x"
  by (simp add: ReadLE32_def WriteLE32_def le_simps)

section \<open>Bits of a byte and of a word\<close>

lemma bit_7_byte: "bit (b :: byte) 7 \<longleftrightarrow> 128 \<le> unat b"
proof -
  have "bit b 7 \<longleftrightarrow> odd (unat b div 2 ^ 7)"
    by (metis bit_iff_odd bit_unsigned_iff bit_imp_le_length less_imp_le_nat possible_bit_def
        possible_bit_nat)
  moreover have "unat b div 128 = 0 \<or> unat b div 128 = 1"
    using unat_byte_less [of b] by linarith
  ultimately show ?thesis by auto
qed

lemma byte_and_0x80_eq_0 [simp]: "(b :: byte) AND 0x80 = 0 \<longleftrightarrow> unat b < 128"
  using and_exp_eq_0_iff_not_bit [of b 7] by (simp add: bit_7_byte not_le)

lemma unat_and_0x7f [simp]: "unat ((b :: byte) AND 0x7f) = unat b mod 128"
proof -
  have "b AND 0x7f = take_bit 7 b" by (simp add: take_bit_eq_mask mask_eq_exp_minus_1)
  moreover have "unat (take_bit 7 b) = unat b mod 2 ^ 7"
    by (metis unsigned_take_bit_eq take_bit_eq_mod)
  ultimately show ?thesis by simp
qed

lemma unat_or_0x80: "unat (b :: byte) < 128 \<Longrightarrow> unat (b OR 0x80) = unat b + 128"
proof -
  assume "unat b < 128"
  then have "b AND 0x80 = 0" by simp
  then have "b OR 0x80 = b + 0x80" by (simp add: disjunctive_add_eq_or)
  moreover have "unat (b + 0x80) = unat b + 128"
    using \<open>unat b < 128\<close> by (simp add: unat_word_ariths)
  ultimately show ?thesis by simp
qed

text \<open>Appending a byte above the bits a word already uses is an addition.\<close>

lemma unat_or_push_byte:
  assumes "8 * i + 8 \<le> LENGTH('a)" and "unat (r :: 'a::len word) < 256 ^ i"
  shows "unat (r OR push_bit (8 * i) (ucast (b :: byte))) = unat r + 256 ^ i * unat b"
proof -
  have pow: "256 ^ i = (2 :: nat) ^ (8 * i)" by (simp add: power_mult)
  have low: "\<not> bit r n" if "8 * i \<le> n" for n
  proof
    assume "bit r n"
    then have "bit (unat r) n" by (simp add: bit_unsigned_iff)
    moreover have "unat r < 2 ^ n"
      using assms(2) that by (metis pow order_less_le_trans one_le_numeral power_increasing)
    ultimately show False by (simp add: bit_iff_odd)
  qed
  have "r AND push_bit (8 * i) (ucast b) = 0"
    by (rule bit_eqI) (auto simp: bit_simps dest: low)
  then have sum: "r OR push_bit (8 * i) (ucast b) = r + push_bit (8 * i) (ucast b)"
    by (simp add: disjunctive_add_eq_or)
  have small: "2 ^ (8 * i) * unat b < 2 ^ LENGTH('a)"
  proof -
    have "2 ^ (8 * i) * unat b < 2 ^ (8 * i) * (2 ^ 8 :: nat)" by simp
    also have "\<dots> = 2 ^ (8 * i + 8)" by (simp add: power_add)
    also have "\<dots> \<le> 2 ^ LENGTH('a)" using assms(1) by simp
    finally show ?thesis .
  qed
  have "push_bit (8 * i) (ucast b) = (of_nat (2 ^ (8 * i) * unat b) :: 'a word)"
    by (simp add: push_bit_eq_mult mult.commute)
  with small have shifted: "unat (push_bit (8 * i) (ucast b) :: 'a word) = 256 ^ i * unat b"
    by (simp only: pow unat_of_nat mod_less)
  have "unat r + 256 ^ i * unat b < 2 ^ LENGTH('a)"
  proof -
    have "unat r + 2 ^ (8 * i) * unat b < 2 ^ (8 * i) + 2 ^ (8 * i) * unat b"
      using assms(2) pow by simp
    also have "\<dots> = 2 ^ (8 * i) * (unat b + 1)" by simp
    also have "\<dots> \<le> 2 ^ (8 * i) * 2 ^ 8"
      using unat_byte_less [of b] by (intro mult_le_mono2) (simp add: Suc_le_eq)
    also have "\<dots> = 2 ^ (8 * i + 8)" by (simp add: power_add)
    also have "\<dots> \<le> 2 ^ LENGTH('a)" using assms(1) by (rule power_increasing) simp
    finally show ?thesis by (simp add: pow)
  qed
  then show ?thesis by (simp add: sum shifted unat_word_ariths)
qed

section \<open>Induction over a scan\<close>

text \<open>A loop that moves a position forward, at most to \<open>n\<close>.\<close>

lemma scan_induct [case_names step]:
  fixes pc :: nat
  assumes "\<And>pc. (\<And>pc'. pc < pc' \<Longrightarrow> pc' \<le> n \<Longrightarrow> P pc') \<Longrightarrow> P pc"
  shows "P pc"
proof (induction "n - pc" arbitrary: pc rule: less_induct)
  case less
  show ?case
  proof (rule assms)
    fix pc' assume "pc < pc'" "pc' \<le> n"
    then have "n - pc' < n - pc" by simp
    then show "P pc'" by (rule less)
  qed
qed

section \<open>Flags\<close>

text \<open>\<^verbatim>\<open>(flags & f) != 0\<close>\<close>

definition has_flag :: "flags \<Rightarrow> flags \<Rightarrow> bool" where
  "has_flag flags f \<longleftrightarrow> flags AND f \<noteq> 0"

lemma has_flag_or [flag_simps]: "has_flag (a OR b) f \<longleftrightarrow> has_flag a f \<or> has_flag b f"
proof -
  have "(a OR b) AND f = (a AND f) OR (b AND f)" by (simp add: bit.conj_disj_distrib2)
  then show ?thesis by (simp add: has_flag_def or_eq_0_iff)
qed

end
