(* ===== verification/ScriptNum.thy ===== *)
theory ScriptNum
  imports Prelude
begin

text \<open>
  \<^verbatim>\<open>CScriptNum\<close> (\<^verbatim>\<open>src/src/script/script.h\<close>): the variable-length signed integers of the
  script language.  A number is kept as an \<^typ>\<open>int\<close> that stands for the \<^verbatim>\<open>int64_t m_value\<close>;
  the results on \<open>set_vch\<close> and on the numeric opcodes show that it stays in the 64-bit range, so
  no operation of the source wraps around.  The constructors that throw return a sum.
\<close>

section \<open>Decoding and encoding\<close>

datatype scriptnum_error = script_number_overflow | non_minimally_encoded | negative_gas_value

abbreviation (input) nDefaultMaxNumSize :: nat where
  "nDefaultMaxNumSize \<equiv> 4"

abbreviation (input) INT_MAX :: int where "INT_MAX \<equiv> 2147483647"
abbreviation (input) INT_MIN :: int where "INT_MIN \<equiv> - 2147483648"
abbreviation (input) INT64_MAX :: int where "INT64_MAX \<equiv> 9223372036854775807"
abbreviation (input) INT64_MIN :: int where "INT64_MIN \<equiv> - 9223372036854775808"

definition is_int64 :: "int \<Rightarrow> bool" where
  "is_int64 n \<longleftrightarrow> INT64_MIN \<le> n \<and> n \<le> INT64_MAX"

text \<open>The loop \<^verbatim>\<open>for (i ...) result |= static_cast<int64_t>(vch[i]) << 8*i\<close>, which
  \<open>set_vch\<close> and \<open>vch_to_uint64\<close> share.\<close>

fun or_bytes :: "nat \<Rightarrow> bytes \<Rightarrow> 64 word \<Rightarrow> 64 word" where
  "or_bytes i [] result = result"
| "or_bytes i (b # bs) result = or_bytes (Suc i) bs (result OR push_bit (8 * i) (ucast b))"

definition set_vch :: "bytes \<Rightarrow> int" where
  "set_vch vch =
     (if vch = [] then 0
      else let result = or_bytes 0 vch 0
        in if last vch AND 0x80 \<noteq> 0
           then - sint (result AND NOT (push_bit (8 * (length vch - 1)) 0x80))
           else sint result)"

definition vch_to_uint64 :: "bytes \<Rightarrow> scriptnum_error + nat" where
  "vch_to_uint64 vch =
     (if 8 < length vch then Inl script_number_overflow
      else if vch = [] then Inr 0
      else let result = or_bytes 0 vch 0
        in if last vch AND 0x80 \<noteq> 0 then Inl negative_gas_value
           else Inr (unat result))"

definition CScriptNum :: "bytes \<Rightarrow> bool \<Rightarrow> nat \<Rightarrow> scriptnum_error + int" where
  "CScriptNum vch fRequireMinimal nMaxNumSize =
     (if nMaxNumSize < length vch then Inl script_number_overflow
      else if fRequireMinimal \<and> 0 < length vch \<and> last vch AND 0x7f = 0 \<and>
          (length vch \<le> 1 \<or> vch ! (length vch - 2) AND 0x80 = 0)
        then Inl non_minimally_encoded
      else Inr (set_vch vch))"

text \<open>The loop \<^verbatim>\<open>while(absvalue) { result.push_back(absvalue & 0xff); absvalue >>= 8; }\<close>.\<close>

fun abs_bytes :: "nat \<Rightarrow> bytes" where
  "abs_bytes absvalue =
     (if absvalue = 0 then [] else of_nat absvalue # abs_bytes (absvalue div 256))"

declare abs_bytes.simps [simp del]

definition scriptnum_serialize :: "int \<Rightarrow> bytes" where
  "scriptnum_serialize value =
     (if value = 0 then []
      else let neg = value < 0;
               result = abs_bytes (nat \<bar>value\<bar>)
        in if last result AND 0x80 \<noteq> 0 then result @ [if neg then 0x80 else 0]
           else if neg then result[length result - 1 := last result OR 0x80]
           else result)"

abbreviation getvch :: "int \<Rightarrow> bytes" where
  "getvch \<equiv> scriptnum_serialize"

definition getint :: "int \<Rightarrow> int" where
  "getint m_value =
     (if INT_MAX < m_value then INT_MAX else if m_value < INT_MIN then INT_MIN else m_value)"

section \<open>The decoder reads a little-endian sign-magnitude number\<close>

lemma or_bytes_unat:
  "i + length bs \<le> 8 \<Longrightarrow> unat r < 256 ^ i \<Longrightarrow>
   unat (or_bytes i bs r) = unat r + 256 ^ i * le_nat bs"
proof (induction i bs r rule: or_bytes.induct)
  case (2 i b bs r)
  have step: "unat (r OR push_bit (8 * i) (ucast b)) = unat r + 256 ^ i * unat b"
    using "2.prems" by (intro unat_or_push_byte) simp_all
  have "unat r + 256 ^ i * unat b < 256 ^ i + 256 ^ i * 255"
    using "2.prems"(2) unat_byte_less [of b]
    by (intro add_less_le_mono mult_le_mono2) linarith+
  then have "unat (r OR push_bit (8 * i) (ucast b)) < 256 ^ Suc i"
    by (simp add: step)
  with 2 step show ?case by (simp add: algebra_simps)
qed simp

lemma or_bytes_0: "length bs \<le> 8 \<Longrightarrow> unat (or_bytes 0 bs 0) = le_nat bs"
  using or_bytes_unat [of 0 bs 0] by simp

lemma le_nat_butlast_last:
  "bs \<noteq> [] \<Longrightarrow> le_nat bs = le_nat (butlast bs) + 256 ^ (length bs - 1) * unat (last bs)"
  using le_nat_append [of "butlast bs" "[last bs]"] by simp

text \<open>The magnitude of a byte string: its little-endian value without the sign bit.\<close>

definition magnitude :: "bytes \<Rightarrow> nat" where
  "magnitude vch = le_nat (butlast vch) + 256 ^ (length vch - 1) * (unat (last vch) mod 128)"

lemma magnitude_less:
  assumes "vch \<noteq> []"
  shows "magnitude vch < 256 ^ (length vch - 1) * 128"
proof -
  have "le_nat (butlast vch) < 256 ^ (length vch - 1)"
    using le_nat_less [of "butlast vch"] by simp
  then have "magnitude vch < 256 ^ (length vch - 1) * (1 + unat (last vch) mod 128)"
    by (simp add: magnitude_def)
  also have "\<dots> \<le> 256 ^ (length vch - 1) * 128"
  proof (rule mult_le_mono2)
    have "unat (last vch) mod 128 < 128" by simp
    then show "1 + unat (last vch) mod 128 \<le> 128" by linarith
  qed
  finally show ?thesis .
qed

lemma clear_sign_bit:
  assumes "vch \<noteq> []" and "length vch \<le> 8" and "128 \<le> unat (last vch)"
  shows "unat (or_bytes 0 vch 0 AND NOT (push_bit (8 * (length vch - 1)) 0x80)) = magnitude vch"
proof -
  let ?k = "length vch - 1"
  let ?r = "or_bytes 0 vch 0"
  let ?s = "push_bit (8 * ?k) 0x80 :: 64 word"
  have len: "8 * ?k + 7 < 64" using assms(1,2) by (cases vch) auto
  have r: "unat ?r = le_nat (butlast vch) + 256 ^ ?k * unat (last vch)"
    using or_bytes_0 [OF assms(2)] le_nat_butlast_last [OF assms(1)] by simp
  have s: "?s = push_bit (8 * ?k + 7) 1"
    by (simp add: push_bit_eq_mult power_add)
  have us: "unat ?s = 2 ^ (8 * ?k + 7)"
  proof -
    have "?s = of_nat (2 ^ (8 * ?k + 7))" by (simp add: push_bit_eq_mult power_add)
    then have "unat ?s = 2 ^ (8 * ?k + 7) mod 2 ^ 64" by (simp only: unat_of_nat) simp
    moreover have "(2 :: nat) ^ (8 * ?k + 7) < 2 ^ 64"
      using len by (intro power_strict_increasing) simp_all
    ultimately show ?thesis by (metis mod_less)
  qed
  have split: "unat (last vch) = 128 + unat (last vch) mod 128"
    using assms(3) by (simp add: byte_mod_128)
  have tot: "unat ?r = magnitude vch + 2 ^ (8 * ?k + 7)"
    unfolding r magnitude_def by (subst (1) split) (simp add: distrib_left power_add power_mult)
  have mag: "magnitude vch < 2 ^ (8 * ?k + 7)"
    using magnitude_less [OF assms(1)] by (simp add: power_add power_mult)
  have "bit ?r (8 * ?k + 7)"
  proof -
    have "unat ?r div 2 ^ (8 * ?k + 7) = 1"
      using mag by (simp add: tot div_add_self2)
    then have "bit (unat ?r) (8 * ?k + 7)"
      by (simp add: bit_iff_odd)
    then show ?thesis by (simp add: bit_unsigned_iff)
  qed
  then have "?r AND NOT ?s = ?r - ?s"
    unfolding s by (intro disjunctive_diff [symmetric]) (auto simp: bit_simps)
  moreover have "?s \<le> ?r"
    using tot us by (simp add: word_le_nat_alt)
  ultimately show ?thesis
    using tot us by (simp add: unat_sub)
qed

lemma sint_small: "unat (w :: 64 word) < 2 ^ 63 \<Longrightarrow> sint w = int (unat w)"
proof -
  assume *: "unat w < 2 ^ 63"
  have "sint w = signed_take_bit 63 (int (unat w))" by (simp add: sint_uint)
  also have "\<dots> = int (unat w)"
  proof (rule signed_take_bit_int_eq_self)
    show "- (2 ^ 63) \<le> int (unat w)" by (rule order_trans [of _ 0]) simp_all
    show "int (unat w) < 2 ^ 63" using * by (metis of_nat_less_iff of_nat_numeral of_nat_power)
  qed
  finally show ?thesis .
qed

text \<open>The decoder computes a sign and a magnitude; nothing overflows up to eight bytes.\<close>

lemma set_vch_sign_magnitude:
  assumes "vch \<noteq> []" and "length vch \<le> 8"
  shows "set_vch vch = (if 128 \<le> unat (last vch) then - int (magnitude vch) else int (magnitude vch))"
proof -
  have "(256 :: nat) ^ (length vch - 1) \<le> 256 ^ 7"
    using assms by (intro power_increasing) auto
  then have small: "magnitude vch < 2 ^ 63"
    using magnitude_less [OF assms(1)] by simp
  show ?thesis
  proof (cases "128 \<le> unat (last vch)")
    case True
    with clear_sign_bit [OF assms True] small show ?thesis
      using assms by (simp add: set_vch_def Let_def sint_small)
  next
    case False
    then have "le_nat vch = magnitude vch"
      using le_nat_butlast_last [OF assms(1)] by (simp add: magnitude_def)
    with False small show ?thesis
      using assms by (simp add: set_vch_def Let_def sint_small or_bytes_0)
  qed
qed

section \<open>The encoder\<close>

lemma abs_bytes_0 [simp]: "abs_bytes 0 = []"
  by (simp add: abs_bytes.simps)

lemma abs_bytes_eq_Nil [simp]: "abs_bytes a = [] \<longleftrightarrow> a = 0"
  by (subst abs_bytes.simps) simp

lemma le_nat_abs_bytes [simp]: "le_nat (abs_bytes a) = a"
proof (induction a rule: abs_bytes.induct)
  case (1 a)
  then show ?case by (subst abs_bytes.simps) simp
qed

lemma last_abs_bytes: "a \<noteq> 0 \<Longrightarrow> unat (last (abs_bytes a)) \<noteq> 0"
proof (induction a rule: abs_bytes.induct)
  case (1 a)
  show ?case
  proof (cases "a div 256 = 0")
    case True
    then have "a mod 256 = a" by simp
    with True "1.prems" show ?thesis by (subst abs_bytes.simps) simp
  next
    case False
    with "1.IH" "1.prems" show ?thesis by (subst abs_bytes.simps) simp
  qed
qed

lemma abs_bytes_le_nat: "bs \<noteq> [] \<Longrightarrow> unat (last bs) \<noteq> 0 \<Longrightarrow> abs_bytes (le_nat bs) = bs"
proof (induction bs)
  case (Cons b bs)
  have b: "(of_nat (unat b + 256 * le_nat bs) :: byte) = b"
    by (simp add: word_unat_eq_iff unat_of_nat del: of_nat_add of_nat_mult)
  have pos: "unat b + 256 * le_nat bs \<noteq> 0"
  proof (cases "bs = []")
    case True
    with Cons.prems show ?thesis by simp
  next
    case False
    with Cons have "abs_bytes (le_nat bs) \<noteq> []" by simp
    then show ?thesis by simp
  qed
  have rest: "abs_bytes (le_nat bs) = bs"
    using Cons by (cases "bs = []") simp_all
  show ?case
    by (subst abs_bytes.simps) (use b pos rest in simp)
qed simp

lemma length_abs_bytes_le:
  assumes "a < 256 ^ n"
  shows "length (abs_bytes a) \<le> n"
proof (cases "a = 0")
  case False
  let ?bs = "abs_bytes a"
  have "256 ^ (length ?bs - 1) * 1 \<le> 256 ^ (length ?bs - 1) * unat (last ?bs)"
    using last_abs_bytes [OF False] by (intro mult_le_mono2) simp
  also have "\<dots> \<le> a"
    using le_nat_butlast_last [of ?bs] False by simp
  finally have "(256 :: nat) ^ (length ?bs - 1) < 256 ^ n" using assms by linarith
  then have "length ?bs - 1 < n" by (rule power_less_imp_less_exp [rotated]) simp
  then show ?thesis by simp
qed simp

text \<open>Sign and magnitude of an encoded number.\<close>

lemma serialize_sign_magnitude:
  assumes "n \<noteq> 0"
  shows "scriptnum_serialize n \<noteq> [] \<and> magnitude (scriptnum_serialize n) = nat \<bar>n\<bar> \<and>
    (128 \<le> unat (last (scriptnum_serialize n)) \<longleftrightarrow> n < 0)"
proof -
  let ?bs = "abs_bytes (nat \<bar>n\<bar>)"
  have ne: "?bs \<noteq> []" and nz: "unat (last ?bs) \<noteq> 0"
    using assms last_abs_bytes by auto
  have val: "le_nat (butlast ?bs) + 256 ^ (length ?bs - 1) * unat (last ?bs) = nat \<bar>n\<bar>"
    using le_nat_butlast_last [OF ne] by simp
  show ?thesis
  proof (cases "128 \<le> unat (last ?bs)")
    case True
    then have "scriptnum_serialize n = ?bs @ [if n < 0 then 0x80 else 0]"
      using assms by (simp add: scriptnum_serialize_def Let_def)
    then show ?thesis by (simp add: magnitude_def)
  next
    case small: False
    then have mod: "unat (last ?bs) mod 128 = unat (last ?bs)" by simp
    show ?thesis
    proof (cases "n < 0")
      case True
      with small assms have eq: "scriptnum_serialize n = ?bs[length ?bs - 1 := last ?bs OR 0x80]"
        by (simp add: scriptnum_serialize_def Let_def)
      have upd: "?bs[length ?bs - 1 := last ?bs OR 0x80] = butlast ?bs @ [last ?bs OR 0x80]"
        using ne by (metis append_butlast_last_id length_butlast list_update_length)
      show ?thesis
        unfolding eq upd using True small ne val mod by (simp add: magnitude_def unat_or_0x80)
    next
      case False
      with small assms have "scriptnum_serialize n = ?bs"
        by (simp add: scriptnum_serialize_def Let_def)
      with False small ne val mod show ?thesis by (simp add: magnitude_def)
    qed
  qed
qed


lemma pow_256_128: "1 \<le> k \<Longrightarrow> 256 ^ (k - 1) * 128 = (2 :: nat) ^ (8 * k - 1)"
proof -
  assume "1 \<le> k"
  then have "8 * k - 1 = 8 * (k - 1) + 7" by simp
  then show ?thesis by (simp add: power_add power_mult)
qed

lemma length_serialize_le:
  assumes "1 \<le> k"
  shows "length (scriptnum_serialize n) \<le> k \<longleftrightarrow> nat \<bar>n\<bar> < 2 ^ (8 * k - 1)"
proof (cases "n = 0")
  case False
  let ?s = "scriptnum_serialize n"
  let ?bs = "abs_bytes (nat \<bar>n\<bar>)"
  note sm = serialize_sign_magnitude [OF False]
  show ?thesis
  proof
    assume le: "length ?s \<le> k"
    have "nat \<bar>n\<bar> < 256 ^ (length ?s - 1) * 128"
      using sm magnitude_less [of ?s] by simp
    also have "\<dots> \<le> 256 ^ (k - 1) * 128"
      using le by (intro mult_le_mono1 power_increasing) simp_all
    finally show "nat \<bar>n\<bar> < 2 ^ (8 * k - 1)" by (simp only: pow_256_128 [OF assms])
  next
    assume lt: "nat \<bar>n\<bar> < 2 ^ (8 * k - 1)"
    also have "(2 :: nat) ^ (8 * k - 1) \<le> 2 ^ (8 * k)"
      by (intro power_increasing) simp_all
    finally have "length ?bs \<le> k"
      by (intro length_abs_bytes_le) (simp add: power_mult)
    moreover have "length ?bs < k" if "128 \<le> unat (last ?bs)"
    proof (rule ccontr)
      assume "\<not> length ?bs < k"
      then have "256 ^ (k - 1) * 128 \<le> 256 ^ (length ?bs - 1) * unat (last ?bs)"
        using that by (intro mult_le_mono power_increasing) simp_all
      also have "\<dots> \<le> nat \<bar>n\<bar>"
        using le_nat_butlast_last [of ?bs] False by simp
      finally show False using lt by (simp only: pow_256_128 [OF assms] linorder_not_less)
    qed
    ultimately show "length ?s \<le> k"
      by (auto simp: scriptnum_serialize_def Let_def)
  qed
qed (simp add: scriptnum_serialize_def)

lemma set_vch_serialize:
  assumes "length (scriptnum_serialize n) \<le> 8"
  shows "set_vch (scriptnum_serialize n) = n"
proof (cases "n = 0")
  case True
  then show ?thesis by (simp add: scriptnum_serialize_def set_vch_def)
next
  case False
  note sm = serialize_sign_magnitude [OF False]
  with set_vch_sign_magnitude [of "scriptnum_serialize n"] assms show ?thesis
    by auto
qed

text \<open>The test for a minimal encoding, as a predicate.\<close>

definition minimal_num :: "bytes \<Rightarrow> bool" where
  "minimal_num vch \<longleftrightarrow> vch = [] \<or> unat (last vch) mod 128 \<noteq> 0 \<or>
     (1 < length vch \<and> 128 \<le> unat (vch ! (length vch - 2)))"

lemma byte_and_0x7f_eq_0: "(b :: byte) AND 0x7f = 0 \<longleftrightarrow> unat b mod 128 = 0"
  by (metis unat_and_0x7f unat_eq_zero)

lemma CScriptNum_eq:
  "CScriptNum vch fRequireMinimal k =
     (if k < length vch then Inl script_number_overflow
      else if fRequireMinimal \<and> \<not> minimal_num vch then Inl non_minimally_encoded
      else Inr (set_vch vch))"
  by (auto simp: CScriptNum_def minimal_num_def byte_and_0x7f_eq_0 not_less not_le)

lemma minimal_num_serialize: "minimal_num (scriptnum_serialize n)"
proof (cases "n = 0")
  case False
  let ?bs = "abs_bytes (nat \<bar>n\<bar>)"
  have ne: "?bs \<noteq> []" and nz: "unat (last ?bs) \<noteq> 0"
    using False last_abs_bytes by auto
  show ?thesis
  proof (cases "128 \<le> unat (last ?bs)")
    case True
    then have "scriptnum_serialize n = ?bs @ [if n < 0 then 0x80 else 0]"
      using False by (simp add: scriptnum_serialize_def Let_def)
    moreover have "(?bs @ [b]) ! (length (?bs @ [b]) - 2) = last ?bs" for b
      using ne by (simp add: nth_append last_conv_nth)
    ultimately show ?thesis using True ne by (simp add: minimal_num_def)
  next
    case small: False
    have "last (scriptnum_serialize n) = (if n < 0 then last ?bs OR 0x80 else last ?bs)"
      using small False ne by (auto simp: scriptnum_serialize_def Let_def last_list_update)
    moreover have "unat (last ?bs) mod 128 \<noteq> 0" "unat (last ?bs OR 0x80) mod 128 \<noteq> 0"
      using small nz by (simp_all add: unat_or_0x80)
    ultimately show ?thesis
      unfolding minimal_num_def by presburger
  qed
qed (simp add: minimal_num_def scriptnum_serialize_def)

lemma serialize_set_vch:
  assumes "length vch \<le> 8" and "minimal_num vch"
  shows "scriptnum_serialize (set_vch vch) = vch"
proof (cases "vch = []")
  case True
  then show ?thesis by (simp add: set_vch_def scriptnum_serialize_def)
next
  case ne: False
  let ?n = "set_vch vch"
  have n: "?n = (if 128 \<le> unat (last vch) then - int (magnitude vch) else int (magnitude vch))"
    using set_vch_sign_magnitude [OF ne assms(1)] .
  show ?thesis
  proof (cases "unat (last vch) mod 128 = 0")
    case False
    let ?ms = "butlast vch @ [last vch AND 0x7f]"
    have "magnitude vch = le_nat ?ms"
      by (simp add: magnitude_def le_simps)
    moreover have "unat (last ?ms) \<noteq> 0" using False by simp
    ultimately have ab: "abs_bytes (magnitude vch) = ?ms"
      by (metis abs_bytes_le_nat append_is_Nil_conv list.distinct(1))
    then have pos: "magnitude vch \<noteq> 0" by (metis abs_bytes_0 append_is_Nil_conv list.distinct(1))
    have neg_last: "(last vch AND 0x7f) OR 0x80 = last vch" if "128 \<le> unat (last vch)"
    proof -
      have "unat ((last vch AND 0x7f) OR 0x80) = unat (last vch) mod 128 + 128"
        by (simp add: unat_or_0x80)
      also have "\<dots> = unat (last vch)"
        using that by (simp add: byte_mod_128)
      finally show ?thesis by (simp add: word_unat_eq_iff)
    qed
    have pos_last: "last vch AND 0x7f = last vch" if "\<not> 128 \<le> unat (last vch)"
      using that by (simp add: word_unat_eq_iff)
    show ?thesis
    proof (cases "128 \<le> unat (last vch)")
      case True
      with n pos ab neg_last [OF True] ne show ?thesis
        by (simp add: scriptnum_serialize_def Let_def)
    next
      case False
      with n pos ab pos_last [OF False] ne show ?thesis
        by (simp add: scriptnum_serialize_def Let_def)
    qed
  next
    case True
    with assms(2) ne have len: "1 < length vch" and second: "128 \<le> unat (vch ! (length vch - 2))"
      by (auto simp: minimal_num_def)
    have bne: "butlast vch \<noteq> []" using len by (cases vch rule: rev_cases) auto
    then have lb: "last (butlast vch) = vch ! (length vch - 2)"
      using len by (simp add: last_conv_nth nth_butlast numeral_2_eq_2)
    have "magnitude vch = le_nat (butlast vch)" using True by (simp add: magnitude_def)
    then have ab: "abs_bytes (magnitude vch) = butlast vch"
      using second lb bne by (simp add: abs_bytes_le_nat)
    then have pos: "magnitude vch \<noteq> 0" using bne by (metis abs_bytes_0)
    have lastv: "last vch = (if 128 \<le> unat (last vch) then 0x80 else 0)"
      using True by (simp add: word_unat_eq_iff byte_mod_128 split: if_splits)
    have "scriptnum_serialize ?n = butlast vch @ [if 128 \<le> unat (last vch) then 0x80 else 0]"
      using n pos ab second lb by (simp add: scriptnum_serialize_def Let_def)
    also have "\<dots> = vch" by (simp only: lastv [symmetric] append_butlast_last_id [OF ne])
    finally show ?thesis .
  qed
qed

section \<open>Properties\<close>

text \<open>Encoding a script number and decoding it with size limit \<open>k\<close> (at most 8 bytes), with
  or without the minimality rule, gives the number back exactly when its magnitude fits in
  \<open>8 * k - 1\<close> bits, and is the overflow error otherwise.\<close>

lemma scriptnum_roundtrip:
  assumes "1 \<le> k" and "k \<le> 8"
  shows "CScriptNum (scriptnum_serialize n) fRequireMinimal k =
    (if \<bar>n\<bar> < 2 ^ (8 * k - 1) then Inr n else Inl script_number_overflow)"
proof -
  have "nat \<bar>n\<bar> < 2 ^ (8 * k - 1) \<longleftrightarrow> \<bar>n\<bar> < 2 ^ (8 * k - 1)"
    by (simp add: nat_less_iff)
  then show ?thesis
    using length_serialize_le [OF assms(1), of n] assms(2)
    by (auto simp: CScriptNum_eq minimal_num_serialize intro: set_vch_serialize)
qed

text \<open>With the minimality rule the encoding is canonical: a byte string that decodes to
  \<open>n\<close> is the serialization of \<open>n\<close>, so no two accepted encodings denote the same number.\<close>

lemma scriptnum_canonical:
  assumes "CScriptNum vch True k = Inr n" and "k \<le> 8"
  shows "vch = scriptnum_serialize n \<and> \<bar>n\<bar> < 2 ^ (8 * k - 1)"
proof -
  from assms have len: "length vch \<le> k" and "minimal_num vch" and n: "n = set_vch vch"
    by (auto simp: CScriptNum_eq split: if_splits)
  then have ser: "scriptnum_serialize n = vch"
    using assms(2) serialize_set_vch by simp
  show ?thesis
  proof (cases "k = 0")
    case True
    with len n ser show ?thesis by (simp add: set_vch_def)
  next
    case False
    then have "nat \<bar>n\<bar> < 2 ^ (8 * k - 1)"
      using length_serialize_le [of k n] len ser by simp
    then show ?thesis using ser by (simp add: nat_less_iff)
  qed
qed

end
