(* ===== verification/Script.thy ===== *)
theory Script
  imports ScriptNum
begin

text \<open>
  \<^verbatim>\<open>CScript\<close> (\<^verbatim>\<open>src/src/script/script.h\<close> and \<^verbatim>\<open>script.cpp\<close>): the opcode numbers, the builders
  \<^verbatim>\<open>operator<<\<close>, the decoder \<open>GetOp2\<close>, and the scans that are loops over the decoder.  A script
  is a byte string and an iterator into it is an index \<open>pc\<close>.  An opcode is the number of its
  byte: the code compares opcodes by value and casts any byte to \<^verbatim>\<open>opcodetype\<close>.
  The counters are natural numbers: every count is at most 20 times the length of the script
  (lemma \<open>sigop_count_bound\<close>), which the 32-bit counters of the source hold for any script
  that fits in a block.
\<close>

section \<open>Limits and opcodes\<close>

abbreviation (input) MAX_SCRIPT_ELEMENT_SIZE :: nat where "MAX_SCRIPT_ELEMENT_SIZE \<equiv> 1280000"
abbreviation (input) MAX_OPS_PER_SCRIPT :: nat where "MAX_OPS_PER_SCRIPT \<equiv> 201"
abbreviation (input) MAX_PUBKEYS_PER_MULTISIG :: nat where "MAX_PUBKEYS_PER_MULTISIG \<equiv> 20"
abbreviation (input) MAX_SCRIPT_SIZE :: nat where "MAX_SCRIPT_SIZE \<equiv> 129000"
abbreviation (input) MAX_STACK_SIZE :: nat where "MAX_STACK_SIZE \<equiv> 1000"
abbreviation (input) LOCKTIME_THRESHOLD :: int where "LOCKTIME_THRESHOLD \<equiv> 500000000"

abbreviation (input) OP_0 :: nat where "OP_0 \<equiv> 0x00"
abbreviation (input) OP_FALSE :: nat where "OP_FALSE \<equiv> OP_0"
abbreviation (input) OP_PUSHDATA1 :: nat where "OP_PUSHDATA1 \<equiv> 0x4c"
abbreviation (input) OP_PUSHDATA2 :: nat where "OP_PUSHDATA2 \<equiv> 0x4d"
abbreviation (input) OP_PUSHDATA4 :: nat where "OP_PUSHDATA4 \<equiv> 0x4e"
abbreviation (input) OP_1NEGATE :: nat where "OP_1NEGATE \<equiv> 0x4f"
abbreviation (input) OP_RESERVED :: nat where "OP_RESERVED \<equiv> 0x50"
abbreviation (input) OP_1 :: nat where "OP_1 \<equiv> 0x51"
abbreviation (input) OP_TRUE :: nat where "OP_TRUE \<equiv> OP_1"
abbreviation (input) OP_2 :: nat where "OP_2 \<equiv> 0x52"
abbreviation (input) OP_3 :: nat where "OP_3 \<equiv> 0x53"
abbreviation (input) OP_4 :: nat where "OP_4 \<equiv> 0x54"
abbreviation (input) OP_5 :: nat where "OP_5 \<equiv> 0x55"
abbreviation (input) OP_6 :: nat where "OP_6 \<equiv> 0x56"
abbreviation (input) OP_7 :: nat where "OP_7 \<equiv> 0x57"
abbreviation (input) OP_8 :: nat where "OP_8 \<equiv> 0x58"
abbreviation (input) OP_9 :: nat where "OP_9 \<equiv> 0x59"
abbreviation (input) OP_10 :: nat where "OP_10 \<equiv> 0x5a"
abbreviation (input) OP_11 :: nat where "OP_11 \<equiv> 0x5b"
abbreviation (input) OP_12 :: nat where "OP_12 \<equiv> 0x5c"
abbreviation (input) OP_13 :: nat where "OP_13 \<equiv> 0x5d"
abbreviation (input) OP_14 :: nat where "OP_14 \<equiv> 0x5e"
abbreviation (input) OP_15 :: nat where "OP_15 \<equiv> 0x5f"
abbreviation (input) OP_16 :: nat where "OP_16 \<equiv> 0x60"
abbreviation (input) OP_NOP :: nat where "OP_NOP \<equiv> 0x61"
abbreviation (input) OP_VER :: nat where "OP_VER \<equiv> 0x62"
abbreviation (input) OP_IF :: nat where "OP_IF \<equiv> 0x63"
abbreviation (input) OP_NOTIF :: nat where "OP_NOTIF \<equiv> 0x64"
abbreviation (input) OP_VERIF :: nat where "OP_VERIF \<equiv> 0x65"
abbreviation (input) OP_VERNOTIF :: nat where "OP_VERNOTIF \<equiv> 0x66"
abbreviation (input) OP_ELSE :: nat where "OP_ELSE \<equiv> 0x67"
abbreviation (input) OP_ENDIF :: nat where "OP_ENDIF \<equiv> 0x68"
abbreviation (input) OP_VERIFY :: nat where "OP_VERIFY \<equiv> 0x69"
abbreviation (input) OP_RETURN :: nat where "OP_RETURN \<equiv> 0x6a"
abbreviation (input) OP_TOALTSTACK :: nat where "OP_TOALTSTACK \<equiv> 0x6b"
abbreviation (input) OP_FROMALTSTACK :: nat where "OP_FROMALTSTACK \<equiv> 0x6c"
abbreviation (input) OP_2DROP :: nat where "OP_2DROP \<equiv> 0x6d"
abbreviation (input) OP_2DUP :: nat where "OP_2DUP \<equiv> 0x6e"
abbreviation (input) OP_3DUP :: nat where "OP_3DUP \<equiv> 0x6f"
abbreviation (input) OP_2OVER :: nat where "OP_2OVER \<equiv> 0x70"
abbreviation (input) OP_2ROT :: nat where "OP_2ROT \<equiv> 0x71"
abbreviation (input) OP_2SWAP :: nat where "OP_2SWAP \<equiv> 0x72"
abbreviation (input) OP_IFDUP :: nat where "OP_IFDUP \<equiv> 0x73"
abbreviation (input) OP_DEPTH :: nat where "OP_DEPTH \<equiv> 0x74"
abbreviation (input) OP_DROP :: nat where "OP_DROP \<equiv> 0x75"
abbreviation (input) OP_DUP :: nat where "OP_DUP \<equiv> 0x76"
abbreviation (input) OP_NIP :: nat where "OP_NIP \<equiv> 0x77"
abbreviation (input) OP_OVER :: nat where "OP_OVER \<equiv> 0x78"
abbreviation (input) OP_PICK :: nat where "OP_PICK \<equiv> 0x79"
abbreviation (input) OP_ROLL :: nat where "OP_ROLL \<equiv> 0x7a"
abbreviation (input) OP_ROT :: nat where "OP_ROT \<equiv> 0x7b"
abbreviation (input) OP_SWAP :: nat where "OP_SWAP \<equiv> 0x7c"
abbreviation (input) OP_TUCK :: nat where "OP_TUCK \<equiv> 0x7d"
abbreviation (input) OP_CAT :: nat where "OP_CAT \<equiv> 0x7e"
abbreviation (input) OP_SUBSTR :: nat where "OP_SUBSTR \<equiv> 0x7f"
abbreviation (input) OP_LEFT :: nat where "OP_LEFT \<equiv> 0x80"
abbreviation (input) OP_RIGHT :: nat where "OP_RIGHT \<equiv> 0x81"
abbreviation (input) OP_SIZE :: nat where "OP_SIZE \<equiv> 0x82"
abbreviation (input) OP_INVERT :: nat where "OP_INVERT \<equiv> 0x83"
abbreviation (input) OP_AND :: nat where "OP_AND \<equiv> 0x84"
abbreviation (input) OP_OR :: nat where "OP_OR \<equiv> 0x85"
abbreviation (input) OP_XOR :: nat where "OP_XOR \<equiv> 0x86"
abbreviation (input) OP_EQUAL :: nat where "OP_EQUAL \<equiv> 0x87"
abbreviation (input) OP_EQUALVERIFY :: nat where "OP_EQUALVERIFY \<equiv> 0x88"
abbreviation (input) OP_RESERVED1 :: nat where "OP_RESERVED1 \<equiv> 0x89"
abbreviation (input) OP_RESERVED2 :: nat where "OP_RESERVED2 \<equiv> 0x8a"
abbreviation (input) OP_1ADD :: nat where "OP_1ADD \<equiv> 0x8b"
abbreviation (input) OP_1SUB :: nat where "OP_1SUB \<equiv> 0x8c"
abbreviation (input) OP_2MUL :: nat where "OP_2MUL \<equiv> 0x8d"
abbreviation (input) OP_2DIV :: nat where "OP_2DIV \<equiv> 0x8e"
abbreviation (input) OP_NEGATE :: nat where "OP_NEGATE \<equiv> 0x8f"
abbreviation (input) OP_ABS :: nat where "OP_ABS \<equiv> 0x90"
abbreviation (input) OP_NOT :: nat where "OP_NOT \<equiv> 0x91"
abbreviation (input) OP_0NOTEQUAL :: nat where "OP_0NOTEQUAL \<equiv> 0x92"
abbreviation (input) OP_ADD :: nat where "OP_ADD \<equiv> 0x93"
abbreviation (input) OP_SUB :: nat where "OP_SUB \<equiv> 0x94"
abbreviation (input) OP_MUL :: nat where "OP_MUL \<equiv> 0x95"
abbreviation (input) OP_DIV :: nat where "OP_DIV \<equiv> 0x96"
abbreviation (input) OP_MOD :: nat where "OP_MOD \<equiv> 0x97"
abbreviation (input) OP_LSHIFT :: nat where "OP_LSHIFT \<equiv> 0x98"
abbreviation (input) OP_RSHIFT :: nat where "OP_RSHIFT \<equiv> 0x99"
abbreviation (input) OP_BOOLAND :: nat where "OP_BOOLAND \<equiv> 0x9a"
abbreviation (input) OP_BOOLOR :: nat where "OP_BOOLOR \<equiv> 0x9b"
abbreviation (input) OP_NUMEQUAL :: nat where "OP_NUMEQUAL \<equiv> 0x9c"
abbreviation (input) OP_NUMEQUALVERIFY :: nat where "OP_NUMEQUALVERIFY \<equiv> 0x9d"
abbreviation (input) OP_NUMNOTEQUAL :: nat where "OP_NUMNOTEQUAL \<equiv> 0x9e"
abbreviation (input) OP_LESSTHAN :: nat where "OP_LESSTHAN \<equiv> 0x9f"
abbreviation (input) OP_GREATERTHAN :: nat where "OP_GREATERTHAN \<equiv> 0xa0"
abbreviation (input) OP_LESSTHANOREQUAL :: nat where "OP_LESSTHANOREQUAL \<equiv> 0xa1"
abbreviation (input) OP_GREATERTHANOREQUAL :: nat where "OP_GREATERTHANOREQUAL \<equiv> 0xa2"
abbreviation (input) OP_MIN :: nat where "OP_MIN \<equiv> 0xa3"
abbreviation (input) OP_MAX :: nat where "OP_MAX \<equiv> 0xa4"
abbreviation (input) OP_WITHIN :: nat where "OP_WITHIN \<equiv> 0xa5"
abbreviation (input) OP_RIPEMD160 :: nat where "OP_RIPEMD160 \<equiv> 0xa6"
abbreviation (input) OP_SHA1 :: nat where "OP_SHA1 \<equiv> 0xa7"
abbreviation (input) OP_SHA256 :: nat where "OP_SHA256 \<equiv> 0xa8"
abbreviation (input) OP_HASH160 :: nat where "OP_HASH160 \<equiv> 0xa9"
abbreviation (input) OP_HASH256 :: nat where "OP_HASH256 \<equiv> 0xaa"
abbreviation (input) OP_CODESEPARATOR :: nat where "OP_CODESEPARATOR \<equiv> 0xab"
abbreviation (input) OP_CHECKSIG :: nat where "OP_CHECKSIG \<equiv> 0xac"
abbreviation (input) OP_CHECKSIGVERIFY :: nat where "OP_CHECKSIGVERIFY \<equiv> 0xad"
abbreviation (input) OP_CHECKMULTISIG :: nat where "OP_CHECKMULTISIG \<equiv> 0xae"
abbreviation (input) OP_CHECKMULTISIGVERIFY :: nat where "OP_CHECKMULTISIGVERIFY \<equiv> 0xaf"
abbreviation (input) OP_NOP1 :: nat where "OP_NOP1 \<equiv> 0xb0"
abbreviation (input) OP_CHECKLOCKTIMEVERIFY :: nat where "OP_CHECKLOCKTIMEVERIFY \<equiv> 0xb1"
abbreviation (input) OP_NOP2 :: nat where "OP_NOP2 \<equiv> OP_CHECKLOCKTIMEVERIFY"
abbreviation (input) OP_CHECKSEQUENCEVERIFY :: nat where "OP_CHECKSEQUENCEVERIFY \<equiv> 0xb2"
abbreviation (input) OP_NOP3 :: nat where "OP_NOP3 \<equiv> OP_CHECKSEQUENCEVERIFY"
abbreviation (input) OP_NOP4 :: nat where "OP_NOP4 \<equiv> 0xb3"
abbreviation (input) OP_NOP5 :: nat where "OP_NOP5 \<equiv> 0xb4"
abbreviation (input) OP_NOP6 :: nat where "OP_NOP6 \<equiv> 0xb5"
abbreviation (input) OP_NOP7 :: nat where "OP_NOP7 \<equiv> 0xb6"
abbreviation (input) OP_NOP8 :: nat where "OP_NOP8 \<equiv> 0xb7"
abbreviation (input) OP_NOP9 :: nat where "OP_NOP9 \<equiv> 0xb8"
abbreviation (input) OP_NOP10 :: nat where "OP_NOP10 \<equiv> 0xb9"
abbreviation (input) OP_CREATE_NATIVE :: nat where "OP_CREATE_NATIVE \<equiv> 0xc0"
abbreviation (input) OP_CREATE :: nat where "OP_CREATE \<equiv> 0xc1"
abbreviation (input) OP_UPGRADE :: nat where "OP_UPGRADE \<equiv> 0xc2"
abbreviation (input) OP_DESTROY :: nat where "OP_DESTROY \<equiv> 0xc3"
abbreviation (input) OP_CALL :: nat where "OP_CALL \<equiv> 0xc4"
abbreviation (input) OP_SPEND :: nat where "OP_SPEND \<equiv> 0xc5"
abbreviation (input) OP_DEPOSIT_TO_CONTRACT :: nat where "OP_DEPOSIT_TO_CONTRACT \<equiv> 0xc6"
abbreviation (input) OP_GAS_PRICE :: nat where "OP_GAS_PRICE \<equiv> 0xf5"
abbreviation (input) OP_GAS_LIMIT :: nat where "OP_GAS_LIMIT \<equiv> 0xf6"
abbreviation (input) OP_DATA :: nat where "OP_DATA \<equiv> 0xf7"
abbreviation (input) OP_VERSION :: nat where "OP_VERSION \<equiv> 0xf8"
abbreviation (input) OP_ROOT_STATE_HASH :: nat where "OP_ROOT_STATE_HASH \<equiv> 0xf9"
abbreviation (input) OP_SMALLINTEGER :: nat where "OP_SMALLINTEGER \<equiv> 0xfa"
abbreviation (input) OP_PUBKEYS :: nat where "OP_PUBKEYS \<equiv> 0xfb"
abbreviation (input) OP_PUBKEYHASH :: nat where "OP_PUBKEYHASH \<equiv> 0xfd"
abbreviation (input) OP_PUBKEY :: nat where "OP_PUBKEY \<equiv> 0xfe"
abbreviation (input) OP_INVALIDOPCODE :: nat where "OP_INVALIDOPCODE \<equiv> 0xff"

section \<open>Building scripts\<close>

text \<open>\<^verbatim>\<open>CScript& operator<<(const std::vector<unsigned char>& b)\<close>: the bytes it appends.\<close>

definition push_vch :: "bytes \<Rightarrow> bytes" where
  "push_vch b =
     (if length b < OP_PUSHDATA1 then [of_nat (length b)]
      else if length b \<le> 0xff then [of_nat OP_PUSHDATA1, of_nat (length b)]
      else if length b \<le> 0xffff then of_nat OP_PUSHDATA2 # WriteLE16 (length b)
      else of_nat OP_PUSHDATA4 # WriteLE32 (length b)) @ b"

text \<open>\<^verbatim>\<open>CScript& operator<<(opcodetype opcode)\<close>: \<^const>\<open>None\<close> is the exception for an opcode out of
  range.\<close>

definition push_opcode :: "nat \<Rightarrow> bytes option" where
  "push_opcode opcode = (if 0xff < opcode then None else Some [of_nat opcode])"

definition push_int64 :: "int \<Rightarrow> bytes" where
  "push_int64 n =
     (if n = -1 \<or> (1 \<le> n \<and> n \<le> 16) then [of_int (n + (int OP_1 - 1))]
      else if n = 0 then [of_nat OP_0]
      else push_vch (scriptnum_serialize n))"

section \<open>Decoding\<close>

text \<open>The operand size of a push opcode and the number of size bytes it reads; \<^const>\<open>None\<close> when
  the script ends before them.\<close>

definition push_size :: "nat \<Rightarrow> bytes \<Rightarrow> (nat \<times> nat) option" where
  "push_size opcode rest =
     (if opcode < OP_PUSHDATA1 then Some (opcode, 0)
      else if opcode = OP_PUSHDATA1 then
        (if length rest < 1 then None else Some (unat (rest ! 0), 1))
      else if opcode = OP_PUSHDATA2 then
        (if length rest < 2 then None else Some (ReadLE16 rest, 2))
      else
        (if length rest < 4 then None else Some (ReadLE32 rest, 4)))"

text \<open>\<open>GetOp2 script pc\<close> is the return value with the new values of \<^verbatim>\<open>pc\<close>, \<^verbatim>\<open>opcodeRet\<close> and
  \<^verbatim>\<open>*pvchRet\<close>.  As in the source \<^verbatim>\<open>pc\<close> has moved past the bytes read when decoding fails.\<close>

definition GetOp2 :: "bytes \<Rightarrow> nat \<Rightarrow> bool \<times> nat \<times> nat \<times> valtype" where
  "GetOp2 script pc =
     (if length script \<le> pc then (False, pc, OP_INVALIDOPCODE, [])
      else let opcode = unat (script ! pc); pc = Suc pc
        in if opcode \<le> OP_PUSHDATA4 then
             (case push_size opcode (drop pc script) of
                None \<Rightarrow> (False, pc, OP_INVALIDOPCODE, [])
              | Some (nSize, k) \<Rightarrow>
                  let pc = pc + k
                  in if length script - pc < nSize then (False, pc, OP_INVALIDOPCODE, [])
                     else (True, pc + nSize, opcode, take nSize (drop pc script)))
           else (True, pc, opcode, []))"

lemma push_size_le: "push_size opcode rest = Some (n, k) \<Longrightarrow> k \<le> length rest"
  by (auto simp: push_size_def Suc_le_eq split: if_splits)

lemma GetOp2_progress:
  assumes "GetOp2 script pc = (True, pc', opcode, vch)"
  shows "pc < pc' \<and> pc' \<le> length script"
  using assms push_size_le [of "unat (script ! pc)" "drop (Suc pc) script"]
  by (auto simp: GetOp2_def Let_def split: if_splits option.splits)

lemmas GetOp2_progressD = GetOp2_progress [THEN conjunct1] GetOp2_progress [THEN conjunct2]

section \<open>Scans over a script\<close>

text \<open>\<^const>\<open>None\<close> is the failed assertion.\<close>

definition DecodeOP_N :: "nat \<Rightarrow> nat option" where
  "DecodeOP_N opcode =
     (if opcode = OP_0 then Some 0
      else if OP_1 \<le> opcode \<and> opcode \<le> OP_16 then Some (opcode - (OP_1 - 1))
      else None)"

definition EncodeOP_N :: "int \<Rightarrow> nat option" where
  "EncodeOP_N n =
     (if \<not> (0 \<le> n \<and> n \<le> 16) then None
      else if n = 0 then Some OP_0
      else Some (nat (int OP_1 + n - 1)))"

function sigop_loop :: "bytes \<Rightarrow> bool \<Rightarrow> nat \<Rightarrow> nat \<Rightarrow> nat \<Rightarrow> nat" where
  "sigop_loop script fAccurate pc lastOpcode n =
     (if pc < length script then
        (case GetOp2 script pc of (fRet, pc', opcode, _) \<Rightarrow>
           if \<not> fRet then n
           else if opcode = OP_CHECKSIG \<or> opcode = OP_CHECKSIGVERIFY
             then sigop_loop script fAccurate pc' opcode (n + 1)
           else if opcode = OP_CHECKMULTISIG \<or> opcode = OP_CHECKMULTISIGVERIFY
             then sigop_loop script fAccurate pc' opcode
               (if fAccurate \<and> OP_1 \<le> lastOpcode \<and> lastOpcode \<le> OP_16
                then n + the (DecodeOP_N lastOpcode) else n + MAX_PUBKEYS_PER_MULTISIG)
           else sigop_loop script fAccurate pc' opcode n)
      else n)"
  by pat_completeness auto
termination
  by (relation "measure (\<lambda>(script, _, pc, _). length script - pc)")
    (auto dest: GetOp2_progress [OF sym])

declare sigop_loop.simps [simp del]

text \<open>\<^verbatim>\<open>unsigned int CScript::GetSigOpCount(bool fAccurate) const\<close>\<close>

definition GetSigOpCount :: "bytes \<Rightarrow> bool \<Rightarrow> nat" where
  "GetSigOpCount script fAccurate = sigop_loop script fAccurate 0 OP_INVALIDOPCODE 0"

text \<open>The loop of \<^verbatim>\<open>IsPushOnly\<close>.\<close>

function IsPushOnly_from :: "bytes \<Rightarrow> nat \<Rightarrow> bool" where
  "IsPushOnly_from script pc =
     (if pc < length script then
        (case GetOp2 script pc of (fRet, pc', opcode, _) \<Rightarrow>
           if \<not> fRet then False
           else if OP_16 < opcode then False
           else IsPushOnly_from script pc')
      else True)"
  by pat_completeness auto
termination
  by (relation "measure (\<lambda>(script, pc). length script - pc)")
    (auto dest: GetOp2_progress [OF sym])

declare IsPushOnly_from.simps [simp del]

definition IsPushOnly :: "bytes \<Rightarrow> bool" where
  "IsPushOnly script = IsPushOnly_from script 0"

function HasValidOps_from :: "bytes \<Rightarrow> nat \<Rightarrow> bool" where
  "HasValidOps_from script it =
     (if it < length script then
        (case GetOp2 script it of (fRet, it', opcode, item) \<Rightarrow>
           if \<not> fRet \<or> MAX_SCRIPT_ELEMENT_SIZE < length item then False
           else HasValidOps_from script it')
      else True)"
  by pat_completeness auto
termination
  by (relation "measure (\<lambda>(script, it). length script - it)")
    (auto dest: GetOp2_progress [OF sym])

declare HasValidOps_from.simps [simp del]

definition HasValidOps :: "bytes \<Rightarrow> bool" where
  "HasValidOps script = HasValidOps_from script 0"

function Find_from :: "bytes \<Rightarrow> nat \<Rightarrow> nat \<Rightarrow> nat \<Rightarrow> nat" where
  "Find_from script op pc nFound =
     (if pc \<noteq> length script then
        (case GetOp2 script pc of (fRet, pc', opcode, _) \<Rightarrow>
           if \<not> fRet then nFound
           else Find_from script op pc' (if opcode = op then nFound + 1 else nFound))
      else nFound)"
  by pat_completeness auto
termination
  by (relation "measure (\<lambda>(script, _, pc, _). length script - pc)")
    (auto dest!: GetOp2_progress [OF sym])

declare Find_from.simps [simp del]

definition Find :: "bytes \<Rightarrow> nat \<Rightarrow> nat" where
  "Find script op = Find_from script op 0 0"

definition IsPayToScriptHash :: "bytes \<Rightarrow> bool" where
  "IsPayToScriptHash script \<longleftrightarrow> length script = 23 \<and> unat (script ! 0) = OP_HASH160 \<and>
     script ! 1 = 0x14 \<and> unat (script ! 22) = OP_EQUAL"

definition IsPayToWitnessScriptHash :: "bytes \<Rightarrow> bool" where
  "IsPayToWitnessScriptHash script \<longleftrightarrow> length script = 34 \<and> unat (script ! 0) = OP_0 \<and>
     script ! 1 = 0x20"

definition IsCommitment :: "bytes \<Rightarrow> bytes \<Rightarrow> bool" where
  "IsCommitment script data =
     (if 64 < length data \<or> length script \<noteq> length data + 2 then False
      else if unat (script ! 0) \<noteq> OP_RETURN \<or> unat (script ! 1) \<noteq> length data then False
      else (\<forall>i \<in> set [0..<length data]. script ! (i + 2) = data ! i))"

text \<open>The version and the program, where the source sets its two reference arguments.\<close>

definition IsWitnessProgram :: "bytes \<Rightarrow> (nat \<times> bytes) option" where
  "IsWitnessProgram script =
     (if length script < 4 \<or> 42 < length script then None
      else let op = unat (script ! 0)
        in if op \<noteq> OP_0 \<and> (op < OP_1 \<or> OP_16 < op) then None
           else if unat (script ! 1) + 2 = length script
             then Some (the (DecodeOP_N op), drop 2 script)
           else None)"

definition IsUnspendable :: "bytes \<Rightarrow> bool" where
  "IsUnspendable script \<longleftrightarrow>
     (0 < length script \<and> unat (script ! 0) = OP_RETURN) \<or> MAX_SCRIPT_SIZE < length script"

text \<open>The last value a push-only \<^verbatim>\<open>scriptSig\<close> pushes, in
  \<^verbatim>\<open>CScript::GetSigOpCount(const CScript& scriptSig)\<close>; \<^const>\<open>None\<close> is the early \<^verbatim>\<open>return 0\<close>.\<close>

function last_push :: "bytes \<Rightarrow> nat \<Rightarrow> valtype \<Rightarrow> valtype option" where
  "last_push scriptSig pc vData =
     (if pc < length scriptSig then
        (case GetOp2 scriptSig pc of (fRet, pc', opcode, vch) \<Rightarrow>
           if \<not> fRet then None
           else if OP_16 < opcode then None
           else last_push scriptSig pc' vch)
      else Some vData)"
  by pat_completeness auto
termination
  by (relation "measure (\<lambda>(scriptSig, pc, _). length scriptSig - pc)")
    (auto dest: GetOp2_progress [OF sym])

declare last_push.simps [simp del]

definition GetSigOpCount_p2sh :: "bytes \<Rightarrow> bytes \<Rightarrow> nat" where
  "GetSigOpCount_p2sh script scriptSig =
     (if \<not> IsPayToScriptHash script then GetSigOpCount script True
      else (case last_push scriptSig 0 [] of
          None \<Rightarrow> 0
        | Some subscript \<Rightarrow> GetSigOpCount subscript True))"

section \<open>\<open>FindAndDelete\<close>\<close>

text \<open>The inner \<^verbatim>\<open>while\<close>: skip the copies of \<open>b\<close> at \<open>pc\<close>.  The caller has returned already
  when \<open>b\<close> is empty.\<close>

function skip_copies :: "bytes \<Rightarrow> bytes \<Rightarrow> nat \<Rightarrow> nat \<Rightarrow> nat \<times> nat" where
  "skip_copies script b pc nFound =
     (if b \<noteq> [] \<and> pc \<le> length script \<and> length b \<le> length script - pc \<and>
         take (length b) (drop pc script) = b
      then skip_copies script b (pc + length b) (nFound + 1)
      else (pc, nFound))"
  by pat_completeness auto
termination
  by (relation "measure (\<lambda>(script, b, pc, _). length script - pc)")
    (auto intro!: diff_less_mono2 simp flip: length_greater_0_conv)

declare skip_copies.simps [simp del]

lemma skip_copies_le:
  "skip_copies script b pc n = (pc', n') \<Longrightarrow> pc \<le> pc' \<and> n \<le> n' \<and>
     pc' = pc + (n' - n) * length b \<and> (pc \<le> length script \<longrightarrow> pc' \<le> length script)"
proof (induction script b pc n rule: skip_copies.induct)
  case (1 script b pc n)
  show ?case
  proof (cases "b \<noteq> [] \<and> pc \<le> length script \<and> length b \<le> length script - pc \<and>
      take (length b) (drop pc script) = b")
    case True
    have rec: "skip_copies script b (pc + length b) (n + 1) = (pc', n')"
      using "1.prems" by (subst (asm) skip_copies.simps) (simp only: True simp_thms if_True)
    have "pc + length b \<le> pc' \<and> n + 1 \<le> n' \<and> pc' = pc + length b + (n' - (n + 1)) * length b \<and>
      (pc + length b \<le> length script \<longrightarrow> pc' \<le> length script)"
      using "1.IH" [OF True rec] .
    moreover from this have "n' - n = Suc (n' - (n + 1))" by linarith
    ultimately show ?thesis using True by auto
  next
    case False
    have "skip_copies script b pc n = (pc, n)"
      by (subst skip_copies.simps) (simp only: False if_False)
    with "1.prems" show ?thesis by simp
  qed
qed

text \<open>The \<^verbatim>\<open>do ... while (GetOp(pc, opcode))\<close> loop, from its state to the final
  \<open>(pc2, result, nFound)\<close>.\<close>

function fad_loop ::
    "bytes \<Rightarrow> bytes \<Rightarrow> nat \<Rightarrow> nat \<Rightarrow> bytes \<Rightarrow> nat \<Rightarrow> nat \<times> bytes \<times> nat" where
  "fad_loop script b pc pc2 result nFound =
     (let result' = result @ take (pc - pc2) (drop pc2 script)
      in case skip_copies script b pc nFound of (pc', nFound') \<Rightarrow>
         (case GetOp2 script pc' of (fRet, pc'', _, _) \<Rightarrow>
            if fRet then fad_loop script b pc'' pc' result' nFound'
            else (pc', result', nFound')))"
  by pat_completeness auto
termination
  by (relation "measure (\<lambda>(script, b, pc, _). length script - pc)")
    (auto dest!: GetOp2_progress [OF sym] skip_copies_le [OF sym])

declare fad_loop.simps [simp del]

text \<open>The number of copies removed and the new script.\<close>

definition FindAndDelete :: "bytes \<Rightarrow> bytes \<Rightarrow> nat \<times> bytes" where
  "FindAndDelete script b =
     (if b = [] then (0, script)
      else case fad_loop script b 0 0 [] 0 of (pc2, result, nFound) \<Rightarrow>
        if 0 < nFound then (nFound, result @ drop pc2 script) else (0, script))"


section \<open>Lemmas on the decoder\<close>

text \<open>Decoding looks only at the bytes after \<open>pc\<close>.\<close>

lemma GetOp2_append:
  "GetOp2 (pre @ s) (length pre + pc) =
     (case GetOp2 s pc of (fRet, pc', opcode, vch) \<Rightarrow> (fRet, length pre + pc', opcode, vch))"
  by (auto simp: GetOp2_def Let_def nth_append drop_append split: option.splits)

lemma GetOp2_end [simp]: "GetOp2 s (length s) = (False, length s, OP_INVALIDOPCODE, [])"
  by (simp add: GetOp2_def)

lemma GetOp2_opcode:
  "opcode > OP_PUSHDATA4 \<Longrightarrow> opcode < 256 \<Longrightarrow>
   GetOp2 (of_nat opcode # s) 0 = (True, 1, opcode, [])"
  by (simp add: GetOp2_def)

lemma length_push_vch_pos [simp]: "0 < length (push_vch b)"
  by (simp add: push_vch_def)

lemma push_vch_not_Nil [simp]: "push_vch b \<noteq> []"
  by (simp add: push_vch_def)

lemma GetOp2_push_vch:
  assumes "length b < 4294967296"
  shows "GetOp2 (push_vch b @ post) 0 = (True, length (push_vch b), unat (hd (push_vch b)), b) \<and>
    unat (hd (push_vch b)) \<le> OP_PUSHDATA4"
proof -
  consider "length b < 76" | "76 \<le> length b" "length b \<le> 255" | "255 < length b" "length b \<le> 65535"
    | "65535 < length b" by linarith
  then show ?thesis
  proof cases
    case 1
    then show ?thesis by (simp add: push_vch_def GetOp2_def push_size_def Let_def)
  next
    case 2
    then show ?thesis by (simp add: push_vch_def GetOp2_def push_size_def Let_def)
  next
    case 3
    then show ?thesis
      by (simp add: push_vch_def GetOp2_def push_size_def Let_def ReadLE16_WriteLE16)
        (simp add: WriteLE16_def)
  next
    case 4
    then show ?thesis using assms
      by (simp add: push_vch_def GetOp2_def push_size_def Let_def ReadLE32_WriteLE32)
        (simp add: WriteLE32_def)
  qed
qed

lemma GetOp2_push_vch_at:
  assumes "length b < 4294967296"
  shows "GetOp2 (pre @ push_vch b @ post) (length pre) =
    (True, length pre + length (push_vch b), unat (hd (push_vch b)), b)"
  using GetOp2_push_vch [OF assms, of post] GetOp2_append [of pre "push_vch b @ post" 0] by simp

text \<open>Pushes are prefix-free: the decoder tells two pushes apart.\<close>

lemma push_vch_prefix:
  assumes "length v < 4294967296" and "length x < 4294967296"
    and "take (length (push_vch v)) (push_vch x @ post) = push_vch v"
  shows "x = v"
proof -
  from assms(3) obtain post' where "push_vch x @ post = push_vch v @ post'"
    by (metis append_take_drop_id)
  then show ?thesis
    using GetOp2_push_vch [OF assms(1), of post'] GetOp2_push_vch [OF assms(2), of post] by simp
qed

section \<open>Lemmas on the scans\<close>

lemma DecodeOP_N_bound: "OP_1 \<le> op \<Longrightarrow> op \<le> OP_16 \<Longrightarrow> the (DecodeOP_N op) \<le> 16"
  by (simp add: DecodeOP_N_def)

lemma sigop_loop_mono:
  "n \<le> m \<Longrightarrow> sigop_loop script True pc lastOp n \<le> sigop_loop script False pc lastOp m"
proof (induction pc arbitrary: lastOp n m rule: scan_induct [of "length script"])
  case (step pc)
  obtain fRet pc' opcode vch where op: "GetOp2 script pc = (fRet, pc', opcode, vch)"
    by (cases "GetOp2 script pc") auto
  have IH: "n \<le> m \<Longrightarrow> fRet \<Longrightarrow>
    sigop_loop script True pc' opcode n \<le> sigop_loop script False pc' opcode m" for n m
    using step.IH op GetOp2_progress by metis
  show ?case
    using step.prems IH DecodeOP_N_bound [of lastOp]
    by (subst (1 2) sigop_loop.simps) (auto simp: op)
qed

lemma sigop_loop_bound:
  "sigop_loop script fAccurate pc lastOp n \<le> n + 20 * (length script - pc)"
proof (induction pc arbitrary: lastOp n rule: scan_induct [of "length script"])
  case (step pc)
  obtain fRet pc' opcode vch where op: "GetOp2 script pc = (fRet, pc', opcode, vch)"
    by (cases "GetOp2 script pc") auto
  have IH: "sigop_loop script fAccurate pc' opcode m \<le> n + 20 * (length script - pc)"
    if "fRet" "m \<le> n + 20" for m
  proof -
    have "pc < pc'" "pc' \<le> length script" using op that GetOp2_progress by auto
    then have "20 + 20 * (length script - pc') \<le> 20 * (length script - pc)" by simp
    with step.IH [OF \<open>pc < pc'\<close> \<open>pc' \<le> length script\<close>, of opcode m] that(2) show ?thesis by linarith
  qed
  show ?case
    using IH DecodeOP_N_bound [of lastOp]
    by (subst sigop_loop.simps) (auto simp: op)
qed

lemma fad_loop_length:
  "fad_loop script b pc pc2 result n = (pc2', result', n') \<Longrightarrow> pc2 \<le> pc \<Longrightarrow> pc \<le> length script \<Longrightarrow>
   length result + (pc - pc2) + n * length b = pc \<Longrightarrow>
   length result' + n' * length b = pc2' \<and> pc2' \<le> length script"
proof (induction pc arbitrary: pc2 result n rule: scan_induct [of "length script"])
  case (step pc)
  obtain pc1 n1 where skip: "skip_copies script b pc n = (pc1, n1)" by fastforce
  obtain fRet pc'' opcode vch where op: "GetOp2 script pc1 = (fRet, pc'', opcode, vch)"
    by (cases "GetOp2 script pc1") auto
  let ?r = "result @ take (pc - pc2) (drop pc2 script)"
  have r: "length ?r = length result + (pc - pc2)" using step.prems by simp
  have sk: "pc \<le> pc1" "n \<le> n1" "pc1 = pc + (n1 - n) * length b" "pc1 \<le> length script"
    using skip_copies_le [OF skip] step.prems by auto
  have "n1 * length b = n * length b + (n1 - n) * length b"
    using sk(2) by (simp flip: add_mult_distrib)
  then have inv: "length ?r + n1 * length b = pc1"
    using step.prems(4) sk(3) r by simp
  have eq: "fad_loop script b pc pc2 result n =
    (if fRet then fad_loop script b pc'' pc1 ?r n1 else (pc1, ?r, n1))"
    by (subst fad_loop.simps) (simp add: skip op Let_def)
  show ?case
  proof (cases fRet)
    case True
    have prog: "pc1 < pc''" "pc'' \<le> length script"
      using op True GetOp2_progress by auto
    moreover have "length ?r + (pc'' - pc1) + n1 * length b = pc''"
      using inv prog by simp
    ultimately show ?thesis
      using step.IH [of pc'' pc1 ?r n1] sk(1) step.prems(1) True eq by simp
  next
    case False
    with eq step.prems(1) have "pc2' = pc1" "result' = ?r" "n' = n1" by auto
    with inv sk(4) show ?thesis by simp
  qed
qed

text \<open>On a script that is a sequence of pushes the loop drops the pushes of \<open>v\<close>.\<close>

lemma fad_loop_pushes:
  assumes "length v < 4294967296"
  shows "script = pre @ concat (map push_vch bs) \<Longrightarrow> pc = length pre \<Longrightarrow> pc2 \<le> pc \<Longrightarrow>
    \<forall>x \<in> set bs. length x < 4294967296 \<Longrightarrow>
    fad_loop script (push_vch v) pc pc2 result n = (pc2', result', n') \<Longrightarrow>
    result' @ drop pc2' script =
      result @ take (pc - pc2) (drop pc2 script) @ concat (map push_vch (filter (\<lambda>x. x \<noteq> v) bs)) \<and>
    n' = n + count_list bs v"
proof (induction bs arbitrary: pre pc pc2 result n)
  case Nil
  have "skip_copies script (push_vch v) pc n = (pc, n)"
    using Nil by (subst skip_copies.simps) (simp add: not_le)
  with Nil show ?case
    by (subst (asm) fad_loop.simps) (auto simp: Let_def)
next
  case (Cons x bs)
  let ?r = "result @ take (pc - pc2) (drop pc2 script)"
  let ?b = "push_vch v"
  have rest: "drop pc script = push_vch x @ concat (map push_vch bs)"
    using Cons.prems by simp
  show ?case
  proof (cases "x = v")
    case True
    have skip: "skip_copies script ?b pc n = skip_copies script ?b (pc + length ?b) (n + 1)"
      using Cons.prems True rest by (subst skip_copies.simps) auto
    have "fad_loop script ?b pc pc2 result n =
        fad_loop script ?b (pc + length ?b) (pc + length ?b) ?r (n + 1)"
      by (subst (1 2) fad_loop.simps) (simp add: skip Let_def)
    with Cons.prems Cons.IH [of "pre @ ?b" "pc + length ?b" "pc + length ?b" ?r "n + 1"] True
    show ?thesis by simp
  next
    case False
    have "take (length ?b) (drop pc script) \<noteq> ?b"
      using push_vch_prefix [OF assms, of x "concat (map push_vch bs)"] False Cons.prems(4) rest
      by auto
    then have skip: "skip_copies script ?b pc n = (pc, n)"
      by (subst skip_copies.simps) auto
    have op: "GetOp2 script pc = (True, pc + length (push_vch x), unat (hd (push_vch x)), x)"
      using Cons.prems GetOp2_push_vch_at [of x pre "concat (map push_vch bs)"] by simp
    have "fad_loop script ?b pc pc2 result n =
        fad_loop script ?b (pc + length (push_vch x)) pc ?r n"
      by (subst fad_loop.simps) (simp add: skip op Let_def)
    with Cons.prems Cons.IH [of "pre @ push_vch x" "pc + length (push_vch x)" pc ?r n] False rest
    show ?thesis by simp
  qed
qed

lemma pushes_scan:
  "\<forall>x \<in> set bs. length x < 4294967296 \<Longrightarrow> script = pre @ concat (map push_vch bs) \<Longrightarrow>
   IsPushOnly_from script (length pre) \<and>
   last_push script (length pre) d = Some (if bs = [] then d else last bs)"
proof (induction bs arbitrary: pre d)
  case Nil
  then show ?case by (subst IsPushOnly_from.simps, subst last_push.simps) simp
next
  case (Cons x bs)
  have op: "GetOp2 script (length pre) =
      (True, length pre + length (push_vch x), unat (hd (push_vch x)), x)"
    using Cons.prems GetOp2_push_vch_at [of x pre "concat (map push_vch bs)"] by simp
  have small: "unat (hd (push_vch x)) \<le> OP_16"
    using GetOp2_push_vch [of x "[]"] Cons.prems(1) by simp
  have lt: "length pre < length script" using Cons.prems(2) by simp
  show ?case
    using Cons.IH [of "pre @ push_vch x" x] Cons.prems op small lt
    by (subst IsPushOnly_from.simps, subst last_push.simps) simp
qed

section \<open>Properties\<close>

text \<open>A value written into a script by \<^verbatim>\<open>operator<<\<close> is read back by the decoder, whatever
  surrounds it, and \<^verbatim>\<open>pc\<close> lands right behind it.\<close>

lemma push_decode_roundtrip:
  assumes "length b < 2 ^ 32"
  shows "GetOp2 (pre @ push_vch b @ post) (length pre) =
    (True, length (pre @ push_vch b), unat (hd (push_vch b)), b)"
  using GetOp2_push_vch_at [of b pre post] assms by simp

text \<open>A script that is a sequence of pushes is push-only, and the value that sigop counting
  for pay-to-script-hash takes as the redeem script is the last one pushed.\<close>

lemma pushes_push_only:
  assumes "\<forall>x \<in> set bs. length x < 2 ^ 32"
  shows "IsPushOnly (concat (map push_vch bs)) \<and>
    last_push (concat (map push_vch bs)) 0 [] = Some (if bs = [] then [] else last bs)"
  using pushes_scan [of bs "concat (map push_vch bs)" "[]" "[]"] assms
  by (simp add: IsPushOnly_def)

text \<open>Counting signature operations accurately never gives more than the legacy count, and
  the legacy count is at most 20 per script byte, so it does not overflow 32 bits.\<close>

lemma sigop_count_bound:
  "GetSigOpCount script True \<le> GetSigOpCount script False \<and>
   GetSigOpCount script fAccurate \<le> MAX_PUBKEYS_PER_MULTISIG * length script"
  using sigop_loop_mono [of 0 0 script] sigop_loop_bound [of script fAccurate 0 OP_INVALIDOPCODE 0]
  by (simp add: GetSigOpCount_def)

text \<open>\<open>FindAndDelete\<close> removes exactly as many copies as it reports, and leaves a script
  without a match unchanged.\<close>

lemma FindAndDelete_length:
  assumes "FindAndDelete script b = (n, script')"
  shows "length script = length script' + n * length b \<and> (n = 0 \<longrightarrow> script' = script)"
proof (cases "b = []")
  case True
  with assms show ?thesis by (simp add: FindAndDelete_def)
next
  case False
  obtain pc2 result k where loop: "fad_loop script b 0 0 [] 0 = (pc2, result, k)"
    by (cases "fad_loop script b 0 0 [] 0") auto
  have "length result + k * length b = pc2 \<and> pc2 \<le> length script"
    using fad_loop_length [OF loop] by simp
  with assms loop False show ?thesis
    by (auto simp: FindAndDelete_def split: if_splits)
qed

text \<open>On a sequence of pushes, deleting the push of \<open>v\<close> removes every occurrence of the
  value \<open>v\<close>, keeps every other one in order, and reports the number removed.\<close>

lemma FindAndDelete_pushes:
  assumes "length v < 2 ^ 32" and "\<forall>x \<in> set bs. length x < 2 ^ 32"
  shows "FindAndDelete (concat (map push_vch bs)) (push_vch v) =
    (count_list bs v, concat (map push_vch (filter (\<lambda>x. x \<noteq> v) bs)))"
proof -
  let ?s = "concat (map push_vch bs)"
  obtain pc2 result k where loop: "fad_loop ?s (push_vch v) 0 0 [] 0 = (pc2, result, k)"
    by (cases "fad_loop ?s (push_vch v) 0 0 [] 0") auto
  have *: "result @ drop pc2 ?s = concat (map push_vch (filter (\<lambda>x. x \<noteq> v) bs)) \<and> k = count_list bs v"
    using fad_loop_pushes [of v ?s "[]" bs 0 0 "[]" 0 pc2 result k] assms loop by simp
  moreover have "filter (\<lambda>x. x \<noteq> v) bs = bs" if "count_list bs v = 0"
    using that by (auto simp: count_list_0_iff intro: filter_True)
  ultimately show ?thesis
    using loop by (simp add: FindAndDelete_def)
qed

end
