(* ===== verification/Interpreter.thy ===== *)
theory Interpreter
  imports Script
begin

text \<open>
  The script interpreter (\<^verbatim>\<open>src/src/script/interpreter.cpp\<close>): the checks on signature and key
  encodings, \<open>EvalScript\<close> opcode by opcode, \<open>VerifyWitnessProgram\<close> and \<open>VerifyScript\<close>.

  \<^item> A stack is a list with its top first: \<^verbatim>\<open>stacktop(-i)\<close> is \<open>stack ! (i - 1)\<close>.
  \<^item> \<open>outcome\<close> separates a normal return from a failed assertion and from undefined behaviour;
    the only undefined reads in this file are \<^verbatim>\<open>vchSig[vchSig.size() - 1]\<close> on an empty signature
    and \<^verbatim>\<open>stack[stack.size()-2]\<close> on a short stack.
  \<^item> The virtual methods of \<^verbatim>\<open>BaseSignatureChecker\<close> are the fields of \<open>signature_checker\<close>; the
    hash functions and \<^verbatim>\<open>CPubKey::CheckLowS\<close> (a call into libsecp256k1) are the fields of
    \<open>script_crypto\<close>; \<open>chain_ctx\<close> holds \<^verbatim>\<open>chainActive.Height()\<close> and the consensus heights the
    interpreter reads.
\<close>

section \<open>Errors, flags and the environment\<close>

datatype (plugins only: code) ScriptError =
    SCRIPT_ERR_OK | SCRIPT_ERR_UNKNOWN_ERROR | SCRIPT_ERR_EVAL_FALSE | SCRIPT_ERR_OP_RETURN
  | SCRIPT_ERR_SCRIPT_SIZE | SCRIPT_ERR_PUSH_SIZE | SCRIPT_ERR_OP_COUNT | SCRIPT_ERR_STACK_SIZE
  | SCRIPT_ERR_SIG_COUNT | SCRIPT_ERR_PUBKEY_COUNT
  | SCRIPT_ERR_VERIFY | SCRIPT_ERR_EQUALVERIFY | SCRIPT_ERR_CHECKMULTISIGVERIFY
  | SCRIPT_ERR_CHECKSIGVERIFY | SCRIPT_ERR_NUMEQUALVERIFY
  | SCRIPT_ERR_BAD_OPCODE | SCRIPT_ERR_DISABLED_OPCODE | SCRIPT_ERR_INVALID_STACK_OPERATION
  | SCRIPT_ERR_INVALID_ALTSTACK_OPERATION | SCRIPT_ERR_UNBALANCED_CONDITIONAL
  | SCRIPT_ERR_NEGATIVE_LOCKTIME | SCRIPT_ERR_UNSATISFIED_LOCKTIME
  | SCRIPT_ERR_SIG_HASHTYPE | SCRIPT_ERR_SIG_DER | SCRIPT_ERR_MINIMALDATA | SCRIPT_ERR_SIG_PUSHONLY
  | SCRIPT_ERR_SIG_HIGH_S | SCRIPT_ERR_SIG_NULLDUMMY | SCRIPT_ERR_PUBKEYTYPE | SCRIPT_ERR_CLEANSTACK
  | SCRIPT_ERR_MINIMALIF | SCRIPT_ERR_SIG_NULLFAIL
  | SCRIPT_ERR_DISCOURAGE_UPGRADABLE_NOPS | SCRIPT_ERR_DISCOURAGE_UPGRADABLE_WITNESS_PROGRAM
  | SCRIPT_ERR_WITNESS_PROGRAM_WRONG_LENGTH | SCRIPT_ERR_WITNESS_PROGRAM_WITNESS_EMPTY
  | SCRIPT_ERR_WITNESS_PROGRAM_MISMATCH | SCRIPT_ERR_WITNESS_MALLEATED
  | SCRIPT_ERR_WITNESS_MALLEATED_P2SH | SCRIPT_ERR_WITNESS_UNEXPECTED | SCRIPT_ERR_WITNESS_PUBKEYTYPE
  | SCRIPT_ERR_ILLEGAL_FORKID | SCRIPT_ERR_MUST_USE_FORKID | SCRIPT_ERR_ERROR_COUNT

datatype 'a outcome = Ret 'a | AssertFail | UndefinedBehaviour

text \<open>Sequencing: the first failure ends the computation.\<close>

primrec outcome_bind :: "'a outcome \<Rightarrow> ('a \<Rightarrow> 'b outcome) \<Rightarrow> 'b outcome" where
  "outcome_bind (Ret x) f = f x"
| "outcome_bind AssertFail f = AssertFail"
| "outcome_bind UndefinedBehaviour f = UndefinedBehaviour"

lemma map_outcome_eq_Ret: "map_outcome f x = Ret y \<longleftrightarrow> (\<exists>z. x = Ret z \<and> y = f z)"
  by (cases x) auto

abbreviation (input) SIGHASH_ALL :: byte where "SIGHASH_ALL \<equiv> 1"
abbreviation (input) SIGHASH_NONE :: byte where "SIGHASH_NONE \<equiv> 2"
abbreviation (input) SIGHASH_SINGLE :: byte where "SIGHASH_SINGLE \<equiv> 3"
abbreviation (input) SIGHASH_FORKID :: byte where "SIGHASH_FORKID \<equiv> 0x8"
abbreviation (input) SIGHASH_ANYONECANPAY :: byte where "SIGHASH_ANYONECANPAY \<equiv> 0x80"

abbreviation (input) SCRIPT_VERIFY_P2SH :: flags where "SCRIPT_VERIFY_P2SH \<equiv> 0x1"
abbreviation (input) SCRIPT_VERIFY_STRICTENC :: flags where "SCRIPT_VERIFY_STRICTENC \<equiv> 0x2"
abbreviation (input) SCRIPT_VERIFY_DERSIG :: flags where "SCRIPT_VERIFY_DERSIG \<equiv> 0x4"
abbreviation (input) SCRIPT_VERIFY_LOW_S :: flags where "SCRIPT_VERIFY_LOW_S \<equiv> 0x8"
abbreviation (input) SCRIPT_VERIFY_NULLDUMMY :: flags where "SCRIPT_VERIFY_NULLDUMMY \<equiv> 0x10"
abbreviation (input) SCRIPT_VERIFY_SIGPUSHONLY :: flags where "SCRIPT_VERIFY_SIGPUSHONLY \<equiv> 0x20"
abbreviation (input) SCRIPT_VERIFY_MINIMALDATA :: flags where "SCRIPT_VERIFY_MINIMALDATA \<equiv> 0x40"
abbreviation (input) SCRIPT_VERIFY_DISCOURAGE_UPGRADABLE_NOPS :: flags where
  "SCRIPT_VERIFY_DISCOURAGE_UPGRADABLE_NOPS \<equiv> 0x80"
abbreviation (input) SCRIPT_VERIFY_CLEANSTACK :: flags where "SCRIPT_VERIFY_CLEANSTACK \<equiv> 0x100"
abbreviation (input) SCRIPT_VERIFY_CHECKLOCKTIMEVERIFY :: flags where
  "SCRIPT_VERIFY_CHECKLOCKTIMEVERIFY \<equiv> 0x200"
abbreviation (input) SCRIPT_VERIFY_CHECKSEQUENCEVERIFY :: flags where
  "SCRIPT_VERIFY_CHECKSEQUENCEVERIFY \<equiv> 0x400"
abbreviation (input) SCRIPT_VERIFY_WITNESS :: flags where "SCRIPT_VERIFY_WITNESS \<equiv> 0x800"
abbreviation (input) SCRIPT_VERIFY_DISCOURAGE_UPGRADABLE_WITNESS_PROGRAM :: flags where
  "SCRIPT_VERIFY_DISCOURAGE_UPGRADABLE_WITNESS_PROGRAM \<equiv> 0x1000"
abbreviation (input) SCRIPT_VERIFY_MINIMALIF :: flags where "SCRIPT_VERIFY_MINIMALIF \<equiv> 0x2000"
abbreviation (input) SCRIPT_VERIFY_NULLFAIL :: flags where "SCRIPT_VERIFY_NULLFAIL \<equiv> 0x4000"
abbreviation (input) SCRIPT_VERIFY_WITNESS_PUBKEYTYPE :: flags where
  "SCRIPT_VERIFY_WITNESS_PUBKEYTYPE \<equiv> 0x8000"
abbreviation (input) SCRIPT_ENABLE_SIGHASH_FORKID :: flags where
  "SCRIPT_ENABLE_SIGHASH_FORKID \<equiv> 0x40000"
abbreviation (input) SCRIPT_EXEC_BYTE_CODE :: flags where "SCRIPT_EXEC_BYTE_CODE \<equiv> 0x40000000"

abbreviation (input) SEQUENCE_FINAL :: nat where "SEQUENCE_FINAL \<equiv> 0xffffffff"
abbreviation (input) SEQUENCE_LOCKTIME_DISABLE_FLAG :: nat where
  "SEQUENCE_LOCKTIME_DISABLE_FLAG \<equiv> 0x80000000"

datatype SigVersion = SIGVERSION_BASE | SIGVERSION_WITNESS_V0

record signature_checker =
  CheckSig :: "bytes \<Rightarrow> bytes \<Rightarrow> bytes \<Rightarrow> SigVersion \<Rightarrow> bool"
  CheckLockTime :: "int \<Rightarrow> bool"
  CheckSequence :: "int \<Rightarrow> bool"

record script_crypto =
  RIPEMD160 :: "bytes \<Rightarrow> bytes"
  SHA1 :: "bytes \<Rightarrow> bytes"
  SHA256 :: "bytes \<Rightarrow> bytes"
  CheckLowS :: "bytes \<Rightarrow> bool"

record chain_ctx =
  chain_height :: int
  UBCHeight :: int
  UBCInitBlockCount :: int
  ForkV4Height :: int
  UBCForkGeneratorPubkey :: bytes

record script_env =
  env_flags :: flags
  env_sigversion :: SigVersion
  env_checker :: signature_checker
  env_crypto :: script_crypto
  env_chain :: chain_ctx

text \<open>\<^verbatim>\<open>CHash160\<close> and \<^verbatim>\<open>CHash256\<close> of \<^verbatim>\<open>src/src/hash.h\<close>.\<close>

definition Hash160 :: "script_crypto \<Rightarrow> bytes \<Rightarrow> bytes" where
  "Hash160 c v = RIPEMD160 c (SHA256 c v)"

definition Hash256 :: "script_crypto \<Rightarrow> bytes \<Rightarrow> bytes" where
  "Hash256 c v = SHA256 c (SHA256 c v)"

text \<open>The base class: every check fails.\<close>

definition BaseSignatureChecker :: signature_checker where
  "BaseSignatureChecker =
     \<lparr>CheckSig = (\<lambda>_ _ _ _. False), CheckLockTime = (\<lambda>_. False), CheckSequence = (\<lambda>_. False)\<rparr>"

section \<open>Encodings\<close>

fun CastToBool :: "valtype \<Rightarrow> bool" where
  "CastToBool [] = False"
| "CastToBool (b # bs) =
     (if b \<noteq> 0 then (if bs = [] \<and> b = 0x80 then False else True) else CastToBool bs)"

definition IsCompressedOrUncompressedPubKey :: "valtype \<Rightarrow> bool" where
  "IsCompressedOrUncompressedPubKey vchPubKey =
     (if length vchPubKey < 33 then False
      else if vchPubKey ! 0 = 0x04 then length vchPubKey = 65
      else if vchPubKey ! 0 = 0x02 \<or> vchPubKey ! 0 = 0x03 then length vchPubKey = 33
      else False)"

definition IsCompressedPubKey :: "valtype \<Rightarrow> bool" where
  "IsCompressedPubKey vchPubKey =
     (if length vchPubKey \<noteq> 33 then False
      else if vchPubKey ! 0 \<noteq> 0x02 \<and> vchPubKey ! 0 \<noteq> 0x03 then False
      else True)"

definition IsValidSignatureEncoding :: "bytes \<Rightarrow> bool" where
  "IsValidSignatureEncoding sig =
     (if length sig < 9 then False
      else if 73 < length sig then False
      else if sig ! 0 \<noteq> 0x30 then False
      else if unat (sig ! 1) \<noteq> length sig - 3 then False
      else let lenR = unat (sig ! 3) in
        if length sig \<le> 5 + lenR then False
        else let lenS = unat (sig ! (5 + lenR)) in
          if lenR + lenS + 7 \<noteq> length sig then False
          else if sig ! 2 \<noteq> 0x02 then False
          else if lenR = 0 then False
          else if sig ! 4 AND 0x80 \<noteq> 0 then False
          else if 1 < lenR \<and> sig ! 4 = 0x00 \<and> sig ! 5 AND 0x80 = 0 then False
          else if sig ! (lenR + 4) \<noteq> 0x02 then False
          else if lenS = 0 then False
          else if sig ! (lenR + 6) AND 0x80 \<noteq> 0 then False
          else if 1 < lenS \<and> sig ! (lenR + 6) = 0x00 \<and> sig ! (lenR + 7) AND 0x80 = 0 then False
          else True)"

text \<open>The checks that set \<^verbatim>\<open>serror\<close> return the error, or \<^const>\<open>None\<close> for success.\<close>

definition IsLowDERSignature :: "script_crypto \<Rightarrow> valtype \<Rightarrow> ScriptError option" where
  "IsLowDERSignature c vchSig =
     (if \<not> IsValidSignatureEncoding vchSig then Some SCRIPT_ERR_SIG_DER
      else if \<not> CheckLowS c (take (length vchSig - 1) vchSig) then Some SCRIPT_ERR_SIG_HIGH_S
      else None)"

definition IsDefinedHashtypeSignature :: "valtype \<Rightarrow> bool" where
  "IsDefinedHashtypeSignature vchSig =
     (if length vchSig = 0 then False
      else let nHashType = vchSig ! (length vchSig - 1) AND
                 NOT (SIGHASH_ANYONECANPAY OR SIGHASH_FORKID)
        in if nHashType < SIGHASH_ALL \<or> SIGHASH_SINGLE < nHashType then False else True)"

text \<open>The statements after the \<^verbatim>\<open>return\<close> in the last branch of the source, which test
  \<^verbatim>\<open>SIGHASH_FORKID\<close>, are unreachable.\<close>

definition CheckSignatureEncoding ::
    "script_crypto \<Rightarrow> bytes \<Rightarrow> flags \<Rightarrow> ScriptError option" where
  "CheckSignatureEncoding c vchSig flags =
     (if length vchSig = 0 then None
      else if has_flag flags (SCRIPT_VERIFY_DERSIG OR SCRIPT_VERIFY_LOW_S OR SCRIPT_VERIFY_STRICTENC) \<and>
          \<not> IsValidSignatureEncoding vchSig then Some SCRIPT_ERR_SIG_DER
      else if has_flag flags SCRIPT_VERIFY_LOW_S \<and> IsLowDERSignature c vchSig \<noteq> None
        then IsLowDERSignature c vchSig
      else if has_flag flags SCRIPT_VERIFY_STRICTENC \<and> \<not> IsDefinedHashtypeSignature vchSig
        then Some SCRIPT_ERR_SIG_HASHTYPE
      else None)"

definition CheckPubKeyEncoding :: "valtype \<Rightarrow> flags \<Rightarrow> SigVersion \<Rightarrow> ScriptError option" where
  "CheckPubKeyEncoding vchPubKey flags sigversion =
     (if has_flag flags SCRIPT_VERIFY_STRICTENC \<and> \<not> IsCompressedOrUncompressedPubKey vchPubKey
        then Some SCRIPT_ERR_PUBKEYTYPE
      else if has_flag flags SCRIPT_VERIFY_WITNESS_PUBKEYTYPE \<and>
          sigversion = SIGVERSION_WITNESS_V0 \<and> \<not> IsCompressedPubKey vchPubKey
        then Some SCRIPT_ERR_WITNESS_PUBKEYTYPE
      else None)"

definition CheckMinimalPush :: "valtype \<Rightarrow> nat \<Rightarrow> bool" where
  "CheckMinimalPush data opcode =
     (if length data = 0 then opcode = OP_0
      else if length data = 1 \<and> 1 \<le> unat (data ! 0) \<and> unat (data ! 0) \<le> 16
        then opcode = OP_1 + (unat (data ! 0) - 1)
      else if length data = 1 \<and> data ! 0 = 0x81 then opcode = OP_1NEGATE
      else if length data \<le> 75 then opcode = length data
      else if length data \<le> 255 then opcode = OP_PUSHDATA1
      else if length data \<le> 65535 then opcode = OP_PUSHDATA2
      else True)"

end
