(* ===== verification/EvalScript.thy ===== *)
theory EvalScript
  imports Interpreter
begin

text \<open>
  \<open>EvalScript\<close> of \<^verbatim>\<open>src/src/script/interpreter.cpp\<close>.  \<open>eval_state\<close> holds the local variables of the
  loop, one definition models each \<^verbatim>\<open>case\<close> of the \<^verbatim>\<open>switch\<close>, \<open>exec_op\<close> is the switch, \<open>eval_step\<close>
  one iteration and \<open>eval_loop\<close> the \<^verbatim>\<open>while\<close>.  An exception thrown in the loop
  (\<^verbatim>\<open>scriptnum_error\<close>) is caught by \<^verbatim>\<open>catch (...)\<close> and gives \<open>SCRIPT_ERR_UNKNOWN_ERROR\<close> with the
  stack as it is at the throw.
\<close>

section \<open>State and results of a step\<close>

record eval_state =
  st_pc :: nat
  st_codehash :: nat
  st_stack :: "valtype list"
  st_alt :: "valtype list"
  st_exec :: "bool list"
  st_ops :: nat

type_synonym eval_result = "(bool \<times> ScriptError \<times> valtype list) outcome"

datatype step = Next eval_state | Stop eval_result

abbreviation fail :: "eval_state \<Rightarrow> ScriptError \<Rightarrow> step" where
  "fail st e \<equiv> Stop (Ret (False, e, st_stack st))"

abbreviation vchFalse :: valtype where "vchFalse \<equiv> []"
abbreviation vchTrue :: valtype where "vchTrue \<equiv> [1]"

abbreviation vch_bool :: "bool \<Rightarrow> valtype" where
  "vch_bool b \<equiv> (if b then vchTrue else vchFalse)"

definition push :: "eval_state \<Rightarrow> valtype \<Rightarrow> eval_state" where
  "push st v = st\<lparr>st_stack := v # st_stack st\<rparr>"

definition fRequireMinimal :: "script_env \<Rightarrow> bool" where
  "fRequireMinimal env = has_flag (env_flags env) SCRIPT_VERIFY_MINIMALDATA"

text \<open>\<^const>\<open>None\<close> from a stack operation is \<open>SCRIPT_ERR_INVALID_STACK_OPERATION\<close>.\<close>

definition stack_step :: "eval_state \<Rightarrow> valtype list option \<Rightarrow> step" where
  "stack_step st res =
     (case res of None \<Rightarrow> fail st SCRIPT_ERR_INVALID_STACK_OPERATION
      | Some s \<Rightarrow> Next (st\<lparr>st_stack := s\<rparr>))"

section \<open>Push values and control\<close>

definition op_push_value :: "nat \<Rightarrow> eval_state \<Rightarrow> step" where
  "op_push_value opcode st = Next (push st (getvch (int opcode - (int OP_1 - 1))))"

text \<open>Shared shape of the two lock time opcodes: flag test, operand of at most five bytes, sign
  test, then the check of the opcode.\<close>

definition op_CHECKLOCKTIMEVERIFY :: "script_env \<Rightarrow> eval_state \<Rightarrow> step" where
  "op_CHECKLOCKTIMEVERIFY env st =
     (if \<not> has_flag (env_flags env) SCRIPT_VERIFY_CHECKLOCKTIMEVERIFY then
        (if has_flag (env_flags env) SCRIPT_VERIFY_DISCOURAGE_UPGRADABLE_NOPS
         then fail st SCRIPT_ERR_DISCOURAGE_UPGRADABLE_NOPS else Next st)
      else case st_stack st of
        [] \<Rightarrow> fail st SCRIPT_ERR_INVALID_STACK_OPERATION
      | x # _ \<Rightarrow>
          (case CScriptNum x (fRequireMinimal env) 5 of
             Inl _ \<Rightarrow> fail st SCRIPT_ERR_UNKNOWN_ERROR
           | Inr nLockTime \<Rightarrow>
               if nLockTime < 0 then fail st SCRIPT_ERR_NEGATIVE_LOCKTIME
               else if \<not> CheckLockTime (env_checker env) nLockTime
                 then fail st SCRIPT_ERR_UNSATISFIED_LOCKTIME
               else Next st))"

definition op_CHECKSEQUENCEVERIFY :: "script_env \<Rightarrow> eval_state \<Rightarrow> step" where
  "op_CHECKSEQUENCEVERIFY env st =
     (if \<not> has_flag (env_flags env) SCRIPT_VERIFY_CHECKSEQUENCEVERIFY then
        (if has_flag (env_flags env) SCRIPT_VERIFY_DISCOURAGE_UPGRADABLE_NOPS
         then fail st SCRIPT_ERR_DISCOURAGE_UPGRADABLE_NOPS else Next st)
      else case st_stack st of
        [] \<Rightarrow> fail st SCRIPT_ERR_INVALID_STACK_OPERATION
      | x # _ \<Rightarrow>
          (case CScriptNum x (fRequireMinimal env) 5 of
             Inl _ \<Rightarrow> fail st SCRIPT_ERR_UNKNOWN_ERROR
           | Inr nSequence \<Rightarrow>
               if nSequence < 0 then fail st SCRIPT_ERR_NEGATIVE_LOCKTIME
               else if nSequence AND int SEQUENCE_LOCKTIME_DISABLE_FLAG \<noteq> 0 then Next st
               else if \<not> CheckSequence (env_checker env) nSequence
                 then fail st SCRIPT_ERR_UNSATISFIED_LOCKTIME
               else Next st))"

definition op_upgradable_NOP :: "script_env \<Rightarrow> eval_state \<Rightarrow> step" where
  "op_upgradable_NOP env st =
     (if has_flag (env_flags env) SCRIPT_VERIFY_DISCOURAGE_UPGRADABLE_NOPS
      then fail st SCRIPT_ERR_DISCOURAGE_UPGRADABLE_NOPS else Next st)"

definition op_IF :: "script_env \<Rightarrow> nat \<Rightarrow> bool \<Rightarrow> eval_state \<Rightarrow> step" where
  "op_IF env opcode fExec st =
     (if \<not> fExec then Next (st\<lparr>st_exec := st_exec st @ [False]\<rparr>)
      else case st_stack st of
        [] \<Rightarrow> fail st SCRIPT_ERR_UNBALANCED_CONDITIONAL
      | vch # stk \<Rightarrow>
          if env_sigversion env = SIGVERSION_WITNESS_V0 \<and>
             has_flag (env_flags env) SCRIPT_VERIFY_MINIMALIF \<and>
             (1 < length vch \<or> (length vch = 1 \<and> vch ! 0 \<noteq> 1))
          then fail st SCRIPT_ERR_MINIMALIF
          else let fValue = (if opcode = OP_NOTIF then \<not> CastToBool vch else CastToBool vch)
            in Next (st\<lparr>st_stack := stk, st_exec := st_exec st @ [fValue]\<rparr>))"

definition op_ELSE :: "eval_state \<Rightarrow> step" where
  "op_ELSE st =
     (if st_exec st = [] then fail st SCRIPT_ERR_UNBALANCED_CONDITIONAL
      else Next (st\<lparr>st_exec := butlast (st_exec st) @ [\<not> last (st_exec st)]\<rparr>))"

definition op_ENDIF :: "eval_state \<Rightarrow> step" where
  "op_ENDIF st =
     (if st_exec st = [] then fail st SCRIPT_ERR_UNBALANCED_CONDITIONAL
      else Next (st\<lparr>st_exec := butlast (st_exec st)\<rparr>))"

definition op_VERIFY :: "eval_state \<Rightarrow> step" where
  "op_VERIFY st =
     (case st_stack st of
        [] \<Rightarrow> fail st SCRIPT_ERR_INVALID_STACK_OPERATION
      | x # stk \<Rightarrow>
          if CastToBool x then Next (st\<lparr>st_stack := stk\<rparr>) else fail st SCRIPT_ERR_VERIFY)"

section \<open>Stack operations\<close>

definition op_TOALTSTACK :: "eval_state \<Rightarrow> step" where
  "op_TOALTSTACK st =
     (case st_stack st of
        [] \<Rightarrow> fail st SCRIPT_ERR_INVALID_STACK_OPERATION
      | x # stk \<Rightarrow> Next (st\<lparr>st_alt := x # st_alt st, st_stack := stk\<rparr>))"

definition op_FROMALTSTACK :: "eval_state \<Rightarrow> step" where
  "op_FROMALTSTACK st =
     (case st_alt st of
        [] \<Rightarrow> fail st SCRIPT_ERR_INVALID_ALTSTACK_OPERATION
      | x # alt \<Rightarrow> Next (st\<lparr>st_stack := x # st_stack st, st_alt := alt\<rparr>))"

definition op_2DROP :: "valtype list \<Rightarrow> valtype list option" where
  "op_2DROP stk = (case stk of x2 # x1 # s \<Rightarrow> Some s | _ \<Rightarrow> None)"

definition op_2DUP :: "valtype list \<Rightarrow> valtype list option" where
  "op_2DUP stk = (case stk of x2 # x1 # s \<Rightarrow> Some (x2 # x1 # x2 # x1 # s) | _ \<Rightarrow> None)"

definition op_3DUP :: "valtype list \<Rightarrow> valtype list option" where
  "op_3DUP stk =
     (case stk of x3 # x2 # x1 # s \<Rightarrow> Some (x3 # x2 # x1 # x3 # x2 # x1 # s) | _ \<Rightarrow> None)"

definition op_2OVER :: "valtype list \<Rightarrow> valtype list option" where
  "op_2OVER stk =
     (case stk of x4 # x3 # x2 # x1 # s \<Rightarrow> Some (x2 # x1 # x4 # x3 # x2 # x1 # s) | _ \<Rightarrow> None)"

definition op_2ROT :: "valtype list \<Rightarrow> valtype list option" where
  "op_2ROT stk =
     (case stk of x6 # x5 # x4 # x3 # x2 # x1 # s \<Rightarrow> Some (x2 # x1 # x6 # x5 # x4 # x3 # s)
      | _ \<Rightarrow> None)"

definition op_2SWAP :: "valtype list \<Rightarrow> valtype list option" where
  "op_2SWAP stk =
     (case stk of x4 # x3 # x2 # x1 # s \<Rightarrow> Some (x2 # x1 # x4 # x3 # s) | _ \<Rightarrow> None)"

definition op_IFDUP :: "valtype list \<Rightarrow> valtype list option" where
  "op_IFDUP stk = (case stk of x # s \<Rightarrow> Some (if CastToBool x then x # x # s else x # s) | _ \<Rightarrow> None)"

definition op_DEPTH :: "valtype list \<Rightarrow> valtype list option" where
  "op_DEPTH stk = Some (getvch (int (length stk)) # stk)"

definition op_DROP :: "valtype list \<Rightarrow> valtype list option" where
  "op_DROP stk = (case stk of x # s \<Rightarrow> Some s | _ \<Rightarrow> None)"

definition op_DUP :: "valtype list \<Rightarrow> valtype list option" where
  "op_DUP stk = (case stk of x # s \<Rightarrow> Some (x # x # s) | _ \<Rightarrow> None)"

definition op_NIP :: "valtype list \<Rightarrow> valtype list option" where
  "op_NIP stk = (case stk of x2 # x1 # s \<Rightarrow> Some (x2 # s) | _ \<Rightarrow> None)"

definition op_OVER :: "valtype list \<Rightarrow> valtype list option" where
  "op_OVER stk = (case stk of x2 # x1 # s \<Rightarrow> Some (x1 # x2 # x1 # s) | _ \<Rightarrow> None)"

text \<open>\<open>OP_PICK\<close> and \<open>OP_ROLL\<close>: the count has been popped when it turns out to be out of range.\<close>

definition op_PICK_ROLL :: "script_env \<Rightarrow> nat \<Rightarrow> eval_state \<Rightarrow> step" where
  "op_PICK_ROLL env opcode st =
     (case st_stack st of
        xn # x # s \<Rightarrow>
          (case CScriptNum xn (fRequireMinimal env) nDefaultMaxNumSize of
             Inl _ \<Rightarrow> fail st SCRIPT_ERR_UNKNOWN_ERROR
           | Inr bn \<Rightarrow>
               let n = getint bn; stk = x # s
               in if n < 0 \<or> int (length stk) \<le> n
                  then fail (st\<lparr>st_stack := stk\<rparr>) SCRIPT_ERR_INVALID_STACK_OPERATION
                  else let vch = stk ! nat n;
                           stk' = (if opcode = OP_ROLL
                                   then take (nat n) stk @ drop (Suc (nat n)) stk else stk)
                    in Next (st\<lparr>st_stack := vch # stk'\<rparr>))
      | _ \<Rightarrow> fail st SCRIPT_ERR_INVALID_STACK_OPERATION)"

definition op_ROT :: "valtype list \<Rightarrow> valtype list option" where
  "op_ROT stk = (case stk of x3 # x2 # x1 # s \<Rightarrow> Some (x1 # x3 # x2 # s) | _ \<Rightarrow> None)"

definition op_SWAP :: "valtype list \<Rightarrow> valtype list option" where
  "op_SWAP stk = (case stk of x2 # x1 # s \<Rightarrow> Some (x1 # x2 # s) | _ \<Rightarrow> None)"

definition op_TUCK :: "valtype list \<Rightarrow> valtype list option" where
  "op_TUCK stk = (case stk of x2 # x1 # s \<Rightarrow> Some (x2 # x1 # x2 # s) | _ \<Rightarrow> None)"

definition op_SIZE :: "valtype list \<Rightarrow> valtype list option" where
  "op_SIZE stk = (case stk of x # s \<Rightarrow> Some (getvch (int (length x)) # x # s) | _ \<Rightarrow> None)"

definition op_EQUAL :: "nat \<Rightarrow> eval_state \<Rightarrow> step" where
  "op_EQUAL opcode st =
     (case st_stack st of
        vch2 # vch1 # s \<Rightarrow>
          let fEqual = (vch1 = vch2)
          in if opcode = OP_EQUALVERIFY then
               (if fEqual then Next (st\<lparr>st_stack := s\<rparr>)
                else fail (st\<lparr>st_stack := vchFalse # s\<rparr>) SCRIPT_ERR_EQUALVERIFY)
             else Next (st\<lparr>st_stack := vch_bool fEqual # s\<rparr>)
      | _ \<Rightarrow> fail st SCRIPT_ERR_INVALID_STACK_OPERATION)"

section \<open>Numeric operations\<close>

text \<open>The operators of \<^verbatim>\<open>CScriptNum\<close> that assert; \<^const>\<open>None\<close> is the failed assertion.\<close>

definition num_neg :: "int \<Rightarrow> int option" where
  "num_neg m_value = (if m_value = INT64_MIN then None else Some (- m_value))"

definition num_add_assign :: "int \<Rightarrow> int \<Rightarrow> int option" where
  "num_add_assign m_value rhs =
     (if rhs = 0 \<or> (0 < rhs \<and> m_value \<le> INT64_MAX - rhs) \<or> (rhs < 0 \<and> INT64_MIN - rhs \<le> m_value)
      then Some (m_value + rhs) else None)"

definition num_sub_assign :: "int \<Rightarrow> int \<Rightarrow> int option" where
  "num_sub_assign m_value rhs =
     (if rhs = 0 \<or> (0 < rhs \<and> INT64_MIN + rhs \<le> m_value) \<or> (rhs < 0 \<and> m_value \<le> INT64_MAX + rhs)
      then Some (m_value - rhs) else None)"

definition unary_num :: "nat \<Rightarrow> int \<Rightarrow> int option" where
  "unary_num opcode bn =
     (if opcode = OP_1ADD then num_add_assign bn 1
      else if opcode = OP_1SUB then num_sub_assign bn 1
      else if opcode = OP_NEGATE then num_neg bn
      else if opcode = OP_ABS then (if bn < 0 then num_neg bn else Some bn)
      else if opcode = OP_NOT then Some (of_bool (bn = 0))
      else if opcode = OP_0NOTEQUAL then Some (of_bool (bn \<noteq> 0))
      else None)"

definition op_unary_num :: "script_env \<Rightarrow> nat \<Rightarrow> eval_state \<Rightarrow> step" where
  "op_unary_num env opcode st =
     (case st_stack st of
        [] \<Rightarrow> fail st SCRIPT_ERR_INVALID_STACK_OPERATION
      | x # s \<Rightarrow>
          (case CScriptNum x (fRequireMinimal env) nDefaultMaxNumSize of
             Inl _ \<Rightarrow> fail st SCRIPT_ERR_UNKNOWN_ERROR
           | Inr bn \<Rightarrow>
               (case unary_num opcode bn of
                  None \<Rightarrow> Stop AssertFail
                | Some r \<Rightarrow> Next (st\<lparr>st_stack := getvch r # s\<rparr>))))"

text \<open>\<^verbatim>\<open>operator+\<close> and \<^verbatim>\<open>operator-\<close> do not assert; their operands have four bytes.\<close>

definition binary_num :: "nat \<Rightarrow> int \<Rightarrow> int \<Rightarrow> int option" where
  "binary_num opcode bn1 bn2 =
     (if opcode = OP_ADD then Some (bn1 + bn2)
      else if opcode = OP_SUB then Some (bn1 - bn2)
      else if opcode = OP_BOOLAND then Some (of_bool (bn1 \<noteq> 0 \<and> bn2 \<noteq> 0))
      else if opcode = OP_BOOLOR then Some (of_bool (bn1 \<noteq> 0 \<or> bn2 \<noteq> 0))
      else if opcode = OP_NUMEQUAL then Some (of_bool (bn1 = bn2))
      else if opcode = OP_NUMEQUALVERIFY then Some (of_bool (bn1 = bn2))
      else if opcode = OP_NUMNOTEQUAL then Some (of_bool (bn1 \<noteq> bn2))
      else if opcode = OP_LESSTHAN then Some (of_bool (bn1 < bn2))
      else if opcode = OP_GREATERTHAN then Some (of_bool (bn1 > bn2))
      else if opcode = OP_LESSTHANOREQUAL then Some (of_bool (bn1 \<le> bn2))
      else if opcode = OP_GREATERTHANOREQUAL then Some (of_bool (bn1 \<ge> bn2))
      else if opcode = OP_MIN then Some (if bn1 < bn2 then bn1 else bn2)
      else if opcode = OP_MAX then Some (if bn1 > bn2 then bn1 else bn2)
      else None)"

definition op_binary_num :: "script_env \<Rightarrow> nat \<Rightarrow> eval_state \<Rightarrow> step" where
  "op_binary_num env opcode st =
     (case st_stack st of
        x2 # x1 # s \<Rightarrow>
          (case CScriptNum x1 (fRequireMinimal env) nDefaultMaxNumSize of
             Inl _ \<Rightarrow> fail st SCRIPT_ERR_UNKNOWN_ERROR
           | Inr bn1 \<Rightarrow>
          (case CScriptNum x2 (fRequireMinimal env) nDefaultMaxNumSize of
             Inl _ \<Rightarrow> fail st SCRIPT_ERR_UNKNOWN_ERROR
           | Inr bn2 \<Rightarrow>
          (case binary_num opcode bn1 bn2 of
             None \<Rightarrow> Stop AssertFail
           | Some bn \<Rightarrow>
               if opcode = OP_NUMEQUALVERIFY then
                 (if CastToBool (getvch bn) then Next (st\<lparr>st_stack := s\<rparr>)
                  else fail (st\<lparr>st_stack := getvch bn # s\<rparr>) SCRIPT_ERR_NUMEQUALVERIFY)
               else Next (st\<lparr>st_stack := getvch bn # s\<rparr>))))
      | _ \<Rightarrow> fail st SCRIPT_ERR_INVALID_STACK_OPERATION)"

definition op_WITHIN :: "script_env \<Rightarrow> eval_state \<Rightarrow> step" where
  "op_WITHIN env st =
     (case st_stack st of
        x3 # x2 # x1 # s \<Rightarrow>
          (case CScriptNum x1 (fRequireMinimal env) nDefaultMaxNumSize of
             Inl _ \<Rightarrow> fail st SCRIPT_ERR_UNKNOWN_ERROR
           | Inr bn1 \<Rightarrow>
          (case CScriptNum x2 (fRequireMinimal env) nDefaultMaxNumSize of
             Inl _ \<Rightarrow> fail st SCRIPT_ERR_UNKNOWN_ERROR
           | Inr bn2 \<Rightarrow>
          (case CScriptNum x3 (fRequireMinimal env) nDefaultMaxNumSize of
             Inl _ \<Rightarrow> fail st SCRIPT_ERR_UNKNOWN_ERROR
           | Inr bn3 \<Rightarrow> Next (st\<lparr>st_stack := vch_bool (bn2 \<le> bn1 \<and> bn1 < bn3) # s\<rparr>))))
      | _ \<Rightarrow> fail st SCRIPT_ERR_INVALID_STACK_OPERATION)"

section \<open>Cryptographic operations\<close>

definition op_hash :: "script_env \<Rightarrow> nat \<Rightarrow> eval_state \<Rightarrow> step" where
  "op_hash env opcode st =
     (case st_stack st of
        [] \<Rightarrow> fail st SCRIPT_ERR_INVALID_STACK_OPERATION
      | vch # s \<Rightarrow>
          let c = env_crypto env;
              vchHash =
                (if opcode = OP_RIPEMD160 then RIPEMD160 c vch
                 else if opcode = OP_SHA1 then SHA1 c vch
                 else if opcode = OP_SHA256 then SHA256 c vch
                 else if opcode = OP_HASH160 then Hash160 c vch
                 else Hash256 c vch)
          in Next (st\<lparr>st_stack := vchHash # s\<rparr>))"

text \<open>\<^verbatim>\<open>vchSig[vchSig.size() - 1] & SIGHASH_FORKID\<close>; \<^const>\<open>None\<close> is the read in front of an empty
  vector.\<close>

definition uses_forkid :: "valtype \<Rightarrow> bool option" where
  "uses_forkid vchSig = (if vchSig = [] then None else Some (last vchSig AND SIGHASH_FORKID \<noteq> 0))"

datatype 'a guarded = Pass 'a | Reject ScriptError | OutOfBounds

text \<open>After the fork every signature must carry \<^verbatim>\<open>SIGHASH_FORKID\<close>; the right operand of \<^verbatim>\<open>||\<close> is
  read only when the flag is enabled.\<close>

definition require_forkid :: "script_env \<Rightarrow> valtype \<Rightarrow> unit guarded" where
  "require_forkid env vchSig =
     (if chain_height (env_chain env) \<ge> UBCHeight (env_chain env) then
        (if \<not> has_flag (env_flags env) SCRIPT_ENABLE_SIGHASH_FORKID
         then Reject SCRIPT_ERR_CHECKSIGVERIFY
         else case uses_forkid vchSig of
           None \<Rightarrow> OutOfBounds
         | Some b \<Rightarrow> if b then Pass () else Reject SCRIPT_ERR_CHECKSIGVERIFY)
      else Pass ())"

definition op_CHECKSIG :: "script_env \<Rightarrow> bytes \<Rightarrow> nat \<Rightarrow> eval_state \<Rightarrow> step" where
  "op_CHECKSIG env script opcode st =
     (case st_stack st of
        vchPubKey # vchSig # s \<Rightarrow>
          (case require_forkid env vchSig of
             OutOfBounds \<Rightarrow> Stop UndefinedBehaviour
           | Reject e \<Rightarrow> fail st e
           | Pass _ \<Rightarrow>
               if chain_height (env_chain env) < UBCHeight (env_chain env) \<and>
                  uses_forkid vchSig = None
               then Stop UndefinedBehaviour
               else
               let scriptCode = drop (st_codehash st) script;
                   scriptCode = (if env_sigversion env = SIGVERSION_BASE
                     then snd (FindAndDelete scriptCode (push_vch vchSig)) else scriptCode)
               in case CheckSignatureEncoding (env_crypto env) vchSig (env_flags env) of
                  Some e \<Rightarrow> fail st e
                | None \<Rightarrow>
               (case CheckPubKeyEncoding vchPubKey (env_flags env) (env_sigversion env) of
                  Some e \<Rightarrow> fail st e
                | None \<Rightarrow>
               (let fSuccess =
                  CheckSig (env_checker env) vchSig vchPubKey scriptCode (env_sigversion env)
                in if \<not> fSuccess \<and> has_flag (env_flags env) SCRIPT_VERIFY_NULLFAIL \<and>
                      length vchSig \<noteq> 0
                   then fail st SCRIPT_ERR_SIG_NULLFAIL
                   else if opcode = OP_CHECKSIGVERIFY then
                     (if fSuccess then Next (st\<lparr>st_stack := s\<rparr>)
                      else fail (st\<lparr>st_stack := vchFalse # s\<rparr>) SCRIPT_ERR_CHECKSIGVERIFY)
                   else Next (st\<lparr>st_stack := vch_bool fSuccess # s\<rparr>))))
      | _ \<Rightarrow> fail st SCRIPT_ERR_INVALID_STACK_OPERATION)"


text \<open>The loop of \<open>OP_CHECKMULTISIG\<close> over the signatures: the fork id tests around
  \<open>FindAndDelete\<close>.\<close>

fun multisig_script_code :: "script_env \<Rightarrow> valtype list \<Rightarrow> bytes \<Rightarrow> bytes guarded" where
  "multisig_script_code env [] scriptCode = Pass scriptCode"
| "multisig_script_code env (vchSig # sigs) scriptCode =
     (case require_forkid env vchSig of
        OutOfBounds \<Rightarrow> OutOfBounds
      | Reject e \<Rightarrow> Reject e
      | Pass _ \<Rightarrow>
          let scriptCode' = (if env_sigversion env = SIGVERSION_BASE
                then snd (FindAndDelete scriptCode (push_vch vchSig)) else scriptCode)
          in if chain_height (env_chain env) < UBCHeight (env_chain env) then
               (case uses_forkid vchSig of
                  None \<Rightarrow> OutOfBounds
                | Some b \<Rightarrow> if b then Reject SCRIPT_ERR_CHECKSIGVERIFY
                           else multisig_script_code env sigs scriptCode')
             else multisig_script_code env sigs scriptCode')"

text \<open>The matching loop: each key is tried once, in order; it stops with failure when more
  signatures than keys are left.  \<open>sigs\<close> and \<open>keys\<close> are the arguments not consumed yet; the
  caller has as many keys as signatures at least, and the exit test keeps it so, so the
  last equation is not reached from it.\<close>

fun multisig_match ::
    "script_env \<Rightarrow> bytes \<Rightarrow> valtype list \<Rightarrow> valtype list \<Rightarrow> bool guarded" where
  "multisig_match env scriptCode [] keys = Pass True"
| "multisig_match env scriptCode (vchSig # sigs) (vchPubKey # keys) =
     (case CheckSignatureEncoding (env_crypto env) vchSig (env_flags env) of
        Some e \<Rightarrow> Reject e
      | None \<Rightarrow>
     (case CheckPubKeyEncoding vchPubKey (env_flags env) (env_sigversion env) of
        Some e \<Rightarrow> Reject e
      | None \<Rightarrow>
     (let fOk = CheckSig (env_checker env) vchSig vchPubKey scriptCode (env_sigversion env);
          sigs' = (if fOk then sigs else vchSig # sigs)
      in if length keys < length sigs' then Pass False
         else multisig_match env scriptCode sigs' keys)))"
| "multisig_match env scriptCode (vchSig # sigs) [] = Pass False"

text \<open>\<^verbatim>\<open>while (i-- > 1)\<close>: pop \<open>n\<close> arguments; \<open>ikey2\<close> counts down to the first signature.  The error
  carries the stack left at that point.\<close>

fun multisig_cleanup ::
    "script_env \<Rightarrow> bool \<Rightarrow> nat \<Rightarrow> nat \<Rightarrow> valtype list \<Rightarrow> valtype list + valtype list" where
  "multisig_cleanup env fSuccess 0 ikey2 stk = Inr stk"
| "multisig_cleanup env fSuccess (Suc n) ikey2 stk =
     (if \<not> fSuccess \<and> has_flag (env_flags env) SCRIPT_VERIFY_NULLFAIL \<and> ikey2 = 0 \<and>
         length (hd stk) \<noteq> 0
      then Inl stk
      else multisig_cleanup env fSuccess n (ikey2 - 1) (tl stk))"

text \<open>The end of the case: the dummy argument and the result.\<close>

definition multisig_result ::
    "script_env \<Rightarrow> nat \<Rightarrow> bool \<Rightarrow> eval_state \<Rightarrow> valtype list \<Rightarrow> step" where
  "multisig_result env opcode fSuccess st stk =
     (case stk of
        [] \<Rightarrow> fail (st\<lparr>st_stack := []\<rparr>) SCRIPT_ERR_INVALID_STACK_OPERATION
      | dummy # s \<Rightarrow>
          if has_flag (env_flags env) SCRIPT_VERIFY_NULLDUMMY \<and> length dummy \<noteq> 0
          then fail (st\<lparr>st_stack := stk\<rparr>) SCRIPT_ERR_SIG_NULLDUMMY
          else if opcode = OP_CHECKMULTISIGVERIFY then
            (if fSuccess then Next (st\<lparr>st_stack := s\<rparr>)
             else fail (st\<lparr>st_stack := vchFalse # s\<rparr>) SCRIPT_ERR_CHECKMULTISIGVERIFY)
          else Next (st\<lparr>st_stack := vch_bool fSuccess # s\<rparr>))"

text \<open>With \<open>k\<close> keys and \<open>m\<close> signatures, the stack from the top is the key count, the keys, the
  signature count, the signatures and the dummy; the source's \<^verbatim>\<open>i\<close> is \<open>k + 2\<close> when the signature
  count is read and \<open>k + m + 3\<close> at the end.\<close>

definition multisig_run ::
    "script_env \<Rightarrow> bytes \<Rightarrow> nat \<Rightarrow> nat \<Rightarrow> nat \<Rightarrow> eval_state \<Rightarrow> step" where
  "multisig_run env script opcode k m st =
     (let stk = st_stack st;
          keys = take k (drop 1 stk);
          sigs = take m (drop (k + 2) stk)
      in case multisig_script_code env sigs (drop (st_codehash st) script) of
           OutOfBounds \<Rightarrow> Stop UndefinedBehaviour
         | Reject e \<Rightarrow> fail st e
         | Pass scriptCode \<Rightarrow>
        (case multisig_match env scriptCode sigs keys of
           OutOfBounds \<Rightarrow> Stop UndefinedBehaviour
         | Reject e \<Rightarrow> fail st e
         | Pass fSuccess \<Rightarrow>
        (case multisig_cleanup env fSuccess (k + m + 2) (k + 2) stk of
           Inl stk' \<Rightarrow> fail (st\<lparr>st_stack := stk'\<rparr>) SCRIPT_ERR_SIG_NULLFAIL
         | Inr stk' \<Rightarrow> multisig_result env opcode fSuccess st stk')))"

definition op_CHECKMULTISIG :: "script_env \<Rightarrow> bytes \<Rightarrow> nat \<Rightarrow> eval_state \<Rightarrow> step" where
  "op_CHECKMULTISIG env script opcode st =
     (let stk = st_stack st
      in if length stk < 1 then fail st SCRIPT_ERR_INVALID_STACK_OPERATION
         else case CScriptNum (stk ! 0) (fRequireMinimal env) nDefaultMaxNumSize of
           Inl _ \<Rightarrow> fail st SCRIPT_ERR_UNKNOWN_ERROR
         | Inr bnKeys \<Rightarrow>
        (let nKeysCount = getint bnKeys
         in if nKeysCount < 0 \<or> nKeysCount > int MAX_PUBKEYS_PER_MULTISIG
            then fail st SCRIPT_ERR_PUBKEY_COUNT
            else let k = nat nKeysCount; st = st\<lparr>st_ops := st_ops st + k\<rparr>
              in if st_ops st > MAX_OPS_PER_SCRIPT then fail st SCRIPT_ERR_OP_COUNT
                 else if length stk < k + 2 then fail st SCRIPT_ERR_INVALID_STACK_OPERATION
                 else case CScriptNum (stk ! (k + 1)) (fRequireMinimal env) nDefaultMaxNumSize of
                   Inl _ \<Rightarrow> fail st SCRIPT_ERR_UNKNOWN_ERROR
                 | Inr bnSigs \<Rightarrow>
                (let nSigsCount = getint bnSigs
                 in if nSigsCount < 0 \<or> nSigsCount > nKeysCount then fail st SCRIPT_ERR_SIG_COUNT
                    else if length stk < k + nat nSigsCount + 3
                      then fail st SCRIPT_ERR_INVALID_STACK_OPERATION
                    else multisig_run env script opcode k (nat nSigsCount) st)))"

section \<open>The switch, the loop body and the loop\<close>

definition is_disabled :: "nat \<Rightarrow> bool" where
  "is_disabled opcode \<longleftrightarrow> opcode = OP_CAT \<or> opcode = OP_SUBSTR \<or> opcode = OP_LEFT \<or>
     opcode = OP_RIGHT \<or> opcode = OP_INVERT \<or> opcode = OP_AND \<or> opcode = OP_OR \<or>
     opcode = OP_XOR \<or> opcode = OP_2MUL \<or> opcode = OP_2DIV \<or> opcode = OP_MUL \<or>
     opcode = OP_DIV \<or> opcode = OP_MOD \<or> opcode = OP_LSHIFT \<or> opcode = OP_RSHIFT"

definition is_contract_op :: "nat \<Rightarrow> bool" where
  "is_contract_op opcode \<longleftrightarrow> opcode = OP_CREATE_NATIVE \<or> opcode = OP_CREATE \<or>
     opcode = OP_UPGRADE \<or> opcode = OP_DESTROY \<or> opcode = OP_CALL \<or>
     opcode = OP_DEPOSIT_TO_CONTRACT \<or> opcode = OP_SPEND"

text \<open>The contract opcodes push the rest of the script, the opcode included, and return \<^verbatim>\<open>true\<close>
  without setting \<^verbatim>\<open>serror\<close>; \<open>st_pc\<close> is already behind the opcode.\<close>

definition op_contract :: "bytes \<Rightarrow> eval_state \<Rightarrow> step" where
  "op_contract script st =
     Stop (Ret (True, SCRIPT_ERR_UNKNOWN_ERROR, drop (st_pc st - 1) script # st_stack st))"

definition op_stack :: "nat \<Rightarrow> (valtype list \<Rightarrow> valtype list option) option" where
  "op_stack opcode =
     (if opcode = OP_2DROP then Some op_2DROP
      else if opcode = OP_2DUP then Some op_2DUP
      else if opcode = OP_3DUP then Some op_3DUP
      else if opcode = OP_2OVER then Some op_2OVER
      else if opcode = OP_2ROT then Some op_2ROT
      else if opcode = OP_2SWAP then Some op_2SWAP
      else if opcode = OP_IFDUP then Some op_IFDUP
      else if opcode = OP_DEPTH then Some op_DEPTH
      else if opcode = OP_DROP then Some op_DROP
      else if opcode = OP_DUP then Some op_DUP
      else if opcode = OP_NIP then Some op_NIP
      else if opcode = OP_OVER then Some op_OVER
      else if opcode = OP_ROT then Some op_ROT
      else if opcode = OP_SWAP then Some op_SWAP
      else if opcode = OP_TUCK then Some op_TUCK
      else if opcode = OP_SIZE then Some op_SIZE
      else None)"

definition exec_op :: "script_env \<Rightarrow> bytes \<Rightarrow> bool \<Rightarrow> nat \<Rightarrow> eval_state \<Rightarrow> step" where
  "exec_op env script fExec opcode st =
     (if opcode = OP_1NEGATE \<or> (OP_1 \<le> opcode \<and> opcode \<le> OP_16) then op_push_value opcode st
      else if opcode = OP_NOP then Next st
      else if opcode = OP_CHECKLOCKTIMEVERIFY then op_CHECKLOCKTIMEVERIFY env st
      else if opcode = OP_CHECKSEQUENCEVERIFY then op_CHECKSEQUENCEVERIFY env st
      else if opcode = OP_NOP1 \<or> (OP_NOP4 \<le> opcode \<and> opcode \<le> OP_NOP10)
        then op_upgradable_NOP env st
      else if opcode = OP_IF \<or> opcode = OP_NOTIF then op_IF env opcode fExec st
      else if opcode = OP_ELSE then op_ELSE st
      else if opcode = OP_ENDIF then op_ENDIF st
      else if opcode = OP_VERIFY then op_VERIFY st
      else if opcode = OP_RETURN then fail st SCRIPT_ERR_OP_RETURN
      else if opcode = OP_TOALTSTACK then op_TOALTSTACK st
      else if opcode = OP_FROMALTSTACK then op_FROMALTSTACK st
      else if op_stack opcode \<noteq> None then stack_step st (the (op_stack opcode) (st_stack st))
      else if opcode = OP_PICK \<or> opcode = OP_ROLL then op_PICK_ROLL env opcode st
      else if opcode = OP_EQUAL \<or> opcode = OP_EQUALVERIFY then op_EQUAL opcode st
      else if opcode = OP_1ADD \<or> opcode = OP_1SUB \<or> opcode = OP_NEGATE \<or> opcode = OP_ABS \<or>
          opcode = OP_NOT \<or> opcode = OP_0NOTEQUAL then op_unary_num env opcode st
      else if opcode = OP_ADD \<or> opcode = OP_SUB \<or> (OP_BOOLAND \<le> opcode \<and> opcode \<le> OP_MAX)
        then op_binary_num env opcode st
      else if opcode = OP_WITHIN then op_WITHIN env st
      else if OP_RIPEMD160 \<le> opcode \<and> opcode \<le> OP_HASH256 then op_hash env opcode st
      else if opcode = OP_CODESEPARATOR then Next (st\<lparr>st_codehash := st_pc st\<rparr>)
      else if opcode = OP_CHECKSIG \<or> opcode = OP_CHECKSIGVERIFY
        then op_CHECKSIG env script opcode st
      else if opcode = OP_CHECKMULTISIG \<or> opcode = OP_CHECKMULTISIGVERIFY
        then op_CHECKMULTISIG env script opcode st
      else if is_contract_op opcode then op_contract script st
      else fail st SCRIPT_ERR_BAD_OPCODE)"

text \<open>The check at the end of the loop body.\<close>

definition size_limit :: "step \<Rightarrow> step" where
  "size_limit r =
     (case r of
        Next st \<Rightarrow>
          if length (st_stack st) + length (st_alt st) > MAX_STACK_SIZE
          then fail st SCRIPT_ERR_STACK_SIZE else Next st
      | Stop res \<Rightarrow> Stop res)"

definition eval_step :: "script_env \<Rightarrow> bytes \<Rightarrow> eval_state \<Rightarrow> step" where
  "eval_step env script st =
     (let fExec = (\<forall>b \<in> set (st_exec st). b)
      in case GetOp2 script (st_pc st) of (fRet, pc', opcode, vchPushValue) \<Rightarrow>
        if \<not> fRet then fail st SCRIPT_ERR_BAD_OPCODE
        else if length vchPushValue > MAX_SCRIPT_ELEMENT_SIZE then fail st SCRIPT_ERR_PUSH_SIZE
        else let st = st\<lparr>st_pc := pc', st_ops := (if opcode > OP_16 then st_ops st + 1 else st_ops st)\<rparr>
          in if opcode > OP_16 \<and> st_ops st > MAX_OPS_PER_SCRIPT then fail st SCRIPT_ERR_OP_COUNT
             else if is_disabled opcode then fail st SCRIPT_ERR_DISABLED_OPCODE
             else if fExec \<and> opcode \<le> OP_PUSHDATA4 then
               (if fRequireMinimal env \<and> \<not> CheckMinimalPush vchPushValue opcode
                then fail st SCRIPT_ERR_MINIMALDATA
                else size_limit (Next (push st vchPushValue)))
             else if fExec \<or> (OP_IF \<le> opcode \<and> opcode \<le> OP_ENDIF)
               then size_limit (exec_op env script fExec opcode st)
             else size_limit (Next st))"


section \<open>Every operation leaves \<open>pc\<close> alone and keeps the counters in bounds\<close>

text \<open>What the rest of the loop needs to know of a step that continues: \<open>st_pc\<close> is unchanged, the
  start of the hashed code is where it was or at \<open>st_pc\<close>, and the opcode counter stays
  within its limit.\<close>

definition keeps :: "eval_state \<Rightarrow> step \<Rightarrow> bool" where
  "keeps st r = (case r of
       Next st' \<Rightarrow> st_pc st' = st_pc st \<and> st_codehash st' \<in> {st_codehash st, st_pc st} \<and>
         (st_ops st' = st_ops st \<or> st_ops st' \<le> MAX_OPS_PER_SCRIPT)
     | Stop _ \<Rightarrow> True)"

named_theorems op_keeps \<open>frame of each opcode\<close>

lemma keeps_Stop [op_keeps]: "keeps st (Stop r)"
  by (simp add: keeps_def)

lemma keeps_same [op_keeps]: "keeps st (Next st)"
  by (simp add: keeps_def)

lemma keeps_stack [op_keeps]:
  "keeps st (Next (st\<lparr>st_stack := s\<rparr>))"
  "keeps st (Next (st\<lparr>st_stack := s, st_alt := a\<rparr>))"
  "keeps st (Next (st\<lparr>st_alt := a, st_stack := s\<rparr>))"
  "keeps st (Next (st\<lparr>st_exec := e\<rparr>))"
  "keeps st (Next (st\<lparr>st_stack := s, st_exec := e\<rparr>))"
  "keeps st (Next (st\<lparr>st_codehash := st_pc st\<rparr>))"
  "keeps st (Next (push st v))"
  "keeps st (stack_step st res)"
  by (simp_all add: keeps_def push_def stack_step_def split: option.splits)

lemma keeps_control [op_keeps]:
  "keeps st (op_push_value opcode st)"
  "keeps st (op_CHECKLOCKTIMEVERIFY env st)"
  "keeps st (op_CHECKSEQUENCEVERIFY env st)"
  "keeps st (op_upgradable_NOP env st)"
  "keeps st (op_IF env opcode fExec st)"
  "keeps st (op_ELSE st)"
  "keeps st (op_ENDIF st)"
  "keeps st (op_VERIFY st)"
  by (simp_all add: op_push_value_def op_CHECKLOCKTIMEVERIFY_def op_CHECKSEQUENCEVERIFY_def
      op_upgradable_NOP_def op_IF_def op_ELSE_def op_ENDIF_def op_VERIFY_def op_keeps
      split: list.split sum.split)

lemma keeps_stack_ops [op_keeps]:
  "keeps st (op_TOALTSTACK st)"
  "keeps st (op_FROMALTSTACK st)"
  "keeps st (op_PICK_ROLL env opcode st)"
  "keeps st (op_EQUAL opcode st)"
  by (simp_all add: op_TOALTSTACK_def op_FROMALTSTACK_def op_PICK_ROLL_def op_EQUAL_def Let_def
      op_keeps split: list.split sum.split)

lemma keeps_numeric [op_keeps]:
  "keeps st (op_unary_num env opcode st)"
  "keeps st (op_binary_num env opcode st)"
  "keeps st (op_WITHIN env st)"
  "keeps st (op_hash env opcode st)"
  by (simp_all add: op_unary_num_def op_binary_num_def op_WITHIN_def op_hash_def Let_def
      op_keeps split: list.split sum.split option.split)

lemma keeps_checksig [op_keeps]: "keeps st (op_CHECKSIG env script opcode st)"
  by (simp add: op_CHECKSIG_def Let_def op_keeps split: list.split option.split guarded.split)

lemma keeps_multisig_run [op_keeps]: "keeps st (multisig_run env script opcode k m st)"
  by (simp add: multisig_run_def multisig_result_def Let_def op_keeps
      split: list.split sum.split guarded.split)

lemma keeps_ops:
  "keeps (st\<lparr>st_ops := n\<rparr>) r \<Longrightarrow> n \<le> MAX_OPS_PER_SCRIPT \<Longrightarrow> keeps st r"
  by (auto simp: keeps_def split: step.splits)

lemma keeps_multisig [op_keeps]: "keeps st (op_CHECKMULTISIG env script opcode st)"
  by (auto simp: op_CHECKMULTISIG_def Let_def op_keeps intro: keeps_ops [OF keeps_multisig_run]
      split: sum.split)

lemma keeps_exec_op: "keeps st (exec_op env script fExec opcode st)"
  by (simp add: exec_op_def op_contract_def op_keeps)

lemma size_limit_Next:
  "size_limit r = Next st' \<longleftrightarrow>
     r = Next st' \<and> length (st_stack st') + length (st_alt st') \<le> MAX_STACK_SIZE"
  by (auto simp: size_limit_def split: step.splits if_splits)

lemma eval_step_Next:
  assumes "eval_step env script st = Next st'"
  shows "st_pc st < st_pc st' \<and> st_pc st' \<le> length script \<and>
    st_codehash st' \<in> {st_codehash st, st_pc st'} \<and>
    (st_ops st \<le> MAX_OPS_PER_SCRIPT \<longrightarrow> st_ops st' \<le> MAX_OPS_PER_SCRIPT) \<and>
    length (st_stack st') + length (st_alt st') \<le> MAX_STACK_SIZE"
proof -
  obtain fRet pc' opcode vch where op: "GetOp2 script (st_pc st) = (fRet, pc', opcode, vch)"
    by (cases "GetOp2 script (st_pc st)") auto
  let ?st = "st\<lparr>st_pc := pc', st_ops := (if opcode > OP_16 then st_ops st + 1 else st_ops st)\<rparr>"
  from assms have fRet and ops: "opcode > OP_16 \<longrightarrow> st_ops st + 1 \<le> MAX_OPS_PER_SCRIPT"
    by (auto simp: eval_step_def op Let_def split: if_splits)
  then have prog: "st_pc st < pc'" "pc' \<le> length script"
    using op GetOp2_progress by auto
  have "size_limit (Next (push ?st vch)) = Next st' \<or>
      size_limit (exec_op env script (\<forall>b \<in> set (st_exec st). b) opcode ?st) = Next st' \<or>
      size_limit (Next ?st) = Next st'"
    using assms by (auto simp: eval_step_def op Let_def split: if_splits)
  then obtain r where r: "size_limit r = Next st'" and k: "keeps ?st r"
    using keeps_stack(7) [of ?st vch] keeps_exec_op keeps_same [of ?st] by blast
  then have k': "keeps ?st (Next st')" by (simp add: size_limit_Next)
  have "st_pc st' = pc'" "st_codehash st' \<in> {st_codehash st, pc'}"
    "st_ops st \<le> MAX_OPS_PER_SCRIPT \<longrightarrow> st_ops st' \<le> MAX_OPS_PER_SCRIPT"
    using k' ops by (auto simp: keeps_def split: if_splits)
  with prog r show ?thesis by (simp add: size_limit_Next)
qed

text \<open>The loop, and what follows it.\<close>

function eval_loop :: "script_env \<Rightarrow> bytes \<Rightarrow> eval_state \<Rightarrow> eval_result" where
  "eval_loop env script st =
     (if st_pc st < length script then
        (case eval_step env script st of
           Next st' \<Rightarrow> eval_loop env script st'
         | Stop res \<Rightarrow> res)
      else if st_exec st \<noteq> [] then
        Ret (False, SCRIPT_ERR_UNBALANCED_CONDITIONAL, st_stack st)
      else Ret (True, SCRIPT_ERR_OK, st_stack st))"
  by pat_completeness auto
termination
  by (relation "measure (\<lambda>(env, script, st). length script - st_pc st)")
    (auto dest!: eval_step_Next)

declare eval_loop.simps [simp del]

definition init_state :: "valtype list \<Rightarrow> eval_state" where
  "init_state stack =
     \<lparr>st_pc = 0, st_codehash = 0, st_stack = stack, st_alt = [], st_exec = [], st_ops = 0\<rparr>"

text \<open>The return value, the final \<^verbatim>\<open>serror\<close> and the final \<^verbatim>\<open>stack\<close>.\<close>

definition EvalScript :: "script_env \<Rightarrow> valtype list \<Rightarrow> bytes \<Rightarrow> eval_result" where
  "EvalScript env stack script =
     (if length script > MAX_SCRIPT_SIZE then Ret (False, SCRIPT_ERR_SCRIPT_SIZE, stack)
      else eval_loop env script (init_state stack))"

end
