(* ===== verification/VerifyScript.thy ===== *)
theory VerifyScript
  imports EvalScript
begin

text \<open>
  \<open>VerifyWitnessProgram\<close>, \<open>VerifyScript\<close> and the witness sigop counts of
  \<^verbatim>\<open>src/src/script/interpreter.cpp\<close>, and the contract tests of \<^verbatim>\<open>src/src/script/script.cpp\<close>
  that run \<open>EvalScript\<close>.  A witness stack is a list in the order of the source's vector; a null
  \<^verbatim>\<open>witness\<close> pointer is the empty witness, as in the source.
\<close>

section \<open>Verification\<close>

text \<open>Run a script; a \<^verbatim>\<open>false\<close> result ends the caller with the error set, otherwise the caller goes
  on with the new stack.\<close>

definition eval_then ::
    "script_env \<Rightarrow> valtype list \<Rightarrow> bytes \<Rightarrow> (ScriptError \<Rightarrow> valtype list \<Rightarrow> (bool \<times> ScriptError) outcome) \<Rightarrow>
     (bool \<times> ScriptError) outcome" where
  "eval_then env stack script k =
     (case EvalScript env stack script of
        Ret (ok, e, stack') \<Rightarrow> if ok then k e stack' else Ret (False, e)
      | AssertFail \<Rightarrow> AssertFail
      | UndefinedBehaviour \<Rightarrow> UndefinedBehaviour)"

definition witness_p2pkh_script :: "bytes \<Rightarrow> bytes" where
  "witness_p2pkh_script program =
     [of_nat OP_DUP, of_nat OP_HASH160] @ push_vch program @
     [of_nat OP_EQUALVERIFY, of_nat OP_CHECKSIG]"

text \<open>The script and the initial stack a version 0 program stands for, or the error.\<close>

definition witness_v0_program ::
    "script_crypto \<Rightarrow> valtype list \<Rightarrow> bytes \<Rightarrow> ScriptError + (bytes \<times> valtype list)" where
  "witness_v0_program c witness program =
     (if length program = 32 then
        (if length witness = 0 then Inl SCRIPT_ERR_WITNESS_PROGRAM_WITNESS_EMPTY
         else let scriptPubKey = last witness; stack = rev (butlast witness)
           in if SHA256 c scriptPubKey \<noteq> program then Inl SCRIPT_ERR_WITNESS_PROGRAM_MISMATCH
              else Inr (scriptPubKey, stack))
      else if length program = 20 then
        (if length witness \<noteq> 2 then Inl SCRIPT_ERR_WITNESS_PROGRAM_MISMATCH
         else Inr (witness_p2pkh_script program, rev witness))
      else Inl SCRIPT_ERR_WITNESS_PROGRAM_WRONG_LENGTH)"

definition VerifyWitnessProgram ::
    "script_env \<Rightarrow> valtype list \<Rightarrow> nat \<Rightarrow> bytes \<Rightarrow> (bool \<times> ScriptError) outcome" where
  "VerifyWitnessProgram env witness witversion program =
     (if witversion = 0 then
        (case witness_v0_program (env_crypto env) witness program of
           Inl e \<Rightarrow> Ret (False, e)
         | Inr (scriptPubKey, stack) \<Rightarrow>
             if \<exists>v \<in> set stack. length v > MAX_SCRIPT_ELEMENT_SIZE
             then Ret (False, SCRIPT_ERR_PUSH_SIZE)
             else eval_then (env\<lparr>env_sigversion := SIGVERSION_WITNESS_V0\<rparr>) stack scriptPubKey
               (\<lambda>e stack'. if length stack' \<noteq> 1 then Ret (False, SCRIPT_ERR_EVAL_FALSE)
                  else if \<not> CastToBool (hd stack') then Ret (False, SCRIPT_ERR_EVAL_FALSE)
                  else Ret (True, e)))
      else if has_flag (env_flags env) SCRIPT_VERIFY_DISCOURAGE_UPGRADABLE_WITNESS_PROGRAM
        then Ret (False, SCRIPT_ERR_DISCOURAGE_UPGRADABLE_WITNESS_PROGRAM)
      else Ret (True, SCRIPT_ERR_OK))"

text \<open>\<^verbatim>\<open>stack.resize(1)\<close> keeps the bottom element.\<close>

definition resize_1 :: "valtype list \<Rightarrow> valtype list" where
  "resize_1 stack = (if stack = [] then [[]] else [last stack])"

text \<open>The final checks of \<open>VerifyScript\<close>.\<close>

definition verify_finish ::
    "script_env \<Rightarrow> valtype list \<Rightarrow> bool \<Rightarrow> valtype list \<Rightarrow> (bool \<times> ScriptError) outcome" where
  "verify_finish env witness hadWitness stack =
     (let flags = env_flags env;
          witness_check =
            (if has_flag flags SCRIPT_VERIFY_WITNESS then
               (if \<not> has_flag flags SCRIPT_VERIFY_P2SH then AssertFail
                else if \<not> hadWitness \<and> witness \<noteq> [] then Ret (False, SCRIPT_ERR_WITNESS_UNEXPECTED)
                else Ret (True, SCRIPT_ERR_OK))
             else Ret (True, SCRIPT_ERR_OK))
      in if has_flag flags SCRIPT_VERIFY_CLEANSTACK then
           (if \<not> has_flag flags SCRIPT_VERIFY_P2SH then AssertFail
            else if \<not> has_flag flags SCRIPT_VERIFY_WITNESS then AssertFail
            else if length stack \<noteq> 1 then Ret (False, SCRIPT_ERR_CLEANSTACK)
            else witness_check)
         else witness_check)"

text \<open>Both uses of a witness program: \<open>exact\<close> is the test that \<^verbatim>\<open>scriptSig\<close> is the only one
  allowed, \<open>e\<close> the error when it is not.\<close>

definition verify_witness_stage ::
    "script_env \<Rightarrow> valtype list \<Rightarrow> bytes \<Rightarrow> bool \<Rightarrow> ScriptError \<Rightarrow> bool \<Rightarrow> valtype list \<Rightarrow>
     (bool \<Rightarrow> valtype list \<Rightarrow> (bool \<times> ScriptError) outcome) \<Rightarrow> (bool \<times> ScriptError) outcome" where
  "verify_witness_stage env witness script exact e hadWitness stack k =
     (if has_flag (env_flags env) SCRIPT_VERIFY_WITNESS then
        (case IsWitnessProgram script of
           None \<Rightarrow> k hadWitness stack
         | Some (version, program) \<Rightarrow>
             if \<not> exact then Ret (False, e)
             else (case VerifyWitnessProgram env witness version program of
                Ret (ok, e') \<Rightarrow> if ok then k True (resize_1 stack) else Ret (False, e')
              | AssertFail \<Rightarrow> AssertFail
              | UndefinedBehaviour \<Rightarrow> UndefinedBehaviour))
      else k hadWitness stack)"

definition check_true ::
    "valtype list \<Rightarrow> (bool \<times> ScriptError) outcome \<Rightarrow> (bool \<times> ScriptError) outcome" where
  "check_true stack k =
     (case stack of
        [] \<Rightarrow> Ret (False, SCRIPT_ERR_EVAL_FALSE)
      | x # _ \<Rightarrow> if \<not> CastToBool x then Ret (False, SCRIPT_ERR_EVAL_FALSE) else k)"

text \<open>The pay-to-script-hash part; \<open>stackCopy\<close> is the stack after \<^verbatim>\<open>scriptSig\<close>.\<close>

definition verify_p2sh_stage ::
    "script_env \<Rightarrow> bytes \<Rightarrow> bytes \<Rightarrow> valtype list \<Rightarrow> valtype list \<Rightarrow> bool \<Rightarrow> valtype list \<Rightarrow>
     (bool \<times> ScriptError) outcome" where
  "verify_p2sh_stage env scriptSig scriptPubKey witness stackCopy hadWitness stack =
     (if has_flag (env_flags env) SCRIPT_VERIFY_P2SH \<and> IsPayToScriptHash scriptPubKey then
        (if \<not> IsPushOnly scriptSig then Ret (False, SCRIPT_ERR_SIG_PUSHONLY)
         else case stackCopy of
           [] \<Rightarrow> AssertFail
         | pubKey2 # stack1 \<Rightarrow>
             eval_then env stack1 pubKey2 (\<lambda>_ stack2.
               check_true stack2
                 (verify_witness_stage env witness pubKey2 (scriptSig = push_vch pubKey2)
                    SCRIPT_ERR_WITNESS_MALLEATED_P2SH hadWitness stack2
                    (verify_finish env witness))))
      else verify_finish env witness hadWitness stack)"

definition god_mode :: "chain_ctx \<Rightarrow> bool" where
  "god_mode ctx \<longleftrightarrow> UBCHeight ctx - 1 \<le> chain_height ctx \<and>
     chain_height ctx < UBCHeight ctx + UBCInitBlockCount ctx - 1"

text \<open>The branch for the blocks of the fork window: one signature of the fork generator key over
  \<^verbatim>\<open>scriptPubKey\<close>.\<close>

definition verify_god_mode ::
    "script_env \<Rightarrow> bytes \<Rightarrow> bytes \<Rightarrow> (bool \<times> ScriptError) outcome" where
  "verify_god_mode env scriptSig scriptPubKey =
     eval_then env [] scriptSig (\<lambda>_ stack.
       if length stack < 2 then UndefinedBehaviour
       else if \<not> CheckSig (env_checker env) (stack ! 1) (UBCForkGeneratorPubkey (env_chain env))
             scriptPubKey SIGVERSION_BASE
         then Ret (False, SCRIPT_ERR_EVAL_FALSE)
       else check_true stack (Ret (True, SCRIPT_ERR_OK)))"

definition verify_scripts ::
    "script_env \<Rightarrow> bytes \<Rightarrow> bytes \<Rightarrow> valtype list \<Rightarrow> (bool \<times> ScriptError) outcome" where
  "verify_scripts env scriptSig scriptPubKey witness =
     eval_then env [] scriptSig (\<lambda>_ stackCopy.
     eval_then env stackCopy scriptPubKey (\<lambda>_ stack.
       check_true stack
         (verify_witness_stage env witness scriptPubKey (scriptSig = [])
            SCRIPT_ERR_WITNESS_MALLEATED False stack
            (verify_p2sh_stage env scriptSig scriptPubKey witness stackCopy))))"

text \<open>\<^verbatim>\<open>SCRIPT_ENABLE_SIGHASH_FORKID\<close> implies \<^verbatim>\<open>SCRIPT_VERIFY_STRICTENC\<close>; the scripts are evaluated with
  the base signature version.\<close>

definition verify_env :: "script_env \<Rightarrow> script_env" where
  "verify_env env =
     env\<lparr>env_flags := (if has_flag (env_flags env) SCRIPT_ENABLE_SIGHASH_FORKID
           then env_flags env OR SCRIPT_VERIFY_STRICTENC else env_flags env),
         env_sigversion := SIGVERSION_BASE\<rparr>"

definition VerifyScript ::
    "script_env \<Rightarrow> bytes \<Rightarrow> bytes \<Rightarrow> valtype list \<Rightarrow> (bool \<times> ScriptError) outcome" where
  "VerifyScript env0 scriptSig scriptPubKey witness =
     (let env = verify_env env0; ctx = env_chain env
      in if god_mode ctx then verify_god_mode env scriptSig scriptPubKey
         else if chain_height ctx = ForkV4Height ctx - 1 then Ret (True, SCRIPT_ERR_OK)
         else if has_flag (env_flags env) SCRIPT_VERIFY_SIGPUSHONLY \<and> \<not> IsPushOnly scriptSig
           then Ret (False, SCRIPT_ERR_SIG_PUSHONLY)
         else verify_scripts env scriptSig scriptPubKey witness)"

section \<open>Witness sigops\<close>

definition WitnessSigOps :: "nat \<Rightarrow> bytes \<Rightarrow> valtype list \<Rightarrow> nat" where
  "WitnessSigOps witversion witprogram witness =
     (if witversion = 0 then
        (if length witprogram = 20 then 1
         else if length witprogram = 32 \<and> length witness > 0
           then GetSigOpCount (last witness) True
         else 0)
      else 0)"

text \<open>The loop over a push-only \<^verbatim>\<open>scriptSig\<close>, which ignores the result of \<open>GetOp\<close>; every iteration
  moves \<^verbatim>\<open>pc\<close>, also when decoding fails.\<close>

lemma GetOp2_moves: "pc < length s \<Longrightarrow> pc < fst (snd (GetOp2 s pc))"
  by (auto simp: GetOp2_def Let_def split: option.splits)

function last_data :: "bytes \<Rightarrow> nat \<Rightarrow> valtype \<Rightarrow> valtype" where
  "last_data scriptSig pc data =
     (if pc < length scriptSig then
        (case GetOp2 scriptSig pc of (_, pc', _, vch) \<Rightarrow> last_data scriptSig pc' vch)
      else data)"
  by pat_completeness auto
termination
proof (relation "measure (\<lambda>(scriptSig, pc, _). length scriptSig - pc)")
  fix scriptSig pc data x y xa ya xb yb
  assume *: "pc < length scriptSig" "(x, y) = GetOp2 scriptSig pc" "(xa, ya) = y" "(xb, yb) = ya"
  then have "pc < xa" using GetOp2_moves [OF *(1)] by (metis fst_conv snd_conv)
  with * show "((scriptSig, xa, yb), scriptSig, pc, data) \<in>
      measure (\<lambda>(scriptSig, pc, _). length scriptSig - pc)" by simp
qed simp

declare last_data.simps [simp del]

text \<open>\<^const>\<open>None\<close> is the failed assertion that \<^verbatim>\<open>SCRIPT_VERIFY_WITNESS\<close> implies
  \<^verbatim>\<open>SCRIPT_VERIFY_P2SH\<close>.\<close>

definition CountWitnessSigOps :: "bytes \<Rightarrow> bytes \<Rightarrow> valtype list \<Rightarrow> flags \<Rightarrow> nat option" where
  "CountWitnessSigOps scriptSig scriptPubKey witness flags =
     (if \<not> has_flag flags SCRIPT_VERIFY_WITNESS then Some 0
      else if \<not> has_flag flags SCRIPT_VERIFY_P2SH then None
      else case IsWitnessProgram scriptPubKey of
        Some (version, program) \<Rightarrow> Some (WitnessSigOps version program witness)
      | None \<Rightarrow>
          if IsPayToScriptHash scriptPubKey \<and> IsPushOnly scriptSig then
            (case IsWitnessProgram (last_data scriptSig 0 []) of
               Some (version, program) \<Rightarrow> Some (WitnessSigOps version program witness)
             | None \<Rightarrow> Some 0)
          else Some 0)"

section \<open>Contract tests on scripts\<close>

text \<open>The three tests run the script with \<^verbatim>\<open>SCRIPT_EXEC_BYTE_CODE\<close> and the base checker, ignore the
  return value, and look at a one byte element on top of the stack that is left.\<close>

definition contract_env :: "script_crypto \<Rightarrow> chain_ctx \<Rightarrow> script_env" where
  "contract_env c ctx =
     \<lparr>env_flags = SCRIPT_EXEC_BYTE_CODE, env_sigversion = SIGVERSION_BASE,
      env_checker = BaseSignatureChecker, env_crypto = c, env_chain = ctx\<rparr>"

definition last_opcode :: "script_crypto \<Rightarrow> chain_ctx \<Rightarrow> bytes \<Rightarrow> nat option outcome" where
  "last_opcode c ctx script =
     (if length script = 0 then Ret None
      else case EvalScript (contract_env c ctx) [] script of
        Ret (_, _, stack) \<Rightarrow>
          Ret (case stack of
             [] \<Rightarrow> None
           | scriptRest # _ \<Rightarrow>
               if length scriptRest \<noteq> 1 then None else Some (unat (scriptRest ! 0)))
      | AssertFail \<Rightarrow> AssertFail
      | UndefinedBehaviour \<Rightarrow> UndefinedBehaviour)"

definition HasContractOp :: "script_crypto \<Rightarrow> chain_ctx \<Rightarrow> bytes \<Rightarrow> bool outcome" where
  "HasContractOp c ctx script =
     map_outcome (\<lambda>r. case r of
        None \<Rightarrow> False
      | Some op \<Rightarrow> op = OP_CREATE_NATIVE \<or> op = OP_CREATE \<or> op = OP_UPGRADE \<or> op = OP_DESTROY \<or>
          op = OP_CALL \<or> op = OP_DEPOSIT_TO_CONTRACT)
       (last_opcode c ctx script)"

definition HasOpDepositToContract :: "script_crypto \<Rightarrow> chain_ctx \<Rightarrow> bytes \<Rightarrow> bool outcome" where
  "HasOpDepositToContract c ctx script =
     map_outcome (\<lambda>r. r = Some OP_DEPOSIT_TO_CONTRACT) (last_opcode c ctx script)"

definition HasOpSpend :: "script_crypto \<Rightarrow> chain_ctx \<Rightarrow> bytes \<Rightarrow> bool outcome" where
  "HasOpSpend c ctx script = map_outcome (\<lambda>r. r = Some OP_SPEND) (last_opcode c ctx script)"

end
