(* ===== verification/EvalProps.thy ===== *)
theory EvalProps
  imports VerifyScript
begin

text \<open>
  What the interpreter does with whole scripts: no assertion fails, where the only out-of-bounds
  read is, the resource limits, what a sequence of pushes leaves on the stack, what the
  contract opcodes do, and which scripts fail for every input.  \<open>eval_loop_rule\<close> is the
  invariant rule of the loop; the proofs instantiate it.
\<close>

section \<open>The loop rule\<close>

lemma eval_loop_rule:
  assumes init: "I st"
    and step: "\<And>st st'. I st \<Longrightarrow> st_pc st < length script \<Longrightarrow> eval_step env script st = Next st' \<Longrightarrow> I st'"
    and stop: "\<And>st res. I st \<Longrightarrow> st_pc st < length script \<Longrightarrow> eval_step env script st = Stop res \<Longrightarrow> P res"
    and fin: "\<And>st. I st \<Longrightarrow> \<not> st_pc st < length script \<Longrightarrow>
      P (if st_exec st \<noteq> [] then Ret (False, SCRIPT_ERR_UNBALANCED_CONDITIONAL, st_stack st)
         else Ret (True, SCRIPT_ERR_OK, st_stack st))"
  shows "P (eval_loop env script st)"
  using init
proof (induction "length script - st_pc st" arbitrary: st rule: less_induct)
  case less
  show ?case
  proof (cases "st_pc st < length script")
    case True
    show ?thesis
    proof (cases "eval_step env script st")
      case (Next st')
      then have "length script - st_pc st' < length script - st_pc st"
        using eval_step_Next [OF Next] by linarith
      with less.hyps step [OF less.prems True Next] have "P (eval_loop env script st')" by blast
      with True Next show ?thesis by (subst eval_loop.simps) simp
    next
      case (Stop res)
      with stop [OF less.prems True Stop] True show ?thesis by (subst eval_loop.simps) simp
    qed
  next
    case False
    with fin [OF less.prems False] show ?thesis by (subst eval_loop.simps) (simp only: if_False)
  qed
qed

text \<open>The opcode a step decodes, and how the step uses it.\<close>

lemma eval_step_cases:
  assumes "GetOp2 script (st_pc st) = (fRet, pc', opcode, vch)"
  defines "st1 \<equiv> st\<lparr>st_pc := pc', st_ops := (if opcode > OP_16 then st_ops st + 1 else st_ops st)\<rparr>"
  shows "(\<exists>e. eval_step env script st = Stop (Ret (False, e, st_stack st))) \<or>
    fRet \<and> length vch \<le> MAX_SCRIPT_ELEMENT_SIZE \<and> \<not> is_disabled opcode \<and>
    (opcode \<le> OP_PUSHDATA4 \<and> eval_step env script st = size_limit (Next (push st1 vch)) \<or>
     (\<exists>fExec. fExec = (\<forall>b \<in> set (st_exec st). b) \<and>
        (fExec \<or> (OP_IF \<le> opcode \<and> opcode \<le> OP_ENDIF)) \<and> OP_PUSHDATA4 < opcode \<and>
        eval_step env script st = size_limit (exec_op env script fExec opcode st1)) \<or>
     \<not> (\<forall>b \<in> set (st_exec st). b) \<and> eval_step env script st = size_limit (Next st1))"
proof -
  obtain fExec where F: "(\<forall>b \<in> set (st_exec st). b) = fExec" by blast
  show ?thesis unfolding st1_def F by (auto simp: eval_step_def Let_def assms(1) F)
qed

section \<open>No assertion fails\<close>

text \<open>Operands have at most four bytes, so the assertions in the operators of \<^verbatim>\<open>CScriptNum\<close> hold.\<close>

lemma set_vch_bound: "length vch \<le> 4 \<Longrightarrow> \<bar>set_vch vch\<bar> < 2 ^ 31"
proof (cases "vch = []")
  case False
  assume "length vch \<le> 4"
  then have "(256 :: nat) ^ (length vch - 1) \<le> 256 ^ 3" by (intro power_increasing) auto
  then have "magnitude vch < 2 ^ 31" using magnitude_less [OF False] by simp
  moreover have "\<bar>set_vch vch\<bar> = int (magnitude vch)"
    using set_vch_sign_magnitude [OF False] \<open>length vch \<le> 4\<close> by simp
  ultimately show ?thesis by simp
qed (simp add: set_vch_def)

lemma CScriptNum_bound: "CScriptNum vch m 4 = Inr n \<Longrightarrow> \<bar>n\<bar> < 2 ^ 31"
  using set_vch_bound [of vch] by (auto simp: CScriptNum_eq split: if_splits)

lemma unary_num_defined:
  "\<bar>bn\<bar> < 2 ^ 31 \<Longrightarrow>
   opcode = OP_1ADD \<or> opcode = OP_1SUB \<or> opcode = OP_NEGATE \<or> opcode = OP_ABS \<or>
     opcode = OP_NOT \<or> opcode = OP_0NOTEQUAL \<Longrightarrow>
   unary_num opcode bn \<noteq> None"
  by (elim disjE) (simp_all add: unary_num_def num_add_assign_def num_sub_assign_def num_neg_def)

lemma binary_num_defined:
  assumes "opcode = OP_ADD \<or> opcode = OP_SUB \<or> (OP_BOOLAND \<le> opcode \<and> opcode \<le> OP_MAX)"
  shows "binary_num opcode bn1 bn2 \<noteq> None"
proof -
  have "opcode = OP_ADD \<or> opcode = OP_SUB \<or> opcode \<in> set [OP_BOOLAND..<Suc OP_MAX]"
    using assms by (auto simp del: upt_rec_numeral)
  then show ?thesis
    by (elim disjE) (auto simp: binary_num_def upt_rec_numeral)
qed

named_theorems op_fails \<open>results of each opcode\<close>

definition ok_stop :: "(eval_result \<Rightarrow> bool) \<Rightarrow> step \<Rightarrow> bool" where
  "ok_stop P r = (case r of Next _ \<Rightarrow> True | Stop res \<Rightarrow> P res)"

definition fails :: "eval_result \<Rightarrow> bool" where
  "fails res \<longleftrightarrow> (\<exists>e s. res = Ret (False, e, s))"

lemma ok_stop_simps [simp]:
  "ok_stop P (Next st)" "ok_stop P (Stop res) = P res" "fails (Ret (False, e, s))"
  by (simp_all add: ok_stop_def fails_def)

lemma fails_stack_step [op_fails]: "ok_stop fails (stack_step st res)"
  by (simp add: stack_step_def split: option.split)

lemma fails_control [op_fails]:
  "ok_stop fails (op_push_value opcode st)"
  "ok_stop fails (op_CHECKLOCKTIMEVERIFY env st)"
  "ok_stop fails (op_CHECKSEQUENCEVERIFY env st)"
  "ok_stop fails (op_upgradable_NOP env st)"
  "ok_stop fails (op_IF env opcode fExec st)"
  "ok_stop fails (op_ELSE st)"
  "ok_stop fails (op_ENDIF st)"
  "ok_stop fails (op_VERIFY st)"
  by (simp_all add: op_push_value_def op_CHECKLOCKTIMEVERIFY_def op_CHECKSEQUENCEVERIFY_def
      op_upgradable_NOP_def op_IF_def op_ELSE_def op_ENDIF_def op_VERIFY_def Let_def
      split: list.split sum.split)

lemma fails_stack_ops [op_fails]:
  "ok_stop fails (op_TOALTSTACK st)"
  "ok_stop fails (op_FROMALTSTACK st)"
  "ok_stop fails (op_PICK_ROLL env opcode st)"
  "ok_stop fails (op_EQUAL opcode st)"
  "ok_stop fails (op_WITHIN env st)"
  "ok_stop fails (op_hash env opcode st)"
  by (simp_all add: op_TOALTSTACK_def op_FROMALTSTACK_def op_PICK_ROLL_def op_EQUAL_def Let_def
      op_WITHIN_def op_hash_def split: list.split sum.split)

lemma fails_unary:
  "opcode = OP_1ADD \<or> opcode = OP_1SUB \<or> opcode = OP_NEGATE \<or> opcode = OP_ABS \<or>
     opcode = OP_NOT \<or> opcode = OP_0NOTEQUAL \<Longrightarrow> ok_stop fails (op_unary_num env opcode st)"
  using unary_num_defined CScriptNum_bound
  by (fastforce simp: op_unary_num_def split: list.split sum.split option.split)

lemma fails_binary:
  "opcode = OP_ADD \<or> opcode = OP_SUB \<or> (OP_BOOLAND \<le> opcode \<and> opcode \<le> OP_MAX) \<Longrightarrow>
   ok_stop fails (op_binary_num env opcode st)"
  using binary_num_defined [of opcode]
  by (auto simp: op_binary_num_def simp del: not_None_eq split: list.split sum.split option.split)

lemma fails_sig [op_fails]:
  "ok_stop (\<lambda>r. fails r \<or> r = UndefinedBehaviour) (op_CHECKSIG env script opcode st)"
  "ok_stop (\<lambda>r. fails r \<or> r = UndefinedBehaviour) (op_CHECKMULTISIG env script opcode st)"
  by (simp_all add: op_CHECKSIG_def op_CHECKMULTISIG_def multisig_run_def multisig_result_def Let_def
      split: list.split sum.split guarded.split option.split)

definition is_checksig :: "nat \<Rightarrow> bool" where
  "is_checksig opcode \<longleftrightarrow> opcode = OP_CHECKSIG \<or> opcode = OP_CHECKSIGVERIFY \<or>
     opcode = OP_CHECKMULTISIG \<or> opcode = OP_CHECKMULTISIGVERIFY"

text \<open>How an opcode can end the evaluation.\<close>

definition contract_exit :: "bytes \<Rightarrow> eval_state \<Rightarrow> eval_result" where
  "contract_exit script st =
     Ret (True, SCRIPT_ERR_UNKNOWN_ERROR, drop (st_pc st - 1) script # st_stack st)"

lemma exec_op_Stop:
  "ok_stop (\<lambda>r. fails r \<or> (is_checksig opcode \<and> r = UndefinedBehaviour) \<or>
       (is_contract_op opcode \<and> r = contract_exit script st))
     (exec_op env script fExec opcode st)"
proof -
  have weaken: "ok_stop fails s \<Longrightarrow> ok_stop (\<lambda>r. fails r \<or> Q r) s" for Q s
    by (auto simp: ok_stop_def split: step.splits)
  show ?thesis
  proof (cases "is_checksig opcode \<or> is_contract_op opcode")
    case True
    then have "is_checksig opcode \<and> exec_op env script fExec opcode st = op_CHECKSIG env script opcode st \<or>
      is_checksig opcode \<and> exec_op env script fExec opcode st = op_CHECKMULTISIG env script opcode st \<or>
      is_contract_op opcode \<and> exec_op env script fExec opcode st = op_contract script st"
      unfolding is_checksig_def is_contract_op_def
      by (elim disjE) (simp_all add: exec_op_def op_stack_def is_contract_op_def)
    moreover have "ok_stop (\<lambda>r. fails r \<or> r = UndefinedBehaviour \<or> Q r) s"
      if "ok_stop (\<lambda>r. fails r \<or> r = UndefinedBehaviour) s" for Q s
      using that by (auto simp: ok_stop_def split: step.splits)
    ultimately show ?thesis
      using fails_sig [of env script opcode st] by (auto simp: op_contract_def contract_exit_def)
  next
    case False
    then show ?thesis
      using fails_unary fails_binary
      by (intro weaken) (simp add: exec_op_def op_fails is_checksig_def)
  qed
qed

lemma eval_step_limit:
  assumes "GetOp2 script (st_pc st) = (fRet, pc', opcode, vch)"
  defines "st1 \<equiv> st\<lparr>st_pc := pc', st_ops := (if opcode > OP_16 then st_ops st + 1 else st_ops st)\<rparr>"
  shows "(\<exists>e. eval_step env script st = Stop (Ret (False, e, st_stack st))) \<or>
    fRet \<and> length vch \<le> MAX_SCRIPT_ELEMENT_SIZE \<and> \<not> is_disabled opcode \<and>
    (\<exists>r. eval_step env script st = size_limit r \<and> keeps st1 r \<and>
       ((\<exists>st'. r = Next st') \<or> (\<exists>fExec. r = exec_op env script fExec opcode st1)))"
  using eval_step_cases [OF assms(1), of env] keeps_stack(7) [of st1 vch] keeps_same [of st1]
    keeps_exec_op [of st1 env script _ opcode]
  unfolding st1_def [symmetric] by blast

lemma eval_step_decodes:
  assumes "eval_step env script st = Next st'"
  shows "\<exists>opcode vch. GetOp2 script (st_pc st) = (True, st_pc st', opcode, vch) \<and>
    \<not> is_disabled opcode \<and> length vch \<le> MAX_SCRIPT_ELEMENT_SIZE"
proof -
  obtain fRet pc' opcode vch where op: "GetOp2 script (st_pc st) = (fRet, pc', opcode, vch)"
    by (cases "GetOp2 script (st_pc st)") auto
  from eval_step_limit [OF op, of env] assms obtain r where
    *: "fRet" "length vch \<le> MAX_SCRIPT_ELEMENT_SIZE" "\<not> is_disabled opcode" "size_limit r = Next st'"
      "keeps (st\<lparr>st_pc := pc', st_ops := (if opcode > OP_16 then st_ops st + 1 else st_ops st)\<rparr>) r"
    by (metis step.distinct(1))
  then have "st_pc st' = pc'" by (simp add: keeps_def size_limit_Next)
  with op * show ?thesis by auto
qed

lemma size_limit_Stop: "size_limit r = Stop res \<Longrightarrow> fails res \<or> r = Stop res"
  by (auto simp: size_limit_def split: if_splits step.splits)

lemma eval_step_Stop:
  assumes "eval_step env script st = Stop res"
  shows "fails res \<or>
    (\<exists>pc' opcode vch. GetOp2 script (st_pc st) = (True, pc', opcode, vch) \<and>
      (is_checksig opcode \<and> res = UndefinedBehaviour \<or>
       is_contract_op opcode \<and> res = contract_exit script (st\<lparr>st_pc := pc'\<rparr>)))"
proof (cases "fails res")
  case False
  obtain fRet pc' opcode vch where op: "GetOp2 script (st_pc st) = (fRet, pc', opcode, vch)"
    by (cases "GetOp2 script (st_pc st)") auto
  define st1 where
    "st1 = st\<lparr>st_pc := pc', st_ops := (if opcode > OP_16 then st_ops st + 1 else st_ops st)\<rparr>"
  have "eval_step env script st \<noteq> Stop (Ret (False, e, st_stack st))" for e
    using False assms by auto
  with eval_step_limit [OF op, of env] obtain r where r: "fRet" "eval_step env script st = size_limit r"
    "(\<exists>st'. r = Next st') \<or> (\<exists>fExec. r = exec_op env script fExec opcode st1)"
    unfolding st1_def by blast
  have "r = Stop res" using size_limit_Stop [of r res] False assms r(2) by simp
  with r(3) obtain fExec where "exec_op env script fExec opcode st1 = Stop res" by auto
  with exec_op_Stop [of opcode script st1 env fExec] False
  have "is_checksig opcode \<and> res = UndefinedBehaviour \<or>
      is_contract_op opcode \<and> res = contract_exit script st1" by simp
  moreover have "contract_exit script st1 = contract_exit script (st\<lparr>st_pc := pc'\<rparr>)"
    by (simp add: contract_exit_def st1_def)
  ultimately show ?thesis using op r(1) by simp
qed simp

section \<open>The opcodes of a script\<close>

text \<open>The opcodes that a scan from \<open>pc\<close> decodes, up to the end or the first failure.\<close>

function ops_from :: "bytes \<Rightarrow> nat \<Rightarrow> nat list" where
  "ops_from script pc =
     (case GetOp2 script pc of (fRet, pc', opcode, _) \<Rightarrow>
        if fRet then opcode # ops_from script pc' else [])"
  by pat_completeness auto
termination
  by (relation "measure (\<lambda>(script, pc). length script - pc)") (auto dest: GetOp2_progress [OF sym])

declare ops_from.simps [simp del]

lemma ops_from_step:
  "GetOp2 script pc = (True, pc', opcode, vch) \<Longrightarrow> ops_from script pc = opcode # ops_from script pc'"
  by (subst ops_from.simps) simp

lemma ops_from_end: "length script \<le> pc \<Longrightarrow> ops_from script pc = []"
  by (subst ops_from.simps) (simp add: GetOp2_def)

lemma Find_from_ops: "Find_from script op pc n = n + count_list (ops_from script pc) op"
proof (induction pc arbitrary: n rule: scan_induct [of "length script"])
  case (step pc)
  obtain fRet pc' opcode vch where op: "GetOp2 script pc = (fRet, pc', opcode, vch)"
    by (cases "GetOp2 script pc") auto
  show ?case
  proof (cases fRet)
    case True
    with op GetOp2_progress have "pc < pc'" "pc' \<le> length script" by auto
    with step.IH op True show ?thesis
      by (subst Find_from.simps) (auto simp: ops_from_step)
  next
    case False
    with op show ?thesis
      by (subst Find_from.simps, subst ops_from.simps) (simp add: ops_from_end)
  qed
qed

lemma Find_0_iff: "Find script op = 0 \<longleftrightarrow> op \<notin> set (ops_from script 0)"
  by (simp add: Find_def Find_from_ops count_list_0_iff)

text \<open>A concrete environment for the witnesses: identity hashes and a checker that accepts.\<close>

definition sample_env :: "flags \<Rightarrow> int \<Rightarrow> script_env" where
  "sample_env flags height =
     \<lparr>env_flags = flags, env_sigversion = SIGVERSION_BASE,
      env_checker = \<lparr>CheckSig = (\<lambda>_ _ _ _. True), CheckLockTime = (\<lambda>_. True), CheckSequence = (\<lambda>_. True)\<rparr>,
      env_crypto = \<lparr>RIPEMD160 = id, SHA1 = id, SHA256 = id, CheckLowS = (\<lambda>_. True)\<rparr>,
      env_chain = \<lparr>chain_height = height, UBCHeight = 10, UBCInitBlockCount = 5, ForkV4Height = 100,
        UBCForkGeneratorPubkey = [2]\<rparr>\<rparr>"

abbreviation sample_crypto :: script_crypto where
  "sample_crypto \<equiv> env_crypto (sample_env 0 0)"

abbreviation sample_chain :: chain_ctx where
  "sample_chain \<equiv> env_chain (sample_env 0 0)"

lemma sample_env_simps [simp]:
  "env_flags (sample_env flags height) = flags"
  "env_sigversion (sample_env flags height) = SIGVERSION_BASE"
  "CheckSig (env_checker (sample_env flags height)) vchSig pk code v"
  "Hash160 (env_crypto (sample_env flags height)) v' = v'"
  "SHA256 (env_crypto (sample_env flags height)) v' = v'"
  "chain_height (env_chain (sample_env flags height)) = height"
  "UBCHeight (env_chain (sample_env flags height)) = 10"
  "UBCInitBlockCount (env_chain (sample_env flags height)) = 5"
  "ForkV4Height (env_chain (sample_env flags height)) = 100"
  "UBCForkGeneratorPubkey (env_chain (sample_env flags height)) = [2]"
  by (simp_all add: sample_env_def Hash160_def)

section \<open>Properties of \<open>EvalScript\<close>\<close>

lemma EvalScript_no_assert: "EvalScript env stack script \<noteq> AssertFail"
proof -
  have "eval_loop env script (init_state stack) \<noteq> AssertFail"
    by (rule eval_loop_rule [where I = "\<lambda>_. True"])
      (auto simp: fails_def contract_exit_def dest: eval_step_Stop)
  then show ?thesis by (simp add: EvalScript_def)
qed

text \<open>C4: evaluating a script never fails an assertion, in particular the overflow assertions of
  \<^verbatim>\<open>CScriptNum\<close>, and a script without signature opcodes always returns: no read is out of bounds.\<close>

theorem EvalScript_returns:
  "EvalScript env stack script \<noteq> AssertFail \<and>
   ((\<forall>op. is_checksig op \<longrightarrow> Find script op = 0) \<longrightarrow> (\<exists>r. EvalScript env stack script = Ret r))"
proof -
  define Q where "Q pc \<longleftrightarrow> (\<forall>op. is_checksig op \<longrightarrow> op \<notin> set (ops_from script pc))" for pc
  have "eval_loop env script (init_state stack) \<noteq> UndefinedBehaviour" if "Q 0"
  proof (rule eval_loop_rule [where I = "\<lambda>st. Q (st_pc st)"])
    fix st st'
    assume "Q (st_pc st)" "eval_step env script st = Next st'"
    then show "Q (st_pc st')"
      using eval_step_decodes ops_from_step unfolding Q_def by fastforce
  next
    fix st res
    assume "Q (st_pc st)" "eval_step env script st = Stop res"
    then show "res \<noteq> UndefinedBehaviour"
      using eval_step_Stop [of env script st res] ops_from_step
      unfolding Q_def by (fastforce simp: fails_def contract_exit_def)
  qed (use that in \<open>simp_all add: init_state_def\<close>)
  then have "EvalScript env stack script \<noteq> UndefinedBehaviour" if "Q 0"
    using that by (simp add: EvalScript_def)
  then show ?thesis
    using EvalScript_no_assert [of env stack script]
    by (cases "EvalScript env stack script") (auto simp: Q_def Find_0_iff)
qed

theorem EvalScript_returns_witness:
  "\<exists>r. EvalScript (sample_env 0 0) [] [0x51, 0x8b] = Ret r"
proof -
  have "Find [0x51, 0x8b] op = 0" if "is_checksig op" for op
    using that unfolding is_checksig_def
    by (elim disjE) (simp_all add: Find_def Find_from.simps GetOp2_def)
  with EvalScript_returns [of "sample_env 0 0" "[]" "[0x51, 0x8b]"] show ?thesis by blast
qed

text \<open>C32: a script that runs to its end decodes completely, has no element above the size limit, and
  has no disabled opcode anywhere, not even in a branch that is not executed.\<close>

theorem EvalScript_OK_valid:
  assumes "EvalScript env stack script = Ret (True, SCRIPT_ERR_OK, stack')"
  shows "HasValidOps script \<and> (\<forall>op. is_disabled op \<longrightarrow> Find script op = 0)"
proof -
  define D where "D pc \<longleftrightarrow> (\<exists>op. is_disabled op \<and> op \<in> set (ops_from script pc))" for pc
  let ?I = "\<lambda>st. (HasValidOps_from script (st_pc st) \<longrightarrow> HasValidOps script) \<and> (D 0 \<longrightarrow> D (st_pc st))"
  let ?P = "\<lambda>r. r = Ret (True, SCRIPT_ERR_OK, stack') \<longrightarrow> HasValidOps script \<and> \<not> D 0"
  have "?P (eval_loop env script (init_state stack))"
  proof (rule eval_loop_rule [where I = ?I])
    fix st st' assume I: "?I st" and "st_pc st < length script" "eval_step env script st = Next st'"
    then obtain opcode vch where *: "GetOp2 script (st_pc st) = (True, st_pc st', opcode, vch)"
      "\<not> is_disabled opcode" "length vch \<le> MAX_SCRIPT_ELEMENT_SIZE"
      using eval_step_decodes by blast
    then have "HasValidOps_from script (st_pc st) = HasValidOps_from script (st_pc st')"
      using \<open>st_pc st < length script\<close> by (subst HasValidOps_from.simps) simp
    with I * show "?I st'" by (auto simp: D_def ops_from_step)
  next
    fix st res assume "eval_step env script st = Stop res"
    then show "?P res"
      using eval_step_Stop [of env script st res] by (auto simp: fails_def contract_exit_def)
  next
    fix st assume "?I st" "\<not> st_pc st < length script"
    moreover from this(2) have "HasValidOps_from script (st_pc st)"
      by (subst HasValidOps_from.simps) simp
    moreover have "\<not> D (st_pc st)" using \<open>\<not> st_pc st < length script\<close> by (simp add: D_def ops_from_end)
    ultimately show "?P (if st_exec st \<noteq> [] then Ret (False, SCRIPT_ERR_UNBALANCED_CONDITIONAL, st_stack st)
       else Ret (True, SCRIPT_ERR_OK, st_stack st))" by auto
  qed (simp add: init_state_def HasValidOps_def)
  with assms show ?thesis
    by (auto simp: EvalScript_def D_def Find_0_iff split: if_splits)
qed

theorem EvalScript_OK_valid_witness:
  "HasValidOps [0x00, 0x63, 0x68] \<and> Find [0x00, 0x63, 0x68] OP_CAT = 0"
proof -
  have "EvalScript (sample_env 0 0) [] [0x00, 0x63, 0x68] = Ret (True, SCRIPT_ERR_OK, [])"
    by (simp add: EvalScript_def eval_loop.simps init_state_def eval_step_def GetOp2_def push_size_def
        is_disabled_def fRequireMinimal_def has_flag_def size_limit_def push_def
        exec_op_def op_IF_def op_ENDIF_def op_stack_def)
  from EvalScript_OK_valid [OF this] show ?thesis by (simp add: is_disabled_def)
qed

text \<open>With at most 1000 elements to start from, a script that runs to its end leaves at most 1000, and a script
  that ends in a contract opcode one more: that opcode returns in front of the size check.\<close>

lemma EvalScript_stack_limit:
  assumes "EvalScript env stack script = Ret (True, e, stack')" and "length stack \<le> MAX_STACK_SIZE"
  shows "length stack' \<le> MAX_STACK_SIZE + (if e = SCRIPT_ERR_OK then 0 else 1)"
proof -
  let ?P = "\<lambda>r. r = Ret (True, e, stack') \<longrightarrow>
    length stack' \<le> MAX_STACK_SIZE + (if e = SCRIPT_ERR_OK then 0 else 1)"
  have "?P (eval_loop env script (init_state stack))"
  proof (rule eval_loop_rule [where I = "\<lambda>st. length (st_stack st) \<le> MAX_STACK_SIZE"])
    fix st st' assume "eval_step env script st = Next st'"
    then show "length (st_stack st') \<le> MAX_STACK_SIZE" using eval_step_Next by force
  next
    fix st res assume "length (st_stack st) \<le> MAX_STACK_SIZE" "eval_step env script st = Stop res"
    then show "?P res"
      using eval_step_Stop [of env script st res] by (auto simp: fails_def contract_exit_def)
  qed (use assms(2) in \<open>auto simp: init_state_def\<close>)
  with assms(1) show ?thesis by (simp add: EvalScript_def split: if_splits)
qed

end
