(* ===== verification/EvalStd.thy ===== *)
theory EvalStd
  imports EvalProps
begin

text \<open>
  Evaluation of the scripts that outputs really carry: sequences of pushes, contract calls,
  unspendable outputs, pay-to-pubkey-hash and pay-to-script-hash.
\<close>

section \<open>Single steps of the loop\<close>

lemma eval_loop_end:
  "st_pc st = length script \<Longrightarrow> st_exec st = [] \<Longrightarrow>
   eval_loop env script st = Ret (True, SCRIPT_ERR_OK, st_stack st)"
  by (subst eval_loop.simps) simp

lemma GetOp2_op:
  "pc < length script \<Longrightarrow> OP_PUSHDATA4 < unat (script ! pc) \<Longrightarrow>
   GetOp2 script pc = (True, Suc pc, unat (script ! pc), [])"
  by (simp add: GetOp2_def)

lemma eval_loop_op:
  assumes "st_pc st < length script" and "unat (script ! st_pc st) = opcode" and "OP_16 < opcode"
    and "\<not> is_disabled opcode" and "st_exec st = []" and "st_ops st < MAX_OPS_PER_SCRIPT"
  shows "eval_loop env script st =
    (case size_limit (exec_op env script True opcode
        (st\<lparr>st_pc := Suc (st_pc st), st_ops := Suc (st_ops st)\<rparr>)) of
       Next st' \<Rightarrow> eval_loop env script st' | Stop res \<Rightarrow> res)"
  using assms GetOp2_op [of "st_pc st" script]
  by (subst eval_loop.simps) (simp add: eval_step_def Let_def)

lemma eval_loop_push:
  assumes "GetOp2 script (st_pc st) = (True, pc', opcode, vch)" and "opcode \<le> OP_PUSHDATA4"
    and "length vch \<le> MAX_SCRIPT_ELEMENT_SIZE" and "st_exec st = []"
    and "fRequireMinimal env \<longrightarrow> CheckMinimalPush vch opcode"
    and "length (st_stack st) + length (st_alt st) < MAX_STACK_SIZE"
  shows "eval_loop env script st =
    eval_loop env script (st\<lparr>st_pc := pc', st_stack := vch # st_stack st\<rparr>)"
proof -
  have "st_pc st < length script" using GetOp2_progress [OF assms(1)] by simp
  moreover have "\<not> is_disabled opcode" using assms(2) by (simp add: is_disabled_def)
  ultimately show ?thesis
    using assms by (subst eval_loop.simps) (auto simp: eval_step_def Let_def size_limit_def push_def)
qed

lemma eval_loop_pushes:
  assumes "\<not> fRequireMinimal env" and "\<forall>x \<in> set bs. length x \<le> MAX_SCRIPT_ELEMENT_SIZE"
  shows "script = pre @ concat (map push_vch bs) @ post \<Longrightarrow> st_pc st = length pre \<Longrightarrow>
    st_exec st = [] \<Longrightarrow> length bs + length (st_stack st) + length (st_alt st) \<le> MAX_STACK_SIZE \<Longrightarrow>
    eval_loop env script st = eval_loop env script
      (st\<lparr>st_pc := length pre + length (concat (map push_vch bs)), st_stack := rev bs @ st_stack st\<rparr>)"
  using assms(2)
proof (induction bs arbitrary: pre st)
  case Nil
  then have "st\<lparr>st_pc := length pre, st_stack := st_stack st\<rparr> = st" by simp
  then show ?case by simp
next
  case (Cons x bs)
  let ?st = "st\<lparr>st_pc := length pre + length (push_vch x), st_stack := x # st_stack st\<rparr>"
  have x: "length x < 4294967296" using Cons.prems(5) by simp
  have op: "GetOp2 script (st_pc st) =
      (True, length pre + length (push_vch x), unat (hd (push_vch x)), x)"
    using Cons.prems GetOp2_push_vch_at [OF x, of pre "concat (map push_vch bs) @ post"] by simp
  have "eval_loop env script st = eval_loop env script ?st"
    using eval_loop_push [OF op] GetOp2_push_vch [OF x, of "[]"] Cons.prems assms(1) by simp
  also have "\<dots> = eval_loop env script (?st\<lparr>st_pc := length (pre @ push_vch x) +
      length (concat (map push_vch bs)), st_stack := rev bs @ st_stack ?st\<rparr>)"
    using Cons.prems by (intro Cons.IH) simp_all
  finally show ?case by (simp add: add.assoc)
qed

section \<open>Pushes, contract calls and unspendable outputs\<close>

text \<open>A script that is a sequence of pushes leaves exactly the pushed values on the stack.\<close>

lemma EvalScript_pushes:
  assumes "\<not> fRequireMinimal env" and "\<forall>x \<in> set bs. length x \<le> MAX_SCRIPT_ELEMENT_SIZE"
    and "length (concat (map push_vch bs)) \<le> MAX_SCRIPT_SIZE"
    and "length bs + length stack \<le> MAX_STACK_SIZE"
  shows "EvalScript env stack (concat (map push_vch bs)) =
    Ret (True, SCRIPT_ERR_OK, rev bs @ stack)"
  using assms eval_loop_pushes [OF assms(1,2), of "concat (map push_vch bs)" "[]" "[]" "init_state stack"]
  by (simp add: EvalScript_def eval_loop_end init_state_def)

lemma EvalScript_push:
  assumes "\<not> fRequireMinimal env" and "length v \<le> 75" and "length stack < MAX_STACK_SIZE"
  shows "EvalScript env stack (push_vch v) = Ret (True, SCRIPT_ERR_OK, v # stack)"
proof -
  have "length (push_vch v) \<le> 76" using assms(2) by (simp add: push_vch_def)
  then show ?thesis
    using assms eval_loop_pushes [OF assms(1), of "[v]" "push_vch v" "[]" "[]" "init_state stack"]
    by (simp add: EvalScript_def eval_loop_end init_state_def)
qed

text \<open>A contract call: arguments pushed and then a contract opcode.  Evaluation ends there with
  \<^verbatim>\<open>true\<close>, the opcode with the rest of the script on top of the arguments, the rest not
  evaluated, and \<^verbatim>\<open>serror\<close> not set to success.\<close>

lemma EvalScript_contract:
  assumes "is_contract_op op" and "\<not> fRequireMinimal env"
    and "\<forall>x \<in> set bs. length x \<le> MAX_SCRIPT_ELEMENT_SIZE"
    and "length (concat (map push_vch bs) @ of_nat op # rest) \<le> MAX_SCRIPT_SIZE"
    and "length bs + length stack \<le> MAX_STACK_SIZE"
  shows "EvalScript env stack (concat (map push_vch bs) @ of_nat op # rest) =
    Ret (True, SCRIPT_ERR_UNKNOWN_ERROR, (of_nat op # rest) # rev bs @ stack)"
proof -
  let ?p = "concat (map push_vch bs)"
  let ?s = "?p @ of_nat op # rest"
  let ?st = "(init_state stack)\<lparr>st_pc := length ?p, st_stack := rev bs @ stack\<rparr>"
  have op: "op < 256" "OP_16 < op" "\<not> is_disabled op"
    using assms(1) unfolding is_contract_op_def is_disabled_def by (elim disjE; simp)+
  have "eval_loop env ?s (init_state stack) = eval_loop env ?s ?st"
    using eval_loop_pushes [OF assms(2,3), of ?s "[]" "of_nat op # rest" "init_state stack"] assms(5)
    by (simp add: init_state_def)
  also have "\<dots> = (case size_limit (exec_op env ?s True op
        (?st\<lparr>st_pc := Suc (st_pc ?st), st_ops := Suc (st_ops ?st)\<rparr>)) of
       Next st' \<Rightarrow> eval_loop env ?s st' | Stop res \<Rightarrow> res)"
    using op by (intro eval_loop_op) (simp_all add: init_state_def nth_append)
  also have "exec_op env ?s True op st = op_contract ?s st" for st
    using assms(1) unfolding is_contract_op_def
    by (elim disjE) (simp_all add: exec_op_def op_stack_def is_contract_op_def)
  finally show ?thesis
    using assms(4) by (simp add: EvalScript_def op_contract_def size_limit_def)
qed

text \<open>C39: on a script of pushed arguments with a contract opcode the tests of \<^verbatim>\<open>CScript\<close> return, and answer by the opcode exactly when
  it is the last byte of the script.\<close>

theorem contract_call_detected:
  assumes "is_contract_op op" and "\<forall>x \<in> set bs. length x \<le> MAX_SCRIPT_ELEMENT_SIZE"
    and "length (concat (map push_vch bs) @ of_nat op # rest) \<le> MAX_SCRIPT_SIZE"
    and "length bs \<le> MAX_STACK_SIZE"
  defines "script \<equiv> concat (map push_vch bs) @ of_nat op # rest"
  shows "HasContractOp c ctx script = Ret (rest = [] \<and> op \<noteq> OP_SPEND) \<and>
    HasOpDepositToContract c ctx script = Ret (rest = [] \<and> op = OP_DEPOSIT_TO_CONTRACT) \<and>
    HasOpSpend c ctx script = Ret (rest = [] \<and> op = OP_SPEND)"
proof -
  have "EvalScript (contract_env c ctx) [] script =
      Ret (True, SCRIPT_ERR_UNKNOWN_ERROR, (of_nat op # rest) # rev bs @ [])"
    unfolding script_def using assms(1-4)
    by (intro EvalScript_contract) (simp_all add: contract_env_def fRequireMinimal_def has_flag_def)
  moreover have "op < 256" using assms(1) unfolding is_contract_op_def by (elim disjE) simp_all
  ultimately have "last_opcode c ctx script = Ret (if rest = [] then Some op else None)"
    by (simp add: last_opcode_def script_def)
  then show ?thesis
    using assms(1) by (auto simp: HasContractOp_def HasOpDepositToContract_def HasOpSpend_def is_contract_op_def)
qed

theorem contract_call_detected_witness:
  "HasContractOp sample_crypto sample_chain (concat (map push_vch [[1]]) @ [0xc4]) = Ret True \<and>
   HasContractOp sample_crypto sample_chain (concat (map push_vch [[1]]) @ [0xc4, 0x51]) = Ret False"
  using contract_call_detected [of OP_CALL "[[1]]" "[]" sample_crypto sample_chain]
    contract_call_detected [of OP_CALL "[[1]]" "[0x51]" sample_crypto sample_chain]
  by (simp add: is_contract_op_def push_vch_def)

text \<open>An output the code calls unspendable fails for every witness of arguments.\<close>

lemma unspendable_fails:
  assumes "IsUnspendable script"
  shows "\<exists>e. EvalScript env stack script = Ret (False, e, stack)"
proof (cases "MAX_SCRIPT_SIZE < length script")
  case False
  with assms have "script \<noteq> []" "unat (script ! 0) = OP_RETURN" by (auto simp: IsUnspendable_def)
  then have "eval_loop env script (init_state stack) = Ret (False, SCRIPT_ERR_OP_RETURN, stack)"
    using eval_loop_op [of "init_state stack" script OP_RETURN env]
    by (simp add: init_state_def is_disabled_def exec_op_def size_limit_def)
  with False show ?thesis by (simp add: EvalScript_def)
qed (simp add: EvalScript_def)

text \<open>The test for a contract opcode also answers \<^verbatim>\<open>true\<close> for a script that merely pushes one byte
  with the value of such an opcode and contains no contract opcode at all.\<close>

lemma HasContractOp_push:
  assumes "is_contract_op op" and "op \<noteq> OP_SPEND"
  shows "HasContractOp c ctx (push_vch [of_nat op]) = Ret True \<and>
    (\<forall>op'. is_contract_op op' \<longrightarrow> Find (push_vch [of_nat op]) op' = 0)"
proof
  let ?s = "push_vch [of_nat op]"
  have op: "op < 256" using assms(1) unfolding is_contract_op_def by (elim disjE) simp_all
  have "EvalScript (contract_env c ctx) [] ?s = Ret (True, SCRIPT_ERR_OK, [[of_nat op]])"
    by (rule EvalScript_push) (simp_all add: contract_env_def fRequireMinimal_def has_flag_def)
  then show "HasContractOp c ctx ?s = Ret True"
    using assms op unfolding is_contract_op_def
    by (auto simp: HasContractOp_def last_opcode_def)
  have "ops_from ?s 0 = [1]"
    using GetOp2_push_vch [of "[of_nat op]" "[]"]
    by (subst ops_from.simps) (simp add: push_vch_def ops_from_end)
  then show "\<forall>op'. is_contract_op op' \<longrightarrow> Find ?s op' = 0"
    by (simp add: Find_0_iff is_contract_op_def)
qed

text \<open>C40: with fork ids enabled after the fork, a script of three bytes that pushes an empty signature and an empty key and checks
  them read in front of an empty vector.\<close>

theorem checksig_empty_signature:
  assumes "UBCHeight (env_chain env) \<le> chain_height (env_chain env)"
    and "has_flag (env_flags env) SCRIPT_ENABLE_SIGHASH_FORKID" and "length stack + 2 \<le> MAX_STACK_SIZE"
  shows "EvalScript env stack [of_nat OP_0, of_nat OP_0, of_nat OP_CHECKSIG] = UndefinedBehaviour"
proof -
  let ?s = "[of_nat OP_0, of_nat OP_0, of_nat OP_CHECKSIG] :: bytes"
  have op: "GetOp2 ?s 0 = (True, 1, 0, [])" "GetOp2 ?s 1 = (True, 2, 0, [])"
    by (simp_all add: GetOp2_def push_size_def)
  have "eval_loop env ?s (init_state stack) =
      eval_loop env ?s ((init_state stack)\<lparr>st_pc := 1, st_stack := [] # stack\<rparr>)"
    using eval_loop_push [of ?s "init_state stack" 1 0 "[]" env] op assms(3)
    by (simp add: init_state_def CheckMinimalPush_def)
  also have "\<dots> = eval_loop env ?s ((init_state stack)\<lparr>st_pc := 2, st_stack := [] # [] # stack\<rparr>)"
    using eval_loop_push [of ?s "(init_state stack)\<lparr>st_pc := 1, st_stack := [] # stack\<rparr>" 2 0 "[]" env]
      op assms(3)
    by (simp add: init_state_def CheckMinimalPush_def)
  also have "\<dots> = UndefinedBehaviour"
    using assms
    by (subst eval_loop_op [where opcode = OP_CHECKSIG]) (simp_all add: init_state_def is_disabled_def exec_op_def op_stack_def
        op_CHECKSIG_def require_forkid_def uses_forkid_def size_limit_def)
  finally show ?thesis by (simp add: EvalScript_def)
qed

theorem checksig_empty_signature_witness:
  "EvalScript (sample_env 0x40000 10) [] [0, 0, 0xac] = UndefinedBehaviour"
  using checksig_empty_signature [of "sample_env 0x40000 10" "[]"] by (simp add: has_flag_def)

section \<open>Pay-to-pubkey-hash\<close>

lemma size_limit_case:
  "(case size_limit r of Next st \<Rightarrow> f st | Stop res \<Rightarrow> res) =
     (case r of Next st \<Rightarrow> if length (st_stack st) + length (st_alt st) > MAX_STACK_SIZE
        then Ret (False, SCRIPT_ERR_STACK_SIZE, st_stack st) else f st | Stop res \<Rightarrow> res)"
  by (simp add: size_limit_def split: step.split)

lemma GetOp2_20:
  assumes "length h = 20"
  shows "GetOp2 (pre @ push_vch h @ post) (length pre) = (True, length pre + 21, 20, h) \<and>
    length (push_vch h) = 21 \<and> CheckMinimalPush h 20"
  using GetOp2_push_vch_at [of h pre post] assms
  by (simp add: push_vch_def CheckMinimalPush_def)

text \<open>The signed part of the script.\<close>

definition script_code :: "script_env \<Rightarrow> bytes \<Rightarrow> valtype \<Rightarrow> bytes" where
  "script_code env script vchSig =
     (if env_sigversion env = SIGVERSION_BASE then snd (FindAndDelete script (push_vch vchSig))
      else script)"

lemma eval_p2pkh:
  fixes pk vchSig :: valtype
  assumes "length h = 20" and "length s + 4 \<le> MAX_STACK_SIZE"
  defines "script \<equiv> witness_p2pkh_script h"
  defines "st \<equiv> \<lparr>st_pc = 25, st_codehash = 0, st_stack = pk # vchSig # s, st_alt = [],
    st_exec = [], st_ops = 4\<rparr>"
  shows "EvalScript env (pk # vchSig # s) script =
    (if Hash160 (env_crypto env) pk \<noteq> h
     then Ret (False, SCRIPT_ERR_EQUALVERIFY, vchFalse # pk # vchSig # s)
     else case op_CHECKSIG env script OP_CHECKSIG st of
       Next st' \<Rightarrow>
         (if length (st_stack st') + length (st_alt st') > MAX_STACK_SIZE
          then Ret (False, SCRIPT_ERR_STACK_SIZE, st_stack st') else eval_loop env script st')
     | Stop res \<Rightarrow> res)"
proof -
  let ?pre = "[of_nat OP_DUP, of_nat OP_HASH160] :: bytes"
  let ?post = "[of_nat OP_EQUALVERIFY, of_nat OP_CHECKSIG] :: bytes"
  have s: "script = ?pre @ push_vch h @ ?post" by (simp add: script_def witness_p2pkh_script_def)
  have push: "GetOp2 script 2 = (True, 23, 20, h)" "length (push_vch h) = 21" "CheckMinimalPush h 20"
    using GetOp2_20 [OF assms(1), of ?pre ?post] unfolding s by (simp_all add: numeral_2_eq_2)
  have len: "length script = 25" and nth: "script ! 0 = of_nat OP_DUP" "script ! 1 = of_nat OP_HASH160"
    "script ! 23 = of_nat OP_EQUALVERIFY" "script ! 24 = of_nat OP_CHECKSIG"
    unfolding s using push(2) by (simp_all add: nth_append)
  let ?st = "\<lambda>pc stk ops. \<lparr>st_pc = pc, st_codehash = 0, st_stack = stk, st_alt = [], st_exec = [],
    st_ops = ops\<rparr>"
  let ?h = "Hash160 (env_crypto env) pk"
  have "eval_loop env script (?st 0 (pk # vchSig # s) 0) =
      eval_loop env script (?st 1 (pk # pk # vchSig # s) 1)"
    using assms(2) len nth by (subst eval_loop_op [where opcode = OP_DUP]) (simp_all add: is_disabled_def exec_op_def
        op_stack_def stack_step_def op_DUP_def size_limit_case)
  also have "\<dots> = eval_loop env script (?st 2 (?h # pk # vchSig # s) 2)"
    using assms(2) len nth by (subst eval_loop_op [where opcode = OP_HASH160]) (simp_all add: is_disabled_def exec_op_def
        op_stack_def op_hash_def size_limit_case flip: numeral_2_eq_2)
  also have "\<dots> = eval_loop env script (?st 23 (h # ?h # pk # vchSig # s) 2)"
    using assms(1,2) push eval_loop_push [of script "?st 2 (?h # pk # vchSig # s) 2" 23 20 h env]
    by simp
  finally have *: "EvalScript env (pk # vchSig # s) script =
      eval_loop env script (?st 23 (h # ?h # pk # vchSig # s) 2)"
    using len by (simp add: EvalScript_def init_state_def)
  show ?thesis
  proof (cases "?h = h")
    case False
    then show ?thesis unfolding *
      using len nth by (subst eval_loop_op [where opcode = OP_EQUALVERIFY]) (simp_all add: is_disabled_def exec_op_def op_stack_def
          op_EQUAL_def size_limit_case)
  next
    case True
    then have "eval_loop env script (?st 23 (h # ?h # pk # vchSig # s) 2) =
        eval_loop env script (?st 24 (pk # vchSig # s) 3)"
      using assms(2) len nth by (subst eval_loop_op [where opcode = OP_EQUALVERIFY]) (simp_all add: is_disabled_def exec_op_def
          op_stack_def op_EQUAL_def size_limit_case)
    also have "\<dots> = (case op_CHECKSIG env script OP_CHECKSIG st of
       Next st' \<Rightarrow>
         (if length (st_stack st') + length (st_alt st') > MAX_STACK_SIZE
          then Ret (False, SCRIPT_ERR_STACK_SIZE, st_stack st') else eval_loop env script st')
     | Stop res \<Rightarrow> res)"
      using len nth by (subst eval_loop_op [where opcode = OP_CHECKSIG]) (simp_all add: is_disabled_def exec_op_def op_stack_def
          size_limit_case st_def)
    finally show ?thesis unfolding * using True by simp
  qed
qed

text \<open>The conditions under which \<open>OP_CHECKSIG\<close> pushes true.\<close>

definition checksig_ok :: "script_env \<Rightarrow> valtype \<Rightarrow> valtype \<Rightarrow> bytes \<Rightarrow> bool" where
  "checksig_ok env vchSig pk script \<longleftrightarrow> vchSig \<noteq> [] \<and> require_forkid env vchSig = Pass () \<and>
    CheckSignatureEncoding (env_crypto env) vchSig (env_flags env) = None \<and>
    CheckPubKeyEncoding pk (env_flags env) (env_sigversion env) = None \<and>
    CheckSig (env_checker env) vchSig pk (script_code env script vchSig) (env_sigversion env)"

lemma op_CHECKSIG_true:
  assumes "checksig_ok env vchSig pk script" and "st_stack st = pk # vchSig # s" and "st_codehash st = 0"
  shows "op_CHECKSIG env script OP_CHECKSIG st = Next (st\<lparr>st_stack := vchTrue # s\<rparr>)"
  using assms by (simp add: checksig_ok_def op_CHECKSIG_def script_code_def uses_forkid_def)

lemma op_CHECKSIG_false:
  assumes "\<not> checksig_ok env vchSig pk script" and "st_stack st = pk # vchSig # s" and "st_codehash st = 0"
  shows "op_CHECKSIG env script OP_CHECKSIG st = Next (st\<lparr>st_stack := vchFalse # s\<rparr>) \<or>
    (\<exists>res. op_CHECKSIG env script OP_CHECKSIG st = Stop res \<and> (fails res \<or> res = UndefinedBehaviour))"
proof (cases "require_forkid env vchSig")
  case (Pass u)
  then have "vchSig = [] \<Longrightarrow> chain_height (env_chain env) < UBCHeight (env_chain env)"
    by (auto simp: require_forkid_def uses_forkid_def split: if_splits)
  with Pass assms show ?thesis
    by (auto simp: checksig_ok_def op_CHECKSIG_def uses_forkid_def Let_def simp flip: script_code_def
        split: option.split)
qed (simp_all add: op_CHECKSIG_def assms)

lemma p2pkh_iff:
  assumes "length h = 20" and "length s + 4 \<le> MAX_STACK_SIZE"
  shows "(\<exists>e stack'. EvalScript env (pk # vchSig # s) (witness_p2pkh_script h) = Ret (True, e, stack') \<and>
      CastToBool (hd stack')) \<longleftrightarrow>
    Hash160 (env_crypto env) pk = h \<and> checksig_ok env vchSig pk (witness_p2pkh_script h)"
proof -
  let ?script = "witness_p2pkh_script h"
  let ?st = "\<lparr>st_pc = 25, st_codehash = 0, st_stack = pk # vchSig # s, st_alt = [],
    st_exec = [], st_ops = 4\<rparr>"
  have len: "length ?script = 25"
    using GetOp2_20 [OF assms(1), of "[]"] by (simp add: witness_p2pkh_script_def)
  have fin: "eval_loop env ?script (?st\<lparr>st_stack := v # s\<rparr>) = Ret (True, SCRIPT_ERR_OK, v # s)" for v
    using len by (simp add: eval_loop_end)
  show ?thesis
  proof (cases "checksig_ok env vchSig pk ?script")
    case True
    with op_CHECKSIG_true [OF True, of ?st s] fin [of "[1]"] assms(2) show ?thesis
      by (simp add: eval_p2pkh [OF assms])
  next
    case False
    with op_CHECKSIG_false [OF False, of ?st s] fin [of "[]"] assms(2) show ?thesis
      by (auto simp: eval_p2pkh [OF assms] fails_def)
  qed
qed

text \<open>C2: a pay-to-pubkey-hash script accepts a signature and a key on the stack if and only if
  the key hashes to the output's hash, the encodings pass the flags, the fork id
  rule of the height passes, and the checker accepts the signature over the script code.\<close>

theorem p2pkh_accepts_iff:
  assumes "length h = 20" and "length s + 4 \<le> MAX_STACK_SIZE"
  shows "(\<exists>e stack'. EvalScript env (pk # vchSig # s) (witness_p2pkh_script h) = Ret (True, e, stack') \<and>
      CastToBool (hd stack')) \<longleftrightarrow>
    Hash160 (env_crypto env) pk = h \<and> checksig_ok env vchSig pk (witness_p2pkh_script h)"
  using assms by (rule p2pkh_iff)

theorem p2pkh_accepts_iff_witness:
  "\<exists>e stack'. EvalScript (sample_env 0x40000 10) [replicate 20 3, [0x41, 0x09]]
      (witness_p2pkh_script (replicate 20 3)) = Ret (True, e, stack') \<and> CastToBool (hd stack')"
proof -
  have "checksig_ok (sample_env 0x40000 10) [0x41, 0x09] (replicate 20 3)
      (witness_p2pkh_script (replicate 20 3))"
    by (simp add: checksig_ok_def require_forkid_def uses_forkid_def CheckSignatureEncoding_def
        CheckPubKeyEncoding_def has_flag_def)
  then show ?thesis
    using p2pkh_accepts_iff [of "replicate 20 3" "[]" "sample_env 0x40000 10" "replicate 20 3" "[0x41, 0x09]"]
    by simp
qed

section \<open>Pay-to-script-hash\<close>

lemma eval_loop_push_limit:
  assumes "GetOp2 script (st_pc st) = (True, pc', opcode, vch)" and "opcode \<le> OP_PUSHDATA4"
    and "length vch \<le> MAX_SCRIPT_ELEMENT_SIZE" and "st_exec st = []"
    and "CheckMinimalPush vch opcode"
    and "eval_loop env script st = Ret (True, e, stack')"
  shows "length (st_stack st) + length (st_alt st) < MAX_STACK_SIZE"
proof (rule ccontr)
  assume "\<not> ?thesis"
  moreover have "st_pc st < length script" using GetOp2_progress [OF assms(1)] by simp
  moreover have "\<not> is_disabled opcode" using assms(2) by (simp add: is_disabled_def)
  ultimately show False
    using assms by (subst (asm) eval_loop.simps) (auto simp: eval_step_def Let_def size_limit_def push_def)
qed

text \<open>A script that has the pay-to-script-hash form compares the hash of the top element.\<close>

lemma p2sh_form:
  assumes "IsPayToScriptHash script"
  shows "length script = 23" and "unat (script ! 0) = OP_HASH160" and "unat (script ! 22) = OP_EQUAL"
    and "GetOp2 script 1 = (True, 22, 20, take 20 (drop 2 script))"
    and "CheckMinimalPush (take 20 (drop 2 script)) 20"
proof -
  show len: "length script = 23" and "unat (script ! 0) = OP_HASH160" "unat (script ! 22) = OP_EQUAL"
    using assms by (auto simp: IsPayToScriptHash_def)
  have "script ! 1 = 0x14" using assms by (simp add: IsPayToScriptHash_def)
  with len show "GetOp2 script 1 = (True, 22, 20, take 20 (drop 2 script))"
    "CheckMinimalPush (take 20 (drop 2 script)) 20"
    by (simp_all add: GetOp2_def push_size_def CheckMinimalPush_def flip: numeral_2_eq_2)
qed

lemma eval_p2sh_eq:
  assumes "IsPayToScriptHash script" and "length s + 2 \<le> MAX_STACK_SIZE"
  shows "EvalScript env (v # s) script =
    Ret (True, SCRIPT_ERR_OK, vch_bool (Hash160 (env_crypto env) v = take 20 (drop 2 script)) # s)"
proof -
  let ?st = "\<lambda>pc stk ops. \<lparr>st_pc = pc, st_codehash = 0, st_stack = stk, st_alt = [], st_exec = [],
    st_ops = ops\<rparr>"
  let ?h = "take 20 (drop 2 script)"
  let ?v = "Hash160 (env_crypto env) v"
  note f = p2sh_form [OF assms(1)]
  have "eval_loop env script (?st 0 (v # s) 0) = eval_loop env script (?st 1 (?v # s) 1)"
    using f assms(2) by (subst eval_loop_op [where opcode = OP_HASH160])
      (auto simp: is_disabled_def exec_op_def op_stack_def op_hash_def size_limit_case)
  also have "\<dots> = eval_loop env script (?st 22 (?h # ?v # s) 1)"
    using f assms(2) eval_loop_push [of script "?st 1 (?v # s) 1" 22 20 ?h env] by simp
  also have "\<dots> = Ret (True, SCRIPT_ERR_OK, vch_bool (?v = ?h) # s)"
    using f assms(2) by (subst eval_loop_op [where opcode = OP_EQUAL])
      (auto simp: is_disabled_def exec_op_def op_stack_def op_EQUAL_def size_limit_case eval_loop_end)
  finally show ?thesis using f(1) by (simp add: EvalScript_def init_state_def)
qed

lemma eval_p2sh:
  assumes "IsPayToScriptHash script" and "EvalScript env stack script = Ret (True, e, stack')"
  shows "\<exists>v s. stack = v # s \<and>
    stack' = vch_bool (Hash160 (env_crypto env) v = take 20 (drop 2 script)) # s"
proof -
  let ?st = "\<lambda>pc stk ops. \<lparr>st_pc = pc, st_codehash = 0, st_stack = stk, st_alt = [], st_exec = [],
    st_ops = ops\<rparr>"
  note f = p2sh_form [OF assms(1)]
  have "eval_loop env script (?st 0 stack 0) = Ret (True, e, stack')"
    using assms(2) f(1) by (simp add: EvalScript_def init_state_def)
  then obtain v s where stack: "stack = v # s"
    and 1: "eval_loop env script (?st 1 (Hash160 (env_crypto env) v # s) 1) = Ret (True, e, stack')"
    using f by (subst (asm) eval_loop_op [where opcode = OP_HASH160])
      (auto simp: is_disabled_def exec_op_def op_stack_def op_hash_def size_limit_case
        split: list.splits if_splits)
  have "length s + 1 < MAX_STACK_SIZE"
    using eval_loop_push_limit [of script "?st 1 (Hash160 (env_crypto env) v # s) 1" 22 20
        "take 20 (drop 2 script)" env] f 1 by simp
  with eval_p2sh_eq [OF assms(1), of s env v] assms(2) stack show ?thesis by simp
qed

end
