(* ===== verification/VerifyProps.thy ===== *)
theory VerifyProps
  imports EvalStd
begin

text \<open>
  What \<open>VerifyScript\<close> guarantees: it never fails an assertion for consistent flags, a
  pay-to-script-hash or witness output can be spent only with the preimage of its hash, and
  what it does in the height ranges that this chain treats specially.
\<close>

section \<open>Acceptance, stage by stage\<close>

named_theorems accept_simps \<open>when a stage of the verification accepts\<close>

lemma eval_then_accept [accept_simps]:
  "eval_then env stack script k = Ret (True, e) \<longleftrightarrow>
     (\<exists>e1 s1. EvalScript env stack script = Ret (True, e1, s1) \<and> k e1 s1 = Ret (True, e))"
  by (auto simp: eval_then_def split: outcome.splits)

lemma check_true_accept [accept_simps]:
  "check_true stack k = Ret (True, e) \<longleftrightarrow> (\<exists>x s. stack = x # s \<and> CastToBool x) \<and> k = Ret (True, e)"
  by (auto simp: check_true_def split: list.splits)

lemma verify_witness_stage_accept:
  "verify_witness_stage env witness script exact err had stack k = Ret (True, e) \<longleftrightarrow>
     (if has_flag (env_flags env) SCRIPT_VERIFY_WITNESS
      then (case IsWitnessProgram script of
          None \<Rightarrow> k had stack = Ret (True, e)
        | Some (version, program) \<Rightarrow> exact \<and>
            (\<exists>e1. VerifyWitnessProgram env witness version program = Ret (True, e1)) \<and>
            k True (resize_1 stack) = Ret (True, e))
      else k had stack = Ret (True, e))"
  by (auto simp: verify_witness_stage_def split: option.splits outcome.splits)

lemma eval_then_assert:
  "(\<And>e s. EvalScript env stack script = Ret (True, e, s) \<Longrightarrow> k e s \<noteq> AssertFail) \<Longrightarrow>
   eval_then env stack script k \<noteq> AssertFail"
  using EvalScript_no_assert by (auto simp: eval_then_def split: outcome.split)

lemma check_true_assert: "(stack \<noteq> [] \<Longrightarrow> k \<noteq> AssertFail) \<Longrightarrow> check_true stack k \<noteq> AssertFail"
  by (auto simp: check_true_def split: list.split)

lemma VerifyWitnessProgram_assert: "VerifyWitnessProgram env witness v program \<noteq> AssertFail"
  by (auto simp: VerifyWitnessProgram_def intro!: eval_then_assert split: sum.split if_splits)

lemma verify_witness_stage_assert:
  "(\<And>h s. k h s \<noteq> AssertFail) \<Longrightarrow>
   verify_witness_stage env witness script exact err had stack k \<noteq> AssertFail"
  using VerifyWitnessProgram_assert
  by (auto simp: verify_witness_stage_def split: option.split outcome.split)

text \<open>The combinations of flags that the assertions demand.\<close>

definition flags_consistent :: "flags \<Rightarrow> bool" where
  "flags_consistent flags \<longleftrightarrow>
     (has_flag flags SCRIPT_VERIFY_CLEANSTACK \<longrightarrow> has_flag flags SCRIPT_VERIFY_WITNESS) \<and>
     (has_flag flags SCRIPT_VERIFY_WITNESS \<longrightarrow> has_flag flags SCRIPT_VERIFY_P2SH)"

lemma verify_env_flags:
  "has_flag (env_flags (verify_env env)) f \<longleftrightarrow> has_flag (env_flags env) f \<or>
     (has_flag (env_flags env) SCRIPT_ENABLE_SIGHASH_FORKID \<and> has_flag SCRIPT_VERIFY_STRICTENC f)"
  by (simp add: verify_env_def has_flag_or)

lemma verify_env_simps [simp]:
  "env_chain (verify_env env) = env_chain env"
  "env_crypto (verify_env env) = env_crypto env"
  "env_checker (verify_env env) = env_checker env"
  "env_sigversion (verify_env env) = SIGVERSION_BASE"
  by (simp_all add: verify_env_def)

lemma flags_consistent_verify_env:
  "flags_consistent (env_flags env) \<Longrightarrow> flags_consistent (env_flags (verify_env env))"
  by (auto simp: flags_consistent_def verify_env_flags) (simp_all add: has_flag_def)

lemma verify_finish_assert:
  "flags_consistent (env_flags env) \<Longrightarrow> verify_finish env witness had stack \<noteq> AssertFail"
  by (auto simp: verify_finish_def flags_consistent_def Let_def)

section \<open>Properties\<close>

text \<open>C31: with flags in which clean stack implies witness and witness implies pay-to-script-hash,
  verification fails no assertion; the assertion \<^verbatim>\<open>!stack.empty()\<close> in front of the redeem script
  holds because the output script has consumed an element.\<close>

theorem VerifyScript_no_assert:
  assumes "flags_consistent (env_flags env)"
  shows "VerifyScript env scriptSig scriptPubKey witness \<noteq> AssertFail"
proof -
  let ?e = "verify_env env"
  note fin = verify_finish_assert [OF flags_consistent_verify_env [OF assms]]
  have p2sh: "verify_p2sh_stage ?e scriptSig scriptPubKey witness stk had s \<noteq> AssertFail"
    if "EvalScript ?e stk scriptPubKey = Ret (True, e, s1)" for stk e s1 had s
  proof (cases "IsPayToScriptHash scriptPubKey")
    case True
    with eval_p2sh [OF True that] obtain v t where "stk = v # t" by blast
    then show ?thesis
      by (auto simp: verify_p2sh_stage_def
          intro!: eval_then_assert check_true_assert verify_witness_stage_assert fin)
  qed (simp add: verify_p2sh_stage_def fin)
  have "verify_scripts ?e scriptSig scriptPubKey witness \<noteq> AssertFail"
    unfolding verify_scripts_def
    by (intro eval_then_assert check_true_assert verify_witness_stage_assert p2sh)
  moreover have "verify_god_mode ?e scriptSig scriptPubKey \<noteq> AssertFail"
    unfolding verify_god_mode_def by (intro eval_then_assert) (simp add: check_true_def split: list.split)
  ultimately show ?thesis by (simp add: VerifyScript_def Let_def)
qed

theorem VerifyScript_no_assert_witness:
  "VerifyScript (sample_env 0x801 0) [] [0x51] [] \<noteq> AssertFail"
  by (rule VerifyScript_no_assert) (simp add: flags_consistent_def has_flag_def)


text \<open>The redeem script of the witness pushes nineteen bytes.\<close>

lemma sample_p2sh_spend:
  assumes "length v = 19" and "CastToBool v"
  shows "VerifyScript (sample_env 1 0) (push_vch (push_vch v)) ([0xa9, 0x14] @ push_vch v @ [0x87]) [] =
    Ret (True, SCRIPT_ERR_OK)"
proof -
  let ?e = "verify_env (sample_env 1 0)"
  let ?spk = "[0xa9, 0x14] @ push_vch v @ [0x87]"
  have len: "length (push_vch v) = 20" using assms(1) by (simp add: push_vch_def)
  have flags: "env_flags ?e = 1" by (simp add: verify_env_def has_flag_def)
  then have min: "\<not> fRequireMinimal ?e" by (simp add: fRequireMinimal_def has_flag_def)
  have p2sh: "IsPayToScriptHash ?spk" using len by (simp add: IsPayToScriptHash_def nth_append)
  have "EvalScript ?e [push_vch v] ?spk = Ret (True, SCRIPT_ERR_OK, [[1]])"
    using eval_p2sh_eq [OF p2sh, of "[]" ?e "push_vch v"] len by simp
  moreover have "IsPushOnly (push_vch (push_vch v))"
    using pushes_scan [of "[push_vch v]" "push_vch (push_vch v)" "[]"] len by (simp add: IsPushOnly_def)
  ultimately show ?thesis
    using assms min flags len p2sh
    by (simp add: VerifyScript_def verify_scripts_def eval_then_def EvalScript_push check_true_def
        verify_witness_stage_def verify_p2sh_stage_def verify_finish_def has_flag_def god_mode_def)
qed


text \<open>C3: a version 0 witness program accepts only a witness that opens its commitment: for 32 bytes
  the last item is a script with that hash which leaves exactly one true value, for
  20 bytes the witness is a signature and a key with that hash and the signature verifies for
  the implied script.\<close>

theorem witness_v0_sound:
  assumes "VerifyWitnessProgram env witness 0 program = Ret (True, e)"
  defines "wenv \<equiv> env\<lparr>env_sigversion := SIGVERSION_WITNESS_V0\<rparr>"
  shows "(length program = 32 \<and> witness \<noteq> [] \<and> SHA256 (env_crypto env) (last witness) = program \<and>
      (\<exists>e1 x. EvalScript wenv (rev (butlast witness)) (last witness) = Ret (True, e1, [x]) \<and> CastToBool x)) \<or>
    (length program = 20 \<and> (\<exists>vchSig pk. witness = [vchSig, pk] \<and> Hash160 (env_crypto env) pk = program \<and>
      checksig_ok wenv vchSig pk (witness_p2pkh_script program)))"
proof -
  from assms(1) obtain script stack where
    v0: "witness_v0_program (env_crypto env) witness program = Inr (script, stack)" and
    ev: "\<exists>e1 x. EvalScript wenv stack script = Ret (True, e1, [x]) \<and> CastToBool x"
    by (auto simp: VerifyWitnessProgram_def wenv_def accept_simps length_Suc_conv
        split: sum.splits if_splits)
  consider "length program = 32" | "length program = 20" "length program \<noteq> 32"
    using v0 by (auto simp: witness_v0_program_def split: if_splits)
  then show ?thesis
  proof cases
    case 1
    with v0 ev show ?thesis by (auto simp: witness_v0_program_def Let_def split: if_splits)
  next
    case 2
    with v0 obtain vchSig pk where w: "witness = [vchSig, pk]"
      and s: "script = witness_p2pkh_script program" "stack = [pk, vchSig]"
      by (auto simp: witness_v0_program_def numeral_2_eq_2 length_Suc_conv split: if_splits)
    then have "Hash160 (env_crypto env) pk = program \<and> checksig_ok wenv vchSig pk script"
      using ev p2pkh_iff [OF 2(1), of "[]" wenv pk vchSig] by (auto simp: wenv_def)
    with 2 w s show ?thesis by simp
  qed
qed

theorem witness_v0_sound_witness:
  "SHA256 (env_crypto (sample_env 0x801 0)) (last [push_vch (replicate 31 1)]) = push_vch (replicate 31 1)"
proof -
  have "CastToBool (replicate 31 1)" by (simp add: numeral_nat)
  then have "VerifyWitnessProgram (sample_env 0x801 0) [push_vch (replicate 31 1)] 0
      (push_vch (replicate 31 1)) = Ret (True, SCRIPT_ERR_OK)"
    using EvalScript_push [of "(sample_env 0x801 0)\<lparr>env_sigversion := SIGVERSION_WITNESS_V0\<rparr>"
        "replicate 31 1" "[]"]
    by (simp add: VerifyWitnessProgram_def witness_v0_program_def eval_then_def fRequireMinimal_def
        has_flag_def) (simp add: push_vch_def)
  from witness_v0_sound [OF this] show ?thesis by simp
qed

text \<open>When the active chain has height \<^verbatim>\<open>ForkV4Height - 1\<close>, every script with every witness is
  accepted, unsatisfiable outputs included.\<close>

lemma fork_v4_accepts_all:
  assumes "chain_height (env_chain env) = ForkV4Height (env_chain env) - 1"
    and "\<not> god_mode (env_chain env)"
  shows "VerifyScript env scriptSig scriptPubKey witness = Ret (True, SCRIPT_ERR_OK)"
  using assms by (simp add: VerifyScript_def Let_def)



end
