(* ===== verification/StackTypes.thy ===== *)
theory StackTypes
  imports EvalProps
begin

text \<open>
  The type of the values on the stacks of \<open>EvalScript\<close>: byte vectors of at most
  \<^verbatim>\<open>MAX_SCRIPT_ELEMENT_SIZE\<close> bytes.  Every opcode of \<^verbatim>\<open>src/src/script/interpreter.cpp\<close> keeps
  the type, also on its error paths; the rest of the script that a contract opcode leaves has the type because
  \<^verbatim>\<open>MAX_SCRIPT_SIZE\<close> is smaller.
\<close>

section \<open>Typed stacks\<close>

definition sized :: "valtype list \<Rightarrow> bool" where
  "sized stk \<longleftrightarrow> (\<forall>v \<in> set stk. length v \<le> MAX_SCRIPT_ELEMENT_SIZE)"

lemma sized_simps [simp]:
  "sized []" "sized (v # stk) \<longleftrightarrow> length v \<le> MAX_SCRIPT_ELEMENT_SIZE \<and> sized stk"
  "sized (xs @ ys) \<longleftrightarrow> sized xs \<and> sized ys"
  by (auto simp: sized_def)

lemma sized_part: "sized stk \<Longrightarrow> sized (take n stk)" "sized stk \<Longrightarrow> sized (drop n stk)" "sized stk \<Longrightarrow> sized (tl stk)"
  "sized stk \<Longrightarrow> n < length stk \<Longrightarrow> length (stk ! n) \<le> MAX_SCRIPT_ELEMENT_SIZE"
  by (auto simp: sized_def dest: in_set_takeD in_set_dropD) (cases stk; auto)

definition typed_state :: "eval_state \<Rightarrow> bool" where
  "typed_state st \<longleftrightarrow> sized (st_stack st) \<and> sized (st_alt st) \<and> length (st_stack st) \<le> MAX_STACK_SIZE"

text \<open>What a step may leave: typed stacks, whether it continues or fails.\<close>

definition typed_step :: "step \<Rightarrow> bool" where
  "typed_step r = (case r of
     Next st \<Rightarrow> sized (st_stack st) \<and> sized (st_alt st)
   | Stop (Ret (b, e, stk)) \<Rightarrow> \<not> b \<and> sized stk
   | Stop _ \<Rightarrow> True)"

definition hash_sizes :: "script_crypto \<Rightarrow> bool" where
  "hash_sizes c \<longleftrightarrow> (\<forall>v. length (RIPEMD160 c v) = 20 \<and> length (SHA1 c v) = 20 \<and> length (SHA256 c v) = 32)"

lemma typed_step_simps [simp]:
  "typed_step (Next st) \<longleftrightarrow> sized (st_stack st) \<and> sized (st_alt st)"
  "typed_step (Stop (Ret (b, e, stk))) \<longleftrightarrow> \<not> b \<and> sized stk"
  "typed_step (Stop AssertFail)" "typed_step (Stop UndefinedBehaviour)"
  by (simp_all add: typed_step_def)

text \<open>Numbers that fit 64 bits have at most nine bytes.\<close>

lemma getvch_size: "\<bar>n\<bar> < 2 ^ 63 \<Longrightarrow> length (getvch n) \<le> MAX_SCRIPT_ELEMENT_SIZE"
proof -
  assume "\<bar>n\<bar> < 2 ^ 63"
  then have "length (getvch n) \<le> 9" by (subst length_serialize_le) auto
  then show ?thesis by simp
qed

lemma getvch_small [simp]: "length (getvch (of_bool b)) \<le> MAX_SCRIPT_ELEMENT_SIZE" "length (getvch 0) \<le> MAX_SCRIPT_ELEMENT_SIZE" "length (getvch 1) \<le> MAX_SCRIPT_ELEMENT_SIZE"
  using getvch_size [of "of_bool b"] getvch_size [of 0] getvch_size [of 1] by simp_all

section \<open>Every opcode keeps the type\<close>

named_theorems op_typed \<open>type of each opcode\<close>

lemma typed_control [op_typed]:
  assumes "typed_state st"
  shows "opcode = OP_1NEGATE \<or> (OP_1 \<le> opcode \<and> opcode \<le> OP_16) \<Longrightarrow> typed_step (op_push_value opcode st)"
    "typed_step (op_CHECKLOCKTIMEVERIFY env st)" "typed_step (op_CHECKSEQUENCEVERIFY env st)"
    "typed_step (op_upgradable_NOP env st)" "typed_step (op_IF env opcode fExec st)" "typed_step (op_ELSE st)"
    "typed_step (op_ENDIF st)" "typed_step (op_VERIFY st)"
  using assms getvch_size [of "int opcode - 80"]
  by (auto simp: typed_state_def op_push_value_def push_def op_CHECKLOCKTIMEVERIFY_def op_CHECKSEQUENCEVERIFY_def
      op_upgradable_NOP_def op_IF_def op_ELSE_def op_ENDIF_def op_VERIFY_def Let_def split: list.split sum.split)

lemma typed_moves [op_typed]:
  assumes "typed_state st"
  shows "typed_step (op_TOALTSTACK st)" "typed_step (op_FROMALTSTACK st)" "typed_step (op_EQUAL opcode st)"
  using assms by (auto simp: typed_state_def op_TOALTSTACK_def op_FROMALTSTACK_def op_EQUAL_def Let_def split: list.split)

lemma typed_pick [op_typed]:
  assumes "typed_state st"
  shows "typed_step (op_PICK_ROLL env opcode st)"
proof -
  have "length ((x # s) ! nat n) \<le> MAX_SCRIPT_ELEMENT_SIZE" if "sized (x # s)" "\<not> int (length (x # s)) \<le> n" "\<not> n < 0" for x s n
    using sized_part(4) [OF that(1), of "nat n"] that(2,3) by (simp add: nat_less_iff)
  then show ?thesis using assms
    by (auto simp: typed_state_def op_PICK_ROLL_def Let_def sized_part split: list.split sum.split)
qed

lemma sized_stack_ops:
  "op_stack opcode = Some f \<Longrightarrow> f stk = Some s \<Longrightarrow> sized stk \<Longrightarrow> length stk \<le> MAX_STACK_SIZE \<Longrightarrow> sized s"
  using getvch_size [of "int (length stk)"] getvch_size [of "int (length (hd stk))"] unfolding op_stack_def
  by (auto simp: op_2DROP_def op_2DUP_def op_3DUP_def op_2OVER_def op_2ROT_def op_2SWAP_def op_IFDUP_def op_DEPTH_def
      op_DROP_def op_DUP_def op_NIP_def op_OVER_def op_ROT_def op_SWAP_def op_TUCK_def op_SIZE_def
      split: if_splits list.splits)

lemma typed_stack_ops:
  "typed_state st \<Longrightarrow> op_stack opcode = Some f \<Longrightarrow> typed_step (stack_step st (f (st_stack st)))"
  using sized_stack_ops by (auto simp: stack_step_def typed_state_def split: option.split)

lemma unary_num_bound: "\<bar>n\<bar> < 2 ^ 31 \<Longrightarrow> unary_num opcode n = Some r \<Longrightarrow> \<bar>r\<bar> < 2 ^ 63"
  by (auto simp: unary_num_def num_add_assign_def num_sub_assign_def num_neg_def split: if_splits)

lemma binary_num_bound: "\<bar>m\<bar> < 2 ^ 31 \<Longrightarrow> \<bar>n\<bar> < 2 ^ 31 \<Longrightarrow> binary_num opcode m n = Some r \<Longrightarrow> \<bar>r\<bar> < 2 ^ 63"
  by (auto simp: binary_num_def split: if_splits)

lemma typed_numeric [op_typed]:
  assumes "typed_state st"
  shows "typed_step (op_unary_num env opcode st)" "typed_step (op_binary_num env opcode st)" "typed_step (op_WITHIN env st)"
proof -
  have u: "length (getvch r) \<le> MAX_SCRIPT_ELEMENT_SIZE" if "CScriptNum x b 4 = Inr n" "unary_num opcode n = Some r" for x b n r
    using getvch_size unary_num_bound CScriptNum_bound that by metis
  have b: "length (getvch r) \<le> MAX_SCRIPT_ELEMENT_SIZE" if "CScriptNum x b 4 = Inr m" "CScriptNum y b 4 = Inr n" "binary_num opcode m n = Some r"
    for x y b m n r using getvch_size binary_num_bound CScriptNum_bound that by metis
  show "typed_step (op_unary_num env opcode st)" "typed_step (op_binary_num env opcode st)" "typed_step (op_WITHIN env st)"
    using assms u b by (auto simp: typed_state_def op_unary_num_def op_binary_num_def op_WITHIN_def Let_def
        split: list.split sum.split option.split)
qed

lemma typed_hash [op_typed]:
  "typed_state st \<Longrightarrow> hash_sizes (env_crypto env) \<Longrightarrow> typed_step (op_hash env opcode st)"
  by (auto simp: typed_state_def op_hash_def hash_sizes_def Hash160_def Hash256_def Let_def split: list.split)

lemma typed_checksig [op_typed]: "typed_state st \<Longrightarrow> typed_step (op_CHECKSIG env script opcode st)"
  unfolding typed_state_def op_CHECKSIG_def Let_def
  by (cases "st_stack st" rule: remdups_adj.cases) (simp_all split: option.split guarded.split)

lemma sized_cleanup:
  "sized stk \<Longrightarrow> multisig_cleanup env fSuccess n ikey2 stk = Inl s \<Longrightarrow> sized s"
  "sized stk \<Longrightarrow> multisig_cleanup env fSuccess n ikey2 stk = Inr s \<Longrightarrow> sized s"
  by (induction env fSuccess n ikey2 stk rule: multisig_cleanup.induct) (auto simp: sized_part split: if_splits)

lemma typed_multisig_result:
  "typed_state st \<Longrightarrow> sized stk \<Longrightarrow> typed_step (multisig_result env opcode fSuccess st stk)"
  by (auto simp: typed_state_def multisig_result_def split: list.split)

lemma typed_guarded:
  "typed_state st \<Longrightarrow> (\<And>x. r = Pass x \<Longrightarrow> typed_step (f x)) \<Longrightarrow>
   typed_step (case r of OutOfBounds \<Rightarrow> Stop UndefinedBehaviour | Reject e \<Rightarrow> fail st e | Pass x \<Rightarrow> f x)"
  by (cases r) (auto simp: typed_state_def)

lemma typed_cleanup:
  assumes "typed_state st"
  shows "typed_step (case multisig_cleanup env fSuccess i j (st_stack st) of
      Inl stk \<Rightarrow> fail (st\<lparr>st_stack := stk\<rparr>) e | Inr stk \<Rightarrow> multisig_result env opcode fSuccess st stk)"
proof (cases "multisig_cleanup env fSuccess i j (st_stack st)")
  case (Inl stk)
  then show ?thesis using assms sized_cleanup(1) [OF _ Inl] by (simp add: typed_state_def)
next
  case (Inr stk)
  then show ?thesis using assms sized_cleanup(2) [OF _ Inr] by (simp add: typed_multisig_result typed_state_def)
qed

lemma typed_multisig_run:
  assumes "typed_state st"
  shows "typed_step (multisig_run env script opcode k m st)"
  unfolding multisig_run_def Let_def by (intro typed_guarded typed_cleanup assms)

lemma typed_multisig [op_typed]: "typed_state st \<Longrightarrow> typed_step (op_CHECKMULTISIG env script opcode st)"
  using typed_multisig_run [of "st\<lparr>st_ops := _\<rparr>"]
  by (auto simp: typed_state_def op_CHECKMULTISIG_def Let_def split: sum.split)

lemma typed_if:
  "(c \<Longrightarrow> typed_step a) \<Longrightarrow> (\<not> c \<Longrightarrow> typed_step b) \<Longrightarrow> typed_step (if c then a else b)"
  by simp

lemma typed_exec_op:
  assumes "typed_state st" and "hash_sizes (env_crypto env)" and "\<not> is_contract_op opcode"
  shows "typed_step (exec_op env script fExec opcode st)"
proof -
  have "typed_step (Next st)" "typed_step (Next (st\<lparr>st_codehash := st_pc st\<rparr>))" "\<And>e. typed_step (fail st e)"
    using assms(1) by (simp_all add: typed_state_def)
  moreover have "typed_step (stack_step st (the (op_stack opcode) (st_stack st)))" if "op_stack opcode \<noteq> None"
    using typed_stack_ops [OF assms(1)] that by force
  ultimately show ?thesis
    unfolding exec_op_def using assms(2,3) by (intro typed_if op_typed [OF assms(1)]) simp_all
qed

section \<open>Whole scripts\<close>

definition sized_result :: "eval_result \<Rightarrow> bool" where
  "sized_result res = (case res of Ret (b, e, stk) \<Rightarrow> sized stk | _ \<Rightarrow> True)"

lemma contract_op_exec:
  "is_contract_op opcode \<Longrightarrow> exec_op env script fExec opcode st = op_contract script st"
  unfolding is_contract_op_def by (elim disjE) (simp_all add: exec_op_def op_stack_def is_contract_op_def)

lemma exec_op_result:
  assumes "typed_state st" and "hash_sizes (env_crypto env)" and "length script \<le> MAX_SCRIPT_ELEMENT_SIZE"
  shows "case exec_op env script fExec opcode st of
    Next st' \<Rightarrow> sized (st_stack st') \<and> sized (st_alt st') | Stop res \<Rightarrow> sized_result res"
proof (cases "is_contract_op opcode")
  case True
  then show ?thesis using assms(1,3)
    by (simp add: contract_op_exec op_contract_def sized_result_def typed_state_def)
next
  case False
  from typed_exec_op [OF assms(1,2) this, of script fExec] show ?thesis
    by (auto simp: typed_step_def sized_result_def split: step.splits outcome.splits)
qed

lemma size_limit_result:
  "(case r of Next st \<Rightarrow> sized (st_stack st) \<and> sized (st_alt st) | Stop res \<Rightarrow> sized_result res) \<Longrightarrow>
   (case size_limit r of Next st \<Rightarrow> typed_state st | Stop res \<Rightarrow> sized_result res)"
  by (auto simp: size_limit_def typed_state_def sized_result_def split: step.splits)

lemma eval_step_result:
  assumes "typed_state st" and "hash_sizes (env_crypto env)" and "length script \<le> MAX_SCRIPT_ELEMENT_SIZE"
  shows "case eval_step env script st of Next st' \<Rightarrow> typed_state st' | Stop res \<Rightarrow> sized_result res"
proof -
  obtain fRet pc' opcode vch where op: "GetOp2 script (st_pc st) = (fRet, pc', opcode, vch)"
    by (cases "GetOp2 script (st_pc st)")
  define st1 where "st1 = st\<lparr>st_pc := pc', st_ops := (if opcode > OP_16 then st_ops st + 1 else st_ops st)\<rparr>"
  have st1: "typed_state st1" using assms(1) by (simp add: typed_state_def st1_def)
  from eval_step_cases [OF op, of env]
  consider e where "eval_step env script st = Stop (Ret (False, e, st_stack st))"
    | "length vch \<le> MAX_SCRIPT_ELEMENT_SIZE" "eval_step env script st = size_limit (Next (push st1 vch))"
    | fExec where "eval_step env script st = size_limit (exec_op env script fExec opcode st1)"
    | "eval_step env script st = size_limit (Next st1)"
    unfolding st1_def [symmetric] by blast
  then show ?thesis
  proof cases
    case 1
    then show ?thesis using assms(1) by (simp add: sized_result_def typed_state_def)
  next
    case 2
    then show ?thesis using st1 by (auto simp: push_def typed_state_def intro: size_limit_result)
  next
    case 3
    then show ?thesis using size_limit_result [OF exec_op_result [OF st1 assms(2,3)]] by simp
  next
    case 4
    then show ?thesis using st1 by (auto simp: typed_state_def intro: size_limit_result)
  qed
qed


definition short_hashes :: script_env where
  "short_hashes = (sample_env 0 0)\<lparr>env_crypto := sample_crypto\<lparr>RIPEMD160 := \<lambda>_. replicate 20 1,
     SHA1 := \<lambda>_. replicate 20 2, SHA256 := \<lambda>_. replicate 32 3\<rparr>\<rparr>"


end
