(* ===== verification/SigEncoding.thy ===== *)
theory SigEncoding
  imports Interpreter
begin

text \<open>
  Two specifications for the byte level tests of the interpreter: truth of a stack element is
  being a nonzero number, and \<open>IsValidSignatureEncoding\<close> accepts exactly the strict DER
  encodings of a pair of positive integers followed by a hash type.
\<close>

section \<open>Truth values\<close>

lemma CastToBool_iff:
  "CastToBool vch \<longleftrightarrow> vch \<noteq> [] \<and> (le_nat (butlast vch) \<noteq> 0 \<or> unat (last vch) mod 128 \<noteq> 0)"
proof (induction vch)
  case (Cons b bs)
  show ?case
  proof (cases "bs = []")
    case True
    have "unat b mod 128 = 0 \<longleftrightarrow> b = 0 \<or> b = 0x80"
    proof -
      have "unat b mod 128 = 0 \<longleftrightarrow> unat b = 0 \<or> unat b = 128"
        using unat_byte_less [of b] by (auto simp: byte_mod_128)
      then show ?thesis by (simp add: word_unat_eq_iff)
    qed
    with True show ?thesis by auto
  next
    case False
    with Cons.IH show ?thesis by (auto simp: unat_eq_zero)
  qed
qed simp

text \<open>A stack element of at most eight bytes is true for the interpreter exactly when it is a nonzero number; all
  encodings of zero, negative zero included, are false.\<close>

lemma CastToBool_nonzero:
  assumes "length vch \<le> 8"
  shows "CastToBool vch \<longleftrightarrow> set_vch vch \<noteq> 0"
proof (cases "vch = []")
  case False
  have "set_vch vch \<noteq> 0 \<longleftrightarrow> magnitude vch \<noteq> 0"
    using set_vch_sign_magnitude [OF False assms] by simp
  with False show ?thesis by (simp add: CastToBool_iff magnitude_def)
qed (simp add: set_vch_def)

section \<open>Strict DER\<close>

text \<open>A positive integer in the fewest bytes, most significant byte first, and the encoding of a
  signature with its hash type.\<close>

definition der_int :: "bytes \<Rightarrow> bool" where
  "der_int R \<longleftrightarrow> R \<noteq> [] \<and> unat (R ! 0) < 128 \<and> \<not> (1 < length R \<and> R ! 0 = 0 \<and> unat (R ! 1) < 128)"

definition der_signature :: "bytes \<Rightarrow> bytes \<Rightarrow> byte \<Rightarrow> bytes" where
  "der_signature R S hashtype =
     [0x30, of_nat (length R + length S + 4)] @
     [0x02, of_nat (length R)] @ R @ [0x02, of_nat (length S)] @ S @ [hashtype]"

lemma length_der_signature [simp]: "length (der_signature R S h) = length R + length S + 7"
  by (simp add: der_signature_def)

lemma nth_der_signature:
  fixes h :: byte
  assumes "length R + length S \<le> 66"
  defines "sig \<equiv> der_signature R S h"
  shows "sig ! 0 = 0x30" "unat (sig ! 1) = length R + length S + 4" "sig ! 2 = 0x02"
    "unat (sig ! 3) = length R" "i < length R \<Longrightarrow> sig ! (4 + i) = R ! i"
    "sig ! (length R + 4) = 0x02" "unat (sig ! (5 + length R)) = length S"
    "j < length S \<Longrightarrow> sig ! (length R + 6 + j) = S ! j" "sig ! (length R + length S + 6) = h"
  using assms(1) by (simp_all add: sig_def der_signature_def nth_append nth_Cons' add.commute del: of_nat_add)

lemma der_signature_valid:
  assumes "der_int R" and "der_int S" and "length R + length S \<le> 66"
  shows "IsValidSignatureEncoding (der_signature R S h)"
proof -
  let ?s = "der_signature R S h"
  note n = nth_der_signature [OF assms(3), where h = h]
  have len: "0 < length R" "0 < length S" using assms(1,2) by (auto simp: der_int_def)
  have R: "?s ! 4 = R ! 0" "1 < length R \<Longrightarrow> ?s ! 5 = R ! 1"
    using n(5) [of 0] n(5) [of 1] len by simp_all
  have S: "?s ! (length R + 6) = S ! 0" "1 < length S \<Longrightarrow> ?s ! (length R + 7) = S ! 1"
    using n(8) [of 0] n(8) [of 1] len by (simp_all add: ac_simps)
  have "\<not> length R + length S < 2" using len by linarith
  then show ?thesis
    using assms R S n(1-4,6,7) by (simp add: IsValidSignatureEncoding_def Let_def der_int_def)
qed

lemma valid_der_signature:
  assumes "IsValidSignatureEncoding sig"
  shows "\<exists>R S h. der_int R \<and> der_int S \<and> length R + length S \<le> 66 \<and> sig = der_signature R S h"
proof -
  let ?r = "unat (sig ! 3)"
  let ?l = "unat (sig ! (5 + ?r))"
  have s: "9 \<le> length sig" "length sig \<le> 73" "sig ! 0 = 0x30" "unat (sig ! 1) = length sig - 3"
    "?r + ?l + 7 = length sig" "sig ! 2 = 0x02" "0 < ?r" "unat (sig ! 4) < 128"
    "\<not> (1 < ?r \<and> sig ! 4 = 0 \<and> unat (sig ! 5) < 128)" "sig ! (?r + 4) = 0x02" "0 < ?l"
    "unat (sig ! (?r + 6)) < 128" "\<not> (1 < ?l \<and> sig ! (?r + 6) = 0 \<and> unat (sig ! (?r + 7)) < 128)"
    using assms by (simp_all add: IsValidSignatureEncoding_def Let_def not_less split: if_splits)
  define R where "R = take ?r (drop 4 sig)"
  define S where "S = take ?l (drop (?r + 6) sig)"
  define h where "h = sig ! (length sig - 1)"
  have len: "length R = ?r" "length S = ?l" using s(5) by (simp_all add: R_def S_def)
  have le: "length R + length S \<le> 66" using len s(2,5) by linarith
  have R: "R ! i = sig ! (4 + i)" if "i < ?r" for i using that s(5) by (simp add: R_def)
  have S: "S ! i = sig ! (?r + 6 + i)" if "i < ?l" for i using that s(5) by (simp add: S_def)
  have "der_int R" "der_int S"
    using len s R [of 0] R [of 1] S [of 0] S [of 1] unfolding der_int_def by (auto simp: ac_simps)
  moreover have "sig = der_signature R S h"
  proof (rule nth_equalityI)
    show "length sig = length (der_signature R S h)" using len s(5) by simp
    note n = nth_der_signature [OF le, where h = h]
    fix i assume "i < length sig"
    with s(5) consider "i = 0" | "i = 1" | "i = 2" | "i = 3" | j where "i = 4 + j" "j < ?r"
      | "i = ?r + 4" | "i = 5 + ?r" | j where "i = ?r + 6 + j" "j < ?l" | "i = ?r + ?l + 6"
      by atomize_elim presburger
    then show "sig ! i = der_signature R S h ! i"
    proof cases
      case 2 with n(2) s(4,5) len show ?thesis by (simp add: word_unat_eq_iff)
    next
      case 4 with n(4) len show ?thesis by (simp add: word_unat_eq_iff)
    next
      case (5 j) with n(5) [of j] R len show ?thesis by simp
    next
      case 7 with n(7) len show ?thesis by (simp add: word_unat_eq_iff)
    next
      case (8 j) with n(8) [of j] S len show ?thesis by simp
    next
      case 9 with n(9) len s(5) h_def show ?thesis by (metis add_diff_cancel_right' eval_nat_numeral(3) add_Suc_right diff_Suc_1 One_nat_def)
    qed (use n len s in auto)
  qed
  ultimately show ?thesis using le by blast
qed

text \<open>C5: \<open>IsValidSignatureEncoding\<close> accepts exactly the strict DER signatures of at most 73 bytes
  with one byte of hash type.\<close>

theorem signature_encoding_der:
  "IsValidSignatureEncoding sig \<longleftrightarrow>
    (\<exists>R S h. der_int R \<and> der_int S \<and> length R + length S \<le> 66 \<and> sig = der_signature R S h)"
  using der_signature_valid valid_der_signature by blast

end
