(* ===== verification/Serialize.thy ===== *)
theory Serialize
  imports Prelude "HOL-Library.Monad_Syntax"
begin

text \<open>
  The stream formats of \<^verbatim>\<open>src/src/serialize.h\<close>: fixed width integers, compact sizes, variable length
  integers, and vectors.  A writer is a function to bytes; a reader takes the bytes left in the
  stream and returns a value with the rest, \<^const>\<open>None\<close> being the exception
  \<^verbatim>\<open>std::ios_base::failure\<close>.  The locale \<open>codec\<close> is the contract between a writer and its reader, and
  \<open>strict_codec\<close> the stronger one of a format with a single encoding per value.
\<close>

section \<open>Integers of fixed width\<close>

type_synonym 'a reader = "bytes \<Rightarrow> ('a \<times> bytes) option"

definition read_bytes :: "nat \<Rightarrow> bytes reader" where
  "read_bytes n s = (if length s < n then None else Some (take n s, drop n s))"

definition ser_writedata8 :: "8 word \<Rightarrow> bytes" where "ser_writedata8 obj = [obj]"
definition ser_writedata16 :: "16 word \<Rightarrow> bytes" where "ser_writedata16 obj = le_bytes 2 (unat obj)"
definition ser_writedata32 :: "32 word \<Rightarrow> bytes" where "ser_writedata32 obj = le_bytes 4 (unat obj)"
definition ser_writedata64 :: "64 word \<Rightarrow> bytes" where "ser_writedata64 obj = le_bytes 8 (unat obj)"

definition ser_readdata8 :: "8 word reader" where
  "ser_readdata8 s = do { (b, s) \<leftarrow> read_bytes 1 s; Some (b ! 0, s) }"

definition ser_readdata16 :: "16 word reader" where
  "ser_readdata16 s = do { (b, s) \<leftarrow> read_bytes 2 s; Some (of_nat (le_nat b), s) }"

definition ser_readdata32 :: "32 word reader" where
  "ser_readdata32 s = do { (b, s) \<leftarrow> read_bytes 4 s; Some (of_nat (le_nat b), s) }"

definition ser_readdata64 :: "64 word reader" where
  "ser_readdata64 s = do { (b, s) \<leftarrow> read_bytes 8 s; Some (of_nat (le_nat b), s) }"

section \<open>Compact sizes\<close>

abbreviation (input) MAX_SIZE :: nat where "MAX_SIZE \<equiv> 0x02000000"

definition GetSizeOfCompactSize :: "64 word \<Rightarrow> nat" where
  "GetSizeOfCompactSize nSize =
     (if nSize < 253 then 1
      else if nSize \<le> 0xffff then 1 + 2
      else if nSize \<le> 0xffffffff then 1 + 4
      else 1 + 8)"

definition WriteCompactSize :: "64 word \<Rightarrow> bytes" where
  "WriteCompactSize nSize =
     (if nSize < 253 then ser_writedata8 (ucast nSize)
      else if nSize \<le> 0xffff then ser_writedata8 253 @ ser_writedata16 (ucast nSize)
      else if nSize \<le> 0xffffffff then ser_writedata8 254 @ ser_writedata32 (ucast nSize)
      else ser_writedata8 255 @ ser_writedata64 nSize)"

definition ReadCompactSize :: "64 word reader" where
  "ReadCompactSize s = do {
     (chSize, s) \<leftarrow> ser_readdata8 s;
     (nSizeRet, s) \<leftarrow>
       (if chSize < 253 then Some (ucast chSize, s)
        else if chSize = 253 then do {
          (n, s) \<leftarrow> ser_readdata16 s;
          if n < 253 then None else Some (ucast n, s) }
        else if chSize = 254 then do {
          (n, s) \<leftarrow> ser_readdata32 s;
          if n < 0x10000 then None else Some (ucast n, s) }
        else do {
          (n, s) \<leftarrow> ser_readdata64 s;
          if n < 0x100000000 then None else Some (n, s) });
     if nSizeRet > of_nat MAX_SIZE then None else Some (nSizeRet, s) }"

section \<open>Variable length integers\<close>

text \<open>The digits, most significant first: \<open>first\<close> says that no digit has been written yet.\<close>

function var_int_digits :: "nat \<Rightarrow> bool \<Rightarrow> bytes" where
  "var_int_digits n first =
     (let tmp = of_nat (n mod 128) OR (if first then 0 else 0x80)
      in if n \<le> 0x7F then [tmp] else var_int_digits (n div 128 - 1) False @ [tmp])"
  by pat_completeness auto
termination by (relation "measure fst") auto

declare var_int_digits.simps [simp del]

definition WriteVarInt :: "nat \<Rightarrow> bytes" where
  "WriteVarInt n = var_int_digits n True"

function GetSizeOfVarInt :: "nat \<Rightarrow> nat" where
  "GetSizeOfVarInt n = (if n \<le> 0x7F then 1 else 1 + GetSizeOfVarInt (n div 128 - 1))"
  by pat_completeness auto
termination by (relation "measure id") auto

declare GetSizeOfVarInt.simps [simp del]

text \<open>\<open>maxI\<close> is \<^verbatim>\<open>std::numeric_limits<I>::max()\<close> of the integer type read.\<close>

fun read_var_int :: "nat \<Rightarrow> nat \<Rightarrow> nat reader" where
  "read_var_int maxI n [] = None"
| "read_var_int maxI n (chData # s) =
     (if n > maxI div 128 then None
      else let n = n * 128 + unat (chData AND 0x7F)
        in if chData AND 0x80 \<noteq> 0
           then (if n = maxI then None else read_var_int maxI (n + 1) s)
           else Some (n, s))"

definition ReadVarInt :: "nat \<Rightarrow> nat reader" where
  "ReadVarInt maxI s = read_var_int maxI 0 s"

section \<open>Vectors\<close>

definition ser_bytes :: "bytes \<Rightarrow> bytes" where
  "ser_bytes v = WriteCompactSize (of_nat (length v)) @ v"

text \<open>The bytes of a vector are read in blocks, so that a wrong size does not reserve memory.\<close>

function read_blocks :: "nat \<Rightarrow> nat \<Rightarrow> bytes \<Rightarrow> bytes reader" where
  "read_blocks nSize i v s =
     (if i < nSize then
        (let blk = min (nSize - i) (1 + 4999999)
         in case read_bytes blk s of
              None \<Rightarrow> None
            | Some (b, s) \<Rightarrow> read_blocks nSize (i + blk) (v @ b) s)
      else Some (v, s))"
  by pat_completeness auto
termination
proof (relation "measure (\<lambda>(nSize, i, _, _). nSize - i)")
  fix nSize i v s blk x2 x y
  assume "i < nSize" and "blk = min (nSize - i) (1 + 4999999 :: nat)"
  then have "0 < blk" by simp
  with \<open>i < nSize\<close> show "((nSize, i + blk, v @ x, y), nSize, i, v, s) \<in>
      measure (\<lambda>(nSize, i, _, _). nSize - i)" by simp
qed simp

declare read_blocks.simps [simp del]

definition unser_bytes :: "bytes reader" where
  "unser_bytes s = do { (nSize, s) \<leftarrow> ReadCompactSize s; read_blocks (unat nSize) 0 [] s }"

definition ser_vector :: "('a \<Rightarrow> bytes) \<Rightarrow> 'a list \<Rightarrow> bytes" where
  "ser_vector ser v = WriteCompactSize (of_nat (length v)) @ concat (map ser v)"

primrec read_elements :: "'a reader \<Rightarrow> nat \<Rightarrow> 'a list reader" where
  "read_elements unser 0 s = Some ([], s)"
| "read_elements unser (Suc n) s = do {
     (x, s) \<leftarrow> unser s;
     (xs, s) \<leftarrow> read_elements unser n s;
     Some (x # xs, s) }"

definition unser_vector :: "'a reader \<Rightarrow> 'a list reader" where
  "unser_vector unser s = do { (nSize, s) \<leftarrow> ReadCompactSize s; read_elements unser (unat nSize) s }"

section \<open>Contracts of a writer and its reader\<close>

locale codec =
  fixes enc :: "'a \<Rightarrow> bytes" and dec :: "'a reader" and valid :: "'a \<Rightarrow> bool"
  assumes dec_enc: "valid x \<Longrightarrow> dec (enc x @ rest) = Some (x, rest)"
begin

lemma dec_enc_end: "valid x \<Longrightarrow> dec (enc x) = Some (x, [])"
  using dec_enc [of x "[]"] by simp

lemma enc_append_inj:
  assumes "valid x" and "valid y" and "enc x @ r = enc y @ r'"
  shows "x = y \<and> r = r'"
proof -
  have "Some (x, r) = dec (enc y @ r')" using dec_enc [OF assms(1), of r] assms(3) by metis
  then show ?thesis using dec_enc [OF assms(2), of r'] by simp
qed

lemma read_elements_enc:
  "\<forall>x \<in> set xs. valid x \<Longrightarrow>
   read_elements dec (length xs) (concat (map enc xs) @ rest) = Some (xs, rest)"
proof (induction xs)
  case (Cons x xs)
  have "dec (enc x @ concat (map enc xs) @ rest) = Some (x, concat (map enc xs) @ rest)"
    using Cons.prems by (intro dec_enc) simp
  with Cons show ?case by simp
qed simp

end

locale strict_codec = codec +
  assumes dec_sound: "dec s = Some (x, rest) \<Longrightarrow> valid x \<and> s = enc x @ rest"
begin

lemma dec_iff: "dec s = Some (x, rest) \<longleftrightarrow> valid x \<and> s = enc x @ rest"
  using dec_sound dec_enc by blast

lemma read_elements_sound:
  "read_elements dec n s = Some (xs, rest) \<Longrightarrow>
   length xs = n \<and> (\<forall>x \<in> set xs. valid x) \<and> s = concat (map enc xs) @ rest"
proof (induction n arbitrary: s xs)
  case (Suc n)
  then obtain x s1 ys where "dec s = Some (x, s1)" "read_elements dec n s1 = Some (ys, rest)" "xs = x # ys"
    by (auto simp: bind_eq_Some_conv)
  with Suc.IH [of s1 ys] dec_sound [of s x s1] show ?case by simp
qed simp

end

section \<open>The integer formats satisfy the strict contract\<close>

lemma read_bytes_append [simp]: "length b = n \<Longrightarrow> read_bytes n (b @ rest) = Some (b, rest)"
  by (simp add: read_bytes_def)

lemma read_bytes_iff: "read_bytes n s = Some (b, rest) \<longleftrightarrow> length b = n \<and> s = b @ rest"
  by (auto simp: read_bytes_def)

lemma le_bytes_word:
  assumes "8 * n = LENGTH('a)"
  shows "of_nat (le_nat (le_bytes n (unat (w :: 'a::len word)))) = w"
proof -
  have "(256 :: nat) ^ n = 2 ^ LENGTH('a)" by (simp add: power_mult flip: assms)
  then show ?thesis by (simp add: le_nat_le_bytes)
qed

lemma le_bytes_of_bytes:
  assumes "8 * length b = LENGTH('a)"
  shows "le_bytes (length b) (unat (of_nat (le_nat b) :: 'a::len word)) = b"
proof -
  have "le_nat b < 2 ^ LENGTH('a)" using le_nat_less [of b] by (simp add: power_mult flip: assms)
  then show ?thesis by (simp add: unat_of_nat le_bytes_le_nat)
qed

lemmas read_fixed = read_bytes_iff bind_eq_Some_conv

interpretation word8: strict_codec ser_writedata8 ser_readdata8 "\<lambda>_. True"
  by unfold_locales
    (auto simp: ser_writedata8_def ser_readdata8_def read_fixed length_Suc_conv)

lemma fixed_codec:
  fixes enc :: "'a::len word \<Rightarrow> bytes"
  assumes n: "8 * n = LENGTH('a)" and enc: "\<And>w. enc w = le_bytes n (unat w)"
    and dec: "\<And>s. dec s = do { (b, s) \<leftarrow> read_bytes n s; Some (of_nat (le_nat b), s) }"
  shows "strict_codec enc dec (\<lambda>_. True)"
proof
  show "dec (enc x @ rest) = Some (x, rest)" for x rest
    by (simp add: enc dec le_bytes_word [OF n])
next
  fix s x rest assume "dec s = Some (x, rest)"
  then obtain b where b: "length b = n" "s = b @ rest" and "x = of_nat (le_nat b)"
    by (auto simp: dec read_fixed)
  then have "enc x = b" using le_bytes_of_bytes [of b, where ?'a = 'a] n by (simp add: enc)
  with b show "True \<and> s = enc x @ rest" by simp
qed

interpretation word16: strict_codec ser_writedata16 ser_readdata16 "\<lambda>_. True"
  by (rule fixed_codec [of 2]) (simp_all add: ser_writedata16_def ser_readdata16_def)

interpretation word32: strict_codec ser_writedata32 ser_readdata32 "\<lambda>_. True"
  by (rule fixed_codec [of 4]) (simp_all add: ser_writedata32_def ser_readdata32_def)

interpretation word64: strict_codec ser_writedata64 ser_readdata64 "\<lambda>_. True"
  by (rule fixed_codec [of 8]) (simp_all add: ser_writedata64_def ser_readdata64_def)

text \<open>Narrowing a word that is small enough keeps its value.\<close>

lemma unat_ucast_small:
  "unat (w :: 'a::len word) < 2 ^ LENGTH('b) \<Longrightarrow> unat (ucast w :: 'b::len word) = unat w"
  by (simp add: unsigned_ucast_eq take_bit_nat_eq_self)

lemma unat_ucast_wide [simp]:
  assumes "LENGTH('a) \<le> LENGTH('b)"
  shows "unat (ucast (w :: 'a::len word) :: 'b::len word) = unat w"
proof (rule unat_ucast_small)
  have "unat w < 2 ^ LENGTH('a)" by (rule unsigned_less)
  also have "\<dots> \<le> 2 ^ LENGTH('b)" using assms by (rule power_increasing) simp
  finally show "unat w < 2 ^ LENGTH('b)" .
qed

lemma ucast_ucast_small:
  "unat (w :: 'a::len word) < 2 ^ LENGTH('b) \<Longrightarrow> LENGTH('b) \<le> LENGTH('a) \<Longrightarrow>
   ucast (ucast w :: 'b::len word) = w"
  by (simp add: word_unat_eq_iff unat_ucast_small)

lemma ucast_wide_ucast [simp]:
  assumes "LENGTH('a) \<le> LENGTH('b)"
  shows "ucast (ucast (w :: 'a::len word) :: 'b::len word) = w"
  using unat_ucast_wide [OF assms, of w] unsigned_less [of w, where ?'a = nat]
  by (simp add: word_unat_eq_iff unat_ucast_small)

section \<open>Compact sizes have one encoding\<close>

lemma ser_readdata8_Cons [simp]: "ser_readdata8 (b # s) = Some (b, s)"
  by (simp add: ser_readdata8_def read_bytes_def)

lemma ReadCompactSize_Write:
  assumes "unat n \<le> MAX_SIZE"
  shows "ReadCompactSize (WriteCompactSize n @ rest) = Some (n, rest)"
proof -
  consider "n < 253" | "\<not> n < 253" "n \<le> 0xffff" | "\<not> n \<le> 0xffff" "n \<le> 0xffffffff"
    using assms by (fastforce simp: word_le_nat_alt word_less_nat_alt)
  then show ?thesis
  proof cases
    case 1
    then have "(ucast n :: byte) < 253" "ucast (ucast n :: byte) = n"
      by (simp_all add: word_less_nat_alt unat_ucast_small ucast_ucast_small)
    with 1 assms show ?thesis
      by (simp add: WriteCompactSize_def ReadCompactSize_def ser_writedata8_def word_le_nat_alt
          flip: not_le)
  next
    case 2
    then have "\<not> (ucast n :: 16 word) < 253" "ucast (ucast n :: 16 word) = n"
      by (simp_all add: word_less_nat_alt word_le_nat_alt unat_ucast_small ucast_ucast_small)
    with 2 assms word16.dec_enc [of "ucast n" rest] show ?thesis
      by (simp add: WriteCompactSize_def ReadCompactSize_def ser_writedata8_def word_le_nat_alt
          flip: not_le)
  next
    case 3
    then have "\<not> (ucast n :: 32 word) < 0x10000" "ucast (ucast n :: 32 word) = n" "\<not> n < 253"
      by (simp_all add: word_less_nat_alt word_le_nat_alt unat_ucast_small ucast_ucast_small)
    with 3 assms word32.dec_enc [of "ucast n" rest] show ?thesis
      by (simp add: WriteCompactSize_def ReadCompactSize_def ser_writedata8_def word_le_nat_alt
          flip: not_le)
  qed
qed

lemma ReadCompactSize_sound:
  assumes "ReadCompactSize s = Some (n, rest)"
  shows "unat n \<le> MAX_SIZE \<and> s = WriteCompactSize n @ rest"
proof -
  from assms obtain ch s1 where s: "s = ch # s1" and n: "unat n \<le> MAX_SIZE"
    by (cases s) (auto simp: ReadCompactSize_def bind_eq_Some_conv ser_readdata8_def read_bytes_def
        word_less_nat_alt word_le_nat_alt not_less split: if_splits)
  consider "ch < 253" | "ch = 253" | "ch = 254" | "ch = 255"
    by (auto simp: word_less_nat_alt word_unat_eq_iff) (use unat_byte_less [of ch] in linarith)
  then show ?thesis
  proof cases
    case 1
    with assms s have "n = ucast ch" "rest = s1" by (auto simp: ReadCompactSize_def split: if_splits)
    with 1 s n show ?thesis
      by (simp add: WriteCompactSize_def ser_writedata8_def word_less_nat_alt)
  next
    case 2
    with assms s obtain w where "ser_readdata16 s1 = Some (w, rest)" "\<not> w < 253" "n = ucast w"
      by (auto simp: ReadCompactSize_def bind_eq_Some_conv split: if_splits)
    with 2 s n word16.dec_sound [of s1 w rest] unsigned_less [of w, where ?'a = nat] show ?thesis
      by (simp add: WriteCompactSize_def ser_writedata8_def word_less_nat_alt word_le_nat_alt)
  next
    case 3
    with assms s obtain w where "ser_readdata32 s1 = Some (w, rest)" "\<not> w < 0x10000" "n = ucast w"
      by (auto simp: ReadCompactSize_def bind_eq_Some_conv split: if_splits)
    with 3 s n word32.dec_sound [of s1 w rest] unsigned_less [of w, where ?'a = nat] show ?thesis
      by (simp add: WriteCompactSize_def ser_writedata8_def word_less_nat_alt word_le_nat_alt)
  next
    case 4
    with assms s obtain w where "ser_readdata64 s1 = Some (w, rest)" "\<not> w < 0x100000000" "n = w"
      by (auto simp: ReadCompactSize_def bind_eq_Some_conv split: if_splits)
    with n show ?thesis by (simp add: word_less_nat_alt)
  qed
qed

interpretation compact: strict_codec WriteCompactSize ReadCompactSize "\<lambda>n. unat n \<le> MAX_SIZE"
  by unfold_locales (auto dest: ReadCompactSize_sound simp: ReadCompactSize_Write)

lemma length_WriteCompactSize: "length (WriteCompactSize n) = GetSizeOfCompactSize n"
  by (simp add: WriteCompactSize_def GetSizeOfCompactSize_def ser_writedata8_def ser_writedata16_def
      ser_writedata32_def ser_writedata64_def)

section \<open>Variable length integers have one encoding\<close>

lemma byte_low_bits: "of_nat (unat (b :: byte) mod 128) OR (if unat b < 128 then 0 else 0x80) = b"
proof (cases "unat b < 128")
  case False
  have "unat (of_nat (unat b mod 128) OR 0x80 :: byte) = unat b mod 128 + 128"
    by (subst unat_or_0x80) simp_all
  also have "\<dots> = unat b" using False by (simp add: byte_mod_128)
  finally show ?thesis using False by (simp add: word_unat_eq_iff)
qed simp

lemma read_var_int_more:
  "n < maxI \<Longrightarrow> read_var_int maxI 0 (var_int_digits n False @ s) = read_var_int maxI (n + 1) s"
proof (induction n arbitrary: s rule: less_induct)
  case (less n)
  let ?b = "of_nat (n mod 128) OR 0x80 :: byte"
  have b: "unat ?b = n mod 128 + 128" by (subst unat_or_0x80) simp_all
  show ?case
  proof (cases "n \<le> 0x7F")
    case True
    with less.prems b show ?thesis by (subst var_int_digits.simps) (simp add: Let_def)
  next
    case False
    let ?m = "n div 128 - 1"
    have m: "?m < n" "?m + 1 = n div 128" "n div 128 * 128 + n mod 128 = n" "n div 128 \<le> maxI div 128"
      using False less.prems by (auto intro: div_le_mono)
    have "read_var_int maxI 0 (var_int_digits n False @ s) =
        read_var_int maxI 0 (var_int_digits ?m False @ ?b # s)"
      using False by (subst var_int_digits.simps) (simp add: Let_def)
    also have "\<dots> = read_var_int maxI (n div 128) (?b # s)"
      using less.IH [OF m(1), of "?b # s"] less.prems m(1,2) by simp
    also have "\<dots> = read_var_int maxI (n + 1) s" using b m less.prems by simp
    finally show ?thesis .
  qed
qed

lemma ReadVarInt_Write:
  assumes "n \<le> maxI"
  shows "ReadVarInt maxI (WriteVarInt n @ rest) = Some (n, rest)"
proof (cases "n \<le> 0x7F")
  case True
  then have "unat (of_nat n :: byte) = n" by simp
  with True show ?thesis
    by (simp add: WriteVarInt_def ReadVarInt_def var_int_digits.simps [of n] Let_def)
next
  case False
  let ?m = "n div 128 - 1"
  have m: "?m < maxI" "?m + 1 = n div 128" "n div 128 * 128 + n mod 128 = n" "n div 128 \<le> maxI div 128"
    using False assms by (auto intro: div_le_mono)
  have "ReadVarInt maxI (WriteVarInt n @ rest) =
      read_var_int maxI 0 (var_int_digits ?m False @ of_nat (n mod 128) # rest)"
    using False by (simp add: WriteVarInt_def ReadVarInt_def var_int_digits.simps [of n] Let_def)
  also have "\<dots> = read_var_int maxI (n div 128) (of_nat (n mod 128) # rest)"
    using read_var_int_more [OF m(1)] m(2) by simp
  also have "\<dots> = Some (n, rest)" using m by simp
  finally show ?thesis .
qed

lemma var_int_digits_snoc:
  "(if a = 0 then [] else var_int_digits (a - 1) False) @ [b] =
    var_int_digits (a * 128 + unat b mod 128) (unat b < 128)"
  using byte_low_bits [of b] by (subst (2) var_int_digits.simps) (auto simp: Let_def)

lemma read_var_int_sound:
  "read_var_int maxI a s = Some (n, rest) \<Longrightarrow> maxI mod 128 = 127 \<Longrightarrow>
   n \<le> maxI \<and> (if a = 0 then [] else var_int_digits (a - 1) False) @ s = var_int_digits n True @ rest"
proof (induction maxI a s arbitrary: n rule: read_var_int.induct)
  case (2 maxI a b s)
  let ?n = "a * 128 + unat b mod 128"
  have a: "a \<le> maxI div 128" using "2.prems" by (simp split: if_splits)
  have "a * 128 \<le> maxI div 128 * 128" using a by simp
  moreover have "maxI div 128 * 128 + 127 = maxI" using "2.prems"(2) by (metis div_mult_mod_eq)
  moreover have "unat b mod 128 \<le> 127" using mod_less_divisor [of 128 "unat b"] by linarith
  ultimately have le: "?n \<le> maxI" by linarith
  show ?case
  proof (cases "unat b < 128")
    case True
    with "2.prems" a le var_int_digits_snoc [of a b] show ?thesis by simp
  next
    case False
    with "2.prems" a have "read_var_int maxI (?n + 1) s = Some (n, rest)" "?n \<noteq> maxI"
      by (simp_all add: Let_def split: if_splits)
    with "2.IH" False a "2.prems"(2) have "n \<le> maxI \<and> var_int_digits ?n False @ s = var_int_digits n True @ rest"
      by simp
    moreover have "(if a = 0 then [] else var_int_digits (a - 1) False) @ b # s =
        ((if a = 0 then [] else var_int_digits (a - 1) False) @ [b]) @ s" by simp
    ultimately show ?thesis using False var_int_digits_snoc [of a b] by (simp only:)
  qed
qed simp

interpretation var_int32: strict_codec WriteVarInt "ReadVarInt 0xffffffff" "\<lambda>n. n \<le> 0xffffffff"
proof
  show "n \<le> 0xffffffff \<and> s = WriteVarInt n @ rest" if "ReadVarInt 0xffffffff s = Some (n, rest)" for s n rest
    using read_var_int_sound [OF that [unfolded ReadVarInt_def]] by (simp add: ReadVarInt_def WriteVarInt_def)
qed (rule ReadVarInt_Write)

interpretation var_int64: strict_codec WriteVarInt "ReadVarInt 0xffffffffffffffff"
  "\<lambda>n. n \<le> 0xffffffffffffffff"
proof
  show "n \<le> 0xffffffffffffffff \<and> s = WriteVarInt n @ rest"
    if "ReadVarInt 0xffffffffffffffff s = Some (n, rest)" for s n rest
    using read_var_int_sound [OF that [unfolded ReadVarInt_def]]
    by (simp add: ReadVarInt_def WriteVarInt_def)
qed (rule ReadVarInt_Write)

section \<open>Vectors\<close>

lemma read_blocks_eq:
  "i \<le> nSize \<Longrightarrow> read_blocks nSize i v s =
     (if length s < nSize - i then None else Some (v @ take (nSize - i) s, drop (nSize - i) s))"
proof (induction "nSize - i" arbitrary: i v s rule: less_induct)
  case less
  show ?case
  proof (cases "i < nSize")
    case True
    define blk where "blk = min (nSize - i) (5000000 :: nat)"
    have blk: "0 < blk" "blk \<le> nSize - i" using True by (auto simp: blk_def)
    have step: "read_blocks nSize i v s =
        (if length s < blk then None else read_blocks nSize (i + blk) (v @ take blk s) (drop blk s))"
      using True by (subst read_blocks.simps) (simp add: read_bytes_def Let_def blk_def)
    show ?thesis
    proof (cases "length s < blk")
      case False
      obtain r where r: "nSize - (i + blk) = r" "nSize - i = blk + r" using blk by force
      have "read_blocks nSize (i + blk) (v @ take blk s) (drop blk s) =
          (if length (drop blk s) < nSize - (i + blk) then None
           else Some ((v @ take blk s) @ take (nSize - (i + blk)) (drop blk s),
             drop (nSize - (i + blk)) (drop blk s)))"
        using blk less.prems True by (intro less.hyps) linarith+
      then show ?thesis
        using step False unfolding r by (auto simp: take_add add.commute)
    qed (use step blk in simp)
  next
    case False
    with less.prems show ?thesis by (subst read_blocks.simps) simp
  qed
qed

interpretation byte_vector: strict_codec ser_bytes unser_bytes "\<lambda>v. length v \<le> MAX_SIZE"
proof
  fix v rest :: bytes assume v: "length v \<le> MAX_SIZE"
  then have "unat (of_nat (length v) :: 64 word) = length v" by (simp add: unat_of_nat)
  moreover have "ReadCompactSize (WriteCompactSize (of_nat (length v)) @ v @ rest) =
      Some (of_nat (length v), v @ rest)"
    using v calculation by (intro compact.dec_enc) simp
  ultimately show "unser_bytes (ser_bytes v @ rest) = Some (v, rest)"
    by (simp add: unser_bytes_def ser_bytes_def read_blocks_eq)
next
  fix s v rest assume "unser_bytes s = Some (v, rest)"
  then obtain n s1 where n: "ReadCompactSize s = Some (n, s1)" "read_blocks (unat n) 0 [] s1 = Some (v, rest)"
    by (auto simp: unser_bytes_def bind_eq_Some_conv)
  from n(2) have "length v = unat n" "s1 = v @ rest" by (auto simp: read_blocks_eq split: if_splits)
  moreover from compact.dec_sound [OF n(1)] have "unat n \<le> MAX_SIZE" "s = WriteCompactSize n @ s1" by auto
  ultimately show "length v \<le> MAX_SIZE \<and> s = ser_bytes v @ rest" by (simp add: ser_bytes_def)
qed

text \<open>A vector of values of a codec is a codec again.\<close>

context codec
begin

lemma vector_codec:
  "codec (ser_vector enc) (unser_vector dec) (\<lambda>xs. length xs \<le> MAX_SIZE \<and> (\<forall>x \<in> set xs. valid x))"
proof
  fix xs :: "'a list" and rest
  assume xs: "length xs \<le> MAX_SIZE \<and> (\<forall>x \<in> set xs. valid x)"
  then have n: "unat (of_nat (length xs) :: 64 word) = length xs" by (simp add: unat_of_nat)
  have "ReadCompactSize (WriteCompactSize (of_nat (length xs)) @ concat (map enc xs) @ rest) =
      Some (of_nat (length xs), concat (map enc xs) @ rest)"
    using xs n by (intro compact.dec_enc) simp
  moreover have "read_elements dec (length xs) (concat (map enc xs) @ rest) = Some (xs, rest)"
    using xs by (intro read_elements_enc) simp
  ultimately show "unser_vector dec (ser_vector enc xs @ rest) = Some (xs, rest)"
    using n by (simp add: unser_vector_def ser_vector_def)
qed

end

context strict_codec
begin

lemma vector_strict:
  "strict_codec (ser_vector enc) (unser_vector dec)
     (\<lambda>xs. length xs \<le> MAX_SIZE \<and> (\<forall>x \<in> set xs. valid x))"
proof (intro strict_codec.intro vector_codec strict_codec_axioms.intro)
  fix s xs rest assume "unser_vector dec s = Some (xs, rest)"
  then obtain n s1 where n: "ReadCompactSize s = Some (n, s1)" "read_elements dec (unat n) s1 = Some (xs, rest)"
    by (auto simp: unser_vector_def bind_eq_Some_conv)
  from read_elements_sound [OF n(2)] compact.dec_sound [OF n(1)]
  show "(length xs \<le> MAX_SIZE \<and> (\<forall>x \<in> set xs. valid x)) \<and> s = ser_vector enc xs @ rest"
    by (auto simp: ser_vector_def)
qed

end

interpretation witness_stack: strict_codec "ser_vector ser_bytes" "unser_vector unser_bytes"
  "\<lambda>xs. length xs \<le> MAX_SIZE \<and> (\<forall>x \<in> set xs. length x \<le> MAX_SIZE)"
  by (rule byte_vector.vector_strict)

section \<open>Canonical sizes and integers\<close>

text \<open>A size prefix has one encoding.  \<^const>\<open>ReadCompactSize\<close> succeeds exactly on the output of
  \<^const>\<open>WriteCompactSize\<close> for a size of at most 32 MiB, followed by the rest of the stream, and that
  output has the length that \<^const>\<open>GetSizeOfCompactSize\<close> announces.\<close>

lemma compact_size_canonical:
  "(ReadCompactSize s = Some (n, rest)) = (unat n \<le> MAX_SIZE \<and> s = WriteCompactSize n @ rest) \<and>
   length (WriteCompactSize n) = GetSizeOfCompactSize n"
  using compact.dec_iff length_WriteCompactSize by simp

lemma length_var_int_digits: "length (var_int_digits n first) = GetSizeOfVarInt n"
  by (induction n arbitrary: first rule: GetSizeOfVarInt.induct)
    (subst var_int_digits.simps, subst GetSizeOfVarInt.simps, simp add: Let_def)

text \<open>Variable length integers are a bijection.  Reading an unsigned 64 bit integer succeeds
  exactly on the output of \<^const>\<open>WriteVarInt\<close> for a number of that type, so an encoding is neither
  ambiguous nor redundant; its length is \<^const>\<open>GetSizeOfVarInt\<close>.\<close>

lemma var_int_canonical:
  "(ReadVarInt 0xffffffffffffffff s = Some (n, rest)) =
     (n \<le> 0xffffffffffffffff \<and> s = WriteVarInt n @ rest) \<and>
   length (WriteVarInt n) = GetSizeOfVarInt n"
  using var_int64.dec_iff length_var_int_digits by (simp add: WriteVarInt_def)

end
