(* ===== verification/Transaction.thy ===== *)
theory Transaction
  imports Serialize VerifyScript
begin

text \<open>
  Transactions (\<^verbatim>\<open>src/src/primitives/transaction.h\<close> and \<^verbatim>\<open>.cpp\<close>): their data, the two stream formats with
  and without witness data, identifiers, and the tests on whole transactions.  A \<^verbatim>\<open>uint256\<close> is its
  32 bytes; \<^verbatim>\<open>CAmount\<close> is a 64 bit word read as a signed number.
\<close>

section \<open>Data\<close>

record COutPoint =
  op_hash :: bytes
  op_n :: "32 word"

record CTxIn =
  prevout :: COutPoint
  scriptSig :: bytes
  nSequence :: "32 word"
  scriptWitness :: "valtype list"

record CTxOut =
  nValue :: "64 word"
  scriptPubKey :: bytes

record CTransaction =
  vin :: "CTxIn list"
  vout :: "CTxOut list"
  nVersion :: "32 word"
  nLockTime :: "32 word"

abbreviation (input) SEQUENCE_LOCKTIME_TYPE_FLAG :: "32 word" where
  "SEQUENCE_LOCKTIME_TYPE_FLAG \<equiv> 0x400000"
abbreviation (input) SEQUENCE_LOCKTIME_MASK :: "32 word" where "SEQUENCE_LOCKTIME_MASK \<equiv> 0xffff"
abbreviation (input) SEQUENCE_LOCKTIME_GRANULARITY :: nat where "SEQUENCE_LOCKTIME_GRANULARITY \<equiv> 9"
abbreviation (input) MAX_MONEY :: int where "MAX_MONEY \<equiv> 21000000 * 100000000"

definition uint256_null :: bytes where "uint256_null = replicate 32 0"

definition OutPoint_null :: COutPoint where
  "OutPoint_null = \<lparr>op_hash = uint256_null, op_n = -1\<rparr>"

definition OutPoint_IsNull :: "COutPoint \<Rightarrow> bool" where
  "OutPoint_IsNull x \<longleftrightarrow> op_hash x = uint256_null \<and> op_n x = -1"

definition TxOut_null :: CTxOut where
  "TxOut_null = \<lparr>nValue = -1, scriptPubKey = []\<rparr>"

definition TxOut_IsNull :: "CTxOut \<Rightarrow> bool" where
  "TxOut_IsNull x \<longleftrightarrow> nValue x = -1"

definition TxOut_IsEmpty :: "CTxOut \<Rightarrow> bool" where
  "TxOut_IsEmpty x \<longleftrightarrow> nValue x = 0 \<and> scriptPubKey x = []"

definition MoneyRange :: "int \<Rightarrow> bool" where
  "MoneyRange v \<longleftrightarrow> 0 \<le> v \<and> v \<le> MAX_MONEY"

definition IsCoinBase :: "CTransaction \<Rightarrow> bool" where
  "IsCoinBase tx \<longleftrightarrow> length (vin tx) = 1 \<and> OutPoint_IsNull (prevout (vin tx ! 0))"

definition IsCoinStake :: "CTransaction \<Rightarrow> bool" where
  "IsCoinStake tx \<longleftrightarrow> length (vin tx) = 1 \<and> length (vout tx) = 2 \<and> TxOut_IsEmpty (vout tx ! 0)"

definition HasWitness :: "CTransaction \<Rightarrow> bool" where
  "HasWitness tx \<longleftrightarrow> (\<exists>i \<in> set (vin tx). scriptWitness i \<noteq> [])"

text \<open>\<open>GetValueOut\<close> adds before it tests the range: \<open>UndefinedBehaviour\<close> is a signed overflow of
  that addition, \<open>Ret None\<close> the exception.\<close>

fun value_out_loop :: "int \<Rightarrow> CTxOut list \<Rightarrow> int option outcome" where
  "value_out_loop nValueOut [] = Ret (Some nValueOut)"
| "value_out_loop nValueOut (tx_out # outs) =
     (let v = sint (nValue tx_out); s = nValueOut + v
      in if \<not> is_int64 s then UndefinedBehaviour
         else if \<not> MoneyRange v \<or> \<not> MoneyRange s then Ret None
         else value_out_loop s outs)"

definition GetValueOut :: "CTransaction \<Rightarrow> int option outcome" where
  "GetValueOut tx = value_out_loop 0 (vout tx)"

text \<open>The tests on whole transactions ask each output in turn.\<close>

fun any_output :: "(bytes \<Rightarrow> bool outcome) \<Rightarrow> CTxOut list \<Rightarrow> bool outcome" where
  "any_output f [] = Ret False"
| "any_output f (v # outs) =
     (case f (scriptPubKey v) of
        Ret b \<Rightarrow> if b then Ret True else any_output f outs
      | AssertFail \<Rightarrow> AssertFail
      | UndefinedBehaviour \<Rightarrow> UndefinedBehaviour)"

definition tx_HasOpSpend :: "script_crypto \<Rightarrow> chain_ctx \<Rightarrow> CTransaction \<Rightarrow> bool outcome" where
  "tx_HasOpSpend c ctx tx = any_output (HasOpSpend c ctx) (vout tx)"

definition tx_HasContractOp :: "script_crypto \<Rightarrow> chain_ctx \<Rightarrow> CTransaction \<Rightarrow> bool outcome" where
  "tx_HasContractOp c ctx tx = any_output (HasContractOp c ctx) (vout tx)"

definition tx_HasOpDepositToContract ::
    "script_crypto \<Rightarrow> chain_ctx \<Rightarrow> CTransaction \<Rightarrow> bool outcome" where
  "tx_HasOpDepositToContract c ctx tx = any_output (HasOpDepositToContract c ctx) (vout tx)"

section \<open>Stream formats\<close>

definition ser_OutPoint :: "COutPoint \<Rightarrow> bytes" where
  "ser_OutPoint x = op_hash x @ ser_writedata32 (op_n x)"

definition unser_OutPoint :: "COutPoint reader" where
  "unser_OutPoint s = do {
     (h, s) \<leftarrow> read_bytes 32 s;
     (n, s) \<leftarrow> ser_readdata32 s;
     Some (\<lparr>op_hash = h, op_n = n\<rparr>, s) }"

definition ser_TxIn :: "CTxIn \<Rightarrow> bytes" where
  "ser_TxIn x = ser_OutPoint (prevout x) @ ser_bytes (scriptSig x) @ ser_writedata32 (nSequence x)"

definition unser_TxIn :: "CTxIn reader" where
  "unser_TxIn s = do {
     (p, s) \<leftarrow> unser_OutPoint s;
     (sig, s) \<leftarrow> unser_bytes s;
     (n, s) \<leftarrow> ser_readdata32 s;
     Some (\<lparr>prevout = p, scriptSig = sig, nSequence = n, scriptWitness = []\<rparr>, s) }"

definition ser_TxOut :: "CTxOut \<Rightarrow> bytes" where
  "ser_TxOut x = ser_writedata64 (nValue x) @ ser_bytes (scriptPubKey x)"

definition unser_TxOut :: "CTxOut reader" where
  "unser_TxOut s = do {
     (v, s) \<leftarrow> ser_readdata64 s;
     (k, s) \<leftarrow> unser_bytes s;
     Some (\<lparr>nValue = v, scriptPubKey = k\<rparr>, s) }"

definition SerializeTransaction :: "bool \<Rightarrow> CTransaction \<Rightarrow> bytes" where
  "SerializeTransaction fAllowWitness tx =
     (let flags = (if fAllowWitness \<and> HasWitness tx then 1 else 0 :: byte)
      in ser_writedata32 (nVersion tx) @
         (if flags \<noteq> 0 then ser_vector ser_TxIn [] @ ser_writedata8 flags else []) @
         ser_vector ser_TxIn (vin tx) @
         ser_vector ser_TxOut (vout tx) @
         (if flags AND 1 \<noteq> 0
          then concat (map (\<lambda>i. ser_vector ser_bytes (scriptWitness i)) (vin tx)) else []) @
         ser_writedata32 (nLockTime tx))"

definition set_witness :: "CTxIn \<Rightarrow> valtype list \<Rightarrow> CTxIn" where
  "set_witness i w = i\<lparr>scriptWitness := w\<rparr>"

definition UnserializeTransaction :: "bool \<Rightarrow> CTransaction reader" where
  "UnserializeTransaction fAllowWitness s = do {
     (ver, s) \<leftarrow> ser_readdata32 s;
     (ins, s) \<leftarrow> unser_vector unser_TxIn s;
     (flags, ins, outs, s) \<leftarrow>
       (if ins = [] \<and> fAllowWitness then do {
          (flags, s) \<leftarrow> ser_readdata8 s;
          if flags \<noteq> 0 then do {
            (ins, s) \<leftarrow> unser_vector unser_TxIn s;
            (outs, s) \<leftarrow> unser_vector unser_TxOut s;
            Some (flags, ins, outs, s) }
          else Some (flags, ins, [], s) }
        else do {
          (outs, s) \<leftarrow> unser_vector unser_TxOut s;
          Some (0, ins, outs, s) });
     (flags, ins, s) \<leftarrow>
       (if flags AND 1 \<noteq> 0 \<and> fAllowWitness then do {
          (ws, s) \<leftarrow> read_elements (unser_vector unser_bytes) (length ins) s;
          Some (flags XOR 1, map2 set_witness ins ws, s) }
        else Some (flags, ins, s));
     if flags \<noteq> 0 then None
     else do {
       (lock, s) \<leftarrow> ser_readdata32 s;
       Some (\<lparr>vin = ins, vout = outs, nVersion = ver, nLockTime = lock\<rparr>, s) } }"

definition ComputeHash :: "script_crypto \<Rightarrow> CTransaction \<Rightarrow> bytes" where
  "ComputeHash c tx = Hash256 c (SerializeTransaction False tx)"

definition GetWitnessHash :: "script_crypto \<Rightarrow> CTransaction \<Rightarrow> bytes" where
  "GetWitnessHash c tx =
     (if \<not> HasWitness tx then ComputeHash c tx else Hash256 c (SerializeTransaction True tx))"

definition GetTotalSize :: "CTransaction \<Rightarrow> nat" where
  "GetTotalSize tx = length (SerializeTransaction True tx)"

definition GetTransactionWeight :: "CTransaction \<Rightarrow> nat" where
  "GetTransactionWeight tx =
     length (SerializeTransaction False tx) * (4 - 1) + length (SerializeTransaction True tx)"

section \<open>The formats satisfy the contracts of \<open>Serialize\<close>\<close>

definition wf_TxIn :: "CTxIn \<Rightarrow> bool" where
  "wf_TxIn i \<longleftrightarrow> length (op_hash (prevout i)) = 32 \<and> length (scriptSig i) \<le> MAX_SIZE"

definition wf_witness :: "valtype list \<Rightarrow> bool" where
  "wf_witness w \<longleftrightarrow> length w \<le> MAX_SIZE \<and> (\<forall>x \<in> set w. length x \<le> MAX_SIZE)"

definition wf_tx :: "CTransaction \<Rightarrow> bool" where
  "wf_tx tx \<longleftrightarrow> length (vin tx) \<le> MAX_SIZE \<and> length (vout tx) \<le> MAX_SIZE \<and>
     (\<forall>i \<in> set (vin tx). wf_TxIn i \<and> wf_witness (scriptWitness i)) \<and>
     (\<forall>x \<in> set (vout tx). length (scriptPubKey x) \<le> MAX_SIZE)"

interpretation outpoint: strict_codec ser_OutPoint unser_OutPoint "\<lambda>x. length (op_hash x) = 32"
proof
  fix x :: COutPoint and rest assume "length (op_hash x) = 32"
  then show "unser_OutPoint (ser_OutPoint x @ rest) = Some (x, rest)"
    using word32.dec_enc [of "op_n x" rest] by (simp add: unser_OutPoint_def ser_OutPoint_def)
next
  fix s rest and x :: COutPoint assume "unser_OutPoint s = Some (x, rest)"
  then show "length (op_hash x) = 32 \<and> s = ser_OutPoint x @ rest"
    by (auto simp: unser_OutPoint_def ser_OutPoint_def read_fixed dest!: word32.dec_sound)
qed

interpretation txin: strict_codec ser_TxIn unser_TxIn "\<lambda>i. wf_TxIn i \<and> scriptWitness i = []"
proof
  fix x :: CTxIn and rest assume x: "wf_TxIn x \<and> scriptWitness x = []"
  then show "unser_TxIn (ser_TxIn x @ rest) = Some (x, rest)"
    using word32.dec_enc [of "nSequence x" rest]
      byte_vector.dec_enc [of "scriptSig x" "ser_writedata32 (nSequence x) @ rest"]
      outpoint.dec_enc [of "prevout x" "ser_bytes (scriptSig x) @ ser_writedata32 (nSequence x) @ rest"]
    by (simp add: unser_TxIn_def ser_TxIn_def wf_TxIn_def)
next
  fix s rest and x :: CTxIn assume "unser_TxIn s = Some (x, rest)"
  then show "(wf_TxIn x \<and> scriptWitness x = []) \<and> s = ser_TxIn x @ rest"
    by (auto simp: unser_TxIn_def ser_TxIn_def wf_TxIn_def read_fixed
        dest!: word32.dec_sound byte_vector.dec_sound outpoint.dec_sound)
qed

interpretation txout: strict_codec ser_TxOut unser_TxOut "\<lambda>x. length (scriptPubKey x) \<le> MAX_SIZE"
proof
  fix x :: CTxOut and rest assume x: "length (scriptPubKey x) \<le> MAX_SIZE"
  then show "unser_TxOut (ser_TxOut x @ rest) = Some (x, rest)"
    using word64.dec_enc [of "nValue x" "ser_bytes (scriptPubKey x) @ rest"]
      byte_vector.dec_enc [of "scriptPubKey x" rest]
    by (simp add: unser_TxOut_def ser_TxOut_def)
next
  fix s rest and x :: CTxOut assume "unser_TxOut s = Some (x, rest)"
  then show "length (scriptPubKey x) \<le> MAX_SIZE \<and> s = ser_TxOut x @ rest"
    by (auto simp: unser_TxOut_def ser_TxOut_def read_fixed dest!: word64.dec_sound byte_vector.dec_sound)
qed

interpretation txins: strict_codec "ser_vector ser_TxIn" "unser_vector unser_TxIn"
  "\<lambda>xs. length xs \<le> MAX_SIZE \<and> (\<forall>i \<in> set xs. wf_TxIn i \<and> scriptWitness i = [])"
  by (rule txin.vector_strict)

interpretation txouts: strict_codec "ser_vector ser_TxOut" "unser_vector unser_TxOut"
  "\<lambda>xs. length xs \<le> MAX_SIZE \<and> (\<forall>x \<in> set xs. length (scriptPubKey x) \<le> MAX_SIZE)"
  by (rule txout.vector_strict)

section \<open>Round trip of transactions\<close>

definition strip_witness :: "CTransaction \<Rightarrow> CTransaction" where
  "strip_witness tx = tx\<lparr>vin := map (\<lambda>i. set_witness i []) (vin tx)\<rparr>"

lemma ser_TxIn_set_witness [simp]: "ser_TxIn (set_witness i w) = ser_TxIn i"
  by (simp add: ser_TxIn_def set_witness_def)

lemma ser_vector_strip: "ser_vector ser_TxIn (map (\<lambda>i. set_witness i []) is) = ser_vector ser_TxIn is"
  by (simp add: ser_vector_def comp_def)

lemma strip_no_witness: "\<not> HasWitness tx \<Longrightarrow> map (\<lambda>i. set_witness i []) (vin tx) = vin tx"
  by (auto simp: HasWitness_def set_witness_def intro!: map_idI)

lemma set_witness_back:
  "map2 set_witness (map (\<lambda>i. set_witness i []) is) (map scriptWitness is) = is"
  by (induction "is") (simp_all add: set_witness_def)

lemma read_ins:
  assumes "wf_tx tx"
  shows "unser_vector unser_TxIn (ser_vector ser_TxIn (vin tx) @ rest) =
    Some (map (\<lambda>i. set_witness i []) (vin tx), rest)"
  unfolding ser_vector_strip [of "vin tx", symmetric]
  using assms by (intro txins.dec_enc) (auto simp: wf_tx_def wf_TxIn_def set_witness_def)

lemma read_outs:
  "wf_tx tx \<Longrightarrow> unser_vector unser_TxOut (ser_vector ser_TxOut (vout tx) @ rest) = Some (vout tx, rest)"
  by (intro txouts.dec_enc) (simp add: wf_tx_def)

lemma read_witnesses:
  assumes "wf_tx tx"
  shows "read_elements (unser_vector unser_bytes) (length (vin tx))
    (concat (map (\<lambda>i. ser_vector ser_bytes (scriptWitness i)) (vin tx)) @ rest) =
    Some (map scriptWitness (vin tx), rest)"
  using witness_stack.read_elements_enc [of "map scriptWitness (vin tx)" rest] assms
  by (simp add: wf_tx_def wf_witness_def comp_def)

lemma read_empty:
  "unser_vector unser_TxIn (ser_vector ser_TxIn [] @ rest) = Some ([], rest)"
  "ser_vector f [] = [0]"
  using txins.dec_enc [of "[]" rest] by (simp_all add: ser_vector_def WriteCompactSize_def ser_writedata8_def)

lemma tx_roundtrip_stripped:
  assumes "wf_tx tx" and "\<not> (fAllowWitness \<and> HasWitness tx)"
    and "fAllowWitness \<Longrightarrow> vin tx \<noteq> [] \<or> vout tx = []"
  shows "UnserializeTransaction fAllowWitness (SerializeTransaction fAllowWitness tx @ rest) =
    Some (strip_witness tx, rest)"
proof (cases "vin tx = [] \<and> fAllowWitness")
  case True
  with assms(3) have "vin tx = []" "vout tx = []" by auto
  with True assms(2) show ?thesis
    using read_empty(1) [of "0 # ser_writedata32 (nLockTime tx) @ rest"]
    by (simp add: UnserializeTransaction_def SerializeTransaction_def read_empty(2) word32.dec_enc
        strip_witness_def)
next
  case False
  with assms show ?thesis
    by (auto simp: UnserializeTransaction_def SerializeTransaction_def word32.dec_enc strip_witness_def
        read_ins read_outs)
qed

lemma tx_roundtrip_witness:
  assumes "wf_tx tx" and "vin tx \<noteq> [] \<or> vout tx = []"
  shows "UnserializeTransaction True (SerializeTransaction True tx @ rest) = Some (tx, rest)"
proof (cases "HasWitness tx")
  case True
  let ?s = "ser_vector ser_TxIn (vin tx) @ ser_vector ser_TxOut (vout tx) @
    concat (map (\<lambda>i. ser_vector ser_bytes (scriptWitness i)) (vin tx)) @ ser_writedata32 (nLockTime tx) @ rest"
  from True assms(1) read_empty(1) [of "1 # ?s"] show ?thesis
    by (simp add: UnserializeTransaction_def SerializeTransaction_def word32.dec_enc read_ins read_outs
        read_witnesses set_witness_back ser_writedata8_def)
next
  case False
  then have "strip_witness tx = tx" by (simp add: strip_witness_def strip_no_witness)
  with tx_roundtrip_stripped [OF assms(1), of True rest] False assms(2) show ?thesis by simp
qed

interpretation transaction: codec "SerializeTransaction True" "UnserializeTransaction True"
  "\<lambda>tx. wf_tx tx \<and> (vin tx \<noteq> [] \<or> vout tx = [])"
  by unfold_locales (simp add: tx_roundtrip_witness)

text \<open>C8: reading what was written gives the transaction back, with the witness format including all
  witnesses; without it the witnesses are gone and nothing else.  A transaction without inputs
  must have no outputs: its input count is the marker of the witness format.\<close>

theorem transaction_roundtrip:
  assumes "wf_tx tx" and "vin tx \<noteq> [] \<or> vout tx = []"
  shows "UnserializeTransaction True (SerializeTransaction True tx @ rest) = Some (tx, rest) \<and>
    UnserializeTransaction False (SerializeTransaction False tx @ rest) = Some (strip_witness tx, rest)"
  using tx_roundtrip_witness [OF assms] tx_roundtrip_stripped [of tx False rest] assms(1) by simp

definition sample_tx :: "valtype list \<Rightarrow> CTransaction" where
  "sample_tx w =
     \<lparr>vin = [\<lparr>prevout = \<lparr>op_hash = replicate 32 7, op_n = 1\<rparr>, scriptSig = [], nSequence = 5,
        scriptWitness = w\<rparr>],
      vout = [\<lparr>nValue = 50, scriptPubKey = [0x51]\<rparr>], nVersion = 2, nLockTime = 3\<rparr>"

theorem transaction_roundtrip_witness:
  "UnserializeTransaction True (SerializeTransaction True (sample_tx [[1], [2, 3]]) @ [9]) =
   Some (sample_tx [[1], [2, 3]], [9])"
  by (rule transaction_roundtrip [THEN conjunct1])
    (simp_all add: sample_tx_def wf_tx_def wf_TxIn_def wf_witness_def)

text \<open>C33: a transaction identifier binds everything but the witnesses: two transactions with the same
  identifier agree up to witnesses, or their serializations are a collision of the hash.\<close>

theorem txid_binding:
  assumes "wf_tx tx" and "wf_tx tx'" and "ComputeHash c tx = ComputeHash c tx'"
  shows "strip_witness tx = strip_witness tx' \<or>
    (SerializeTransaction False tx \<noteq> SerializeTransaction False tx' \<and>
     Hash256 c (SerializeTransaction False tx) = Hash256 c (SerializeTransaction False tx'))"
proof (cases "SerializeTransaction False tx = SerializeTransaction False tx'")
  case True
  with tx_roundtrip_stripped [OF assms(1), of False "[]"] tx_roundtrip_stripped [OF assms(2), of False "[]"]
  show ?thesis by simp
qed (use assms(3) in \<open>simp add: ComputeHash_def\<close>)

theorem txid_binding_witness: "strip_witness (sample_tx [[1]]) = strip_witness (sample_tx [])"
proof -
  let ?c = "\<lparr>RIPEMD160 = id, SHA1 = id, SHA256 = id, CheckLowS = (\<lambda>_. True)\<rparr>"
  have "SerializeTransaction False (sample_tx [[1]]) = SerializeTransaction False (sample_tx [])"
    by (simp add: SerializeTransaction_def sample_tx_def ser_vector_def ser_TxIn_def)
  with txid_binding [of "sample_tx [[1]]" "sample_tx []" ?c] show ?thesis
    by (simp add: sample_tx_def wf_tx_def wf_TxIn_def wf_witness_def ComputeHash_def)
qed

end
