(* ===== verification/Sighash.thy ===== *)
theory Sighash
  imports Transaction
begin

text \<open>
  Signature hashes and \<^verbatim>\<open>TransactionSignatureChecker\<close> of \<^verbatim>\<open>src/src/script/interpreter.cpp\<close>.  The
  specification of the legacy hash is the one that copies the transaction, blanks the parts the
  hash type leaves open, and serializes the copy; \<open>legacy_preimage_refines\<close> proves that the
  in-place serializer of the source writes the same bytes.
\<close>

section \<open>The transaction as it is signed\<close>

definition fAnyoneCanPay :: "32 word \<Rightarrow> bool" where "fAnyoneCanPay nHashType \<longleftrightarrow> nHashType AND 0x80 \<noteq> 0"
definition fHashSingle :: "32 word \<Rightarrow> bool" where "fHashSingle nHashType \<longleftrightarrow> nHashType AND 0x1f = 3"
definition fHashNone :: "32 word \<Rightarrow> bool" where "fHashNone nHashType \<longleftrightarrow> nHashType AND 0x1f = 2"

text \<open>The two loops of \<open>SerializeScriptCode\<close>.\<close>

function codesep_count :: "bytes \<Rightarrow> nat \<Rightarrow> nat \<Rightarrow> nat" where
  "codesep_count script it n =
     (case GetOp2 script it of (fRet, it', opcode, _) \<Rightarrow>
        if fRet then codesep_count script it' (if opcode = OP_CODESEPARATOR then n + 1 else n) else n)"
  by pat_completeness auto
termination
  by (relation "measure (\<lambda>(script, it, _). length script - it)") (auto dest: GetOp2_progress [OF sym])

function codesep_write :: "bytes \<Rightarrow> nat \<Rightarrow> nat \<Rightarrow> bytes \<Rightarrow> nat \<times> nat \<times> bytes" where
  "codesep_write script it itBegin out =
     (case GetOp2 script it of (fRet, it', opcode, _) \<Rightarrow>
        if fRet then
          (if opcode = OP_CODESEPARATOR
           then codesep_write script it' it' (out @ take (it' - itBegin - 1) (drop itBegin script))
           else codesep_write script it' itBegin out)
        else (it', itBegin, out))"
  by pat_completeness auto
termination
  by (relation "measure (\<lambda>(script, it, _). length script - it)") (auto dest: GetOp2_progress [OF sym])

declare codesep_count.simps [simp del] codesep_write.simps [simp del]

definition SerializeScriptCode :: "bytes \<Rightarrow> bytes" where
  "SerializeScriptCode scriptCode =
     (let nCodeSeparators = codesep_count scriptCode 0 0
      in WriteCompactSize (of_nat (length scriptCode - nCodeSeparators)) @
         (case codesep_write scriptCode 0 0 [] of (it, itBegin, out) \<Rightarrow>
            out @ (if itBegin \<noteq> length scriptCode then take (it - itBegin) (drop itBegin scriptCode)
                   else [])))"

definition SerializeInput :: "CTransaction \<Rightarrow> bytes \<Rightarrow> nat \<Rightarrow> 32 word \<Rightarrow> nat \<Rightarrow> bytes" where
  "SerializeInput txTo scriptCode nIn nHashType nInput =
     (let nInput = (if fAnyoneCanPay nHashType then nIn else nInput); i = vin txTo ! nInput
      in ser_OutPoint (prevout i) @
         (if nInput \<noteq> nIn then ser_bytes [] else SerializeScriptCode scriptCode) @
         (if nInput \<noteq> nIn \<and> (fHashSingle nHashType \<or> fHashNone nHashType) then ser_writedata32 0
          else ser_writedata32 (nSequence i)))"

definition SerializeOutput :: "CTransaction \<Rightarrow> nat \<Rightarrow> 32 word \<Rightarrow> nat \<Rightarrow> bytes" where
  "SerializeOutput txTo nIn nHashType nOutput =
     (if fHashSingle nHashType \<and> nOutput \<noteq> nIn then ser_TxOut TxOut_null
      else ser_TxOut (vout txTo ! nOutput))"

definition SerializeForSignature :: "CTransaction \<Rightarrow> bytes \<Rightarrow> nat \<Rightarrow> 32 word \<Rightarrow> bytes" where
  "SerializeForSignature txTo scriptCode nIn nHashType =
     (let nInputs = (if fAnyoneCanPay nHashType then 1 else length (vin txTo));
          nOutputs = (if fHashNone nHashType then 0
            else if fHashSingle nHashType then nIn + 1 else length (vout txTo))
      in ser_writedata32 (nVersion txTo) @
         WriteCompactSize (of_nat nInputs) @
         concat (map (SerializeInput txTo scriptCode nIn nHashType) [0..<nInputs]) @
         WriteCompactSize (of_nat nOutputs) @
         concat (map (SerializeOutput txTo nIn nHashType) [0..<nOutputs]) @
         ser_writedata32 (nLockTime txTo))"

section \<open>Signature hashes\<close>

definition GetPrevoutHash :: "script_crypto \<Rightarrow> CTransaction \<Rightarrow> bytes" where
  "GetPrevoutHash c txTo = Hash256 c (concat (map (\<lambda>i. ser_OutPoint (prevout i)) (vin txTo)))"

definition GetSequenceHash :: "script_crypto \<Rightarrow> CTransaction \<Rightarrow> bytes" where
  "GetSequenceHash c txTo = Hash256 c (concat (map (\<lambda>i. ser_writedata32 (nSequence i)) (vin txTo)))"

definition GetOutputsHash :: "script_crypto \<Rightarrow> CTransaction \<Rightarrow> bytes" where
  "GetOutputsHash c txTo = Hash256 c (concat (map ser_TxOut (vout txTo)))"

record PrecomputedTransactionData =
  hashPrevouts :: bytes
  hashSequence :: bytes
  hashOutputs :: bytes
  ready :: bool

definition Precompute :: "script_crypto \<Rightarrow> CTransaction \<Rightarrow> PrecomputedTransactionData" where
  "Precompute c txTo =
     (if HasWitness txTo
      then \<lparr>hashPrevouts = GetPrevoutHash c txTo, hashSequence = GetSequenceHash c txTo,
            hashOutputs = GetOutputsHash c txTo, ready = True\<rparr>
      else \<lparr>hashPrevouts = uint256_null, hashSequence = uint256_null, hashOutputs = uint256_null,
            ready = False\<rparr>)"

text \<open>\<^verbatim>\<open>ss << std::string("ub")\<close> when the signature uses the fork id; \<open>flags\<close> has its default,
  \<^verbatim>\<open>SCRIPT_ENABLE_SIGHASH_FORKID\<close>, at the call in \<open>CheckSig\<close>.\<close>

definition ub_suffix :: "32 word \<Rightarrow> flags \<Rightarrow> bytes" where
  "ub_suffix nHashType flags =
     (if nHashType AND 0x8 \<noteq> 0 \<and> has_flag flags SCRIPT_ENABLE_SIGHASH_FORKID
      then ser_bytes [0x75, 0x62] else [])"

definition witness_preimage ::
    "script_crypto \<Rightarrow> bytes \<Rightarrow> CTransaction \<Rightarrow> nat \<Rightarrow> 32 word \<Rightarrow> 64 word \<Rightarrow>
     PrecomputedTransactionData option \<Rightarrow> flags \<Rightarrow> bytes" where
  "witness_preimage c scriptCode txTo nIn nHashType amount cache flags =
     (let cached = (\<lambda>field compute. case cache of
            Some d \<Rightarrow> if ready d then field d else compute c txTo
          | None \<Rightarrow> compute c txTo);
          prevouts = (if \<not> fAnyoneCanPay nHashType then cached hashPrevouts GetPrevoutHash
            else uint256_null);
          sequence = (if \<not> fAnyoneCanPay nHashType \<and> \<not> fHashSingle nHashType \<and> \<not> fHashNone nHashType
            then cached hashSequence GetSequenceHash else uint256_null);
          outputs = (if \<not> fHashSingle nHashType \<and> \<not> fHashNone nHashType
            then cached hashOutputs GetOutputsHash
            else if fHashSingle nHashType \<and> nIn < length (vout txTo)
              then Hash256 c (ser_TxOut (vout txTo ! nIn))
            else uint256_null)
      in ser_writedata32 (nVersion txTo) @ prevouts @ sequence @
         ser_OutPoint (prevout (vin txTo ! nIn)) @ ser_bytes scriptCode @ ser_writedata64 amount @
         ser_writedata32 (nSequence (vin txTo ! nIn)) @ outputs @ ser_writedata32 (nLockTime txTo) @
         ser_writedata32 nHashType @ ub_suffix nHashType flags)"

definition legacy_preimage :: "bytes \<Rightarrow> CTransaction \<Rightarrow> nat \<Rightarrow> 32 word \<Rightarrow> flags \<Rightarrow> bytes" where
  "legacy_preimage scriptCode txTo nIn nHashType flags =
     SerializeForSignature txTo scriptCode nIn nHashType @ ser_writedata32 nHashType @
     ub_suffix nHashType flags"

definition uint256_one :: bytes where "uint256_one = 1 # replicate 31 0"

definition SignatureHash ::
    "script_crypto \<Rightarrow> bytes \<Rightarrow> CTransaction \<Rightarrow> nat \<Rightarrow> 32 word \<Rightarrow> 64 word \<Rightarrow> SigVersion \<Rightarrow>
     PrecomputedTransactionData option \<Rightarrow> flags \<Rightarrow> bytes outcome" where
  "SignatureHash c scriptCode txTo nIn nHashType amount sigversion cache flags =
     (if \<not> nIn < length (vin txTo) then AssertFail
      else if sigversion = SIGVERSION_WITNESS_V0
        then Ret (Hash256 c (witness_preimage c scriptCode txTo nIn nHashType amount cache flags))
      else if fHashSingle nHashType \<and> nIn \<ge> length (vout txTo) then Ret uint256_one
      else Ret (Hash256 c (legacy_preimage scriptCode txTo nIn nHashType flags)))"

section \<open>The signature checker of a transaction\<close>

text \<open>\<^verbatim>\<open>CPubKey\<close> of \<^verbatim>\<open>src/src/pubkey.h\<close>: the length a header byte announces, and the test after \<^verbatim>\<open>Set\<close>.
  \<open>verify\<close> stands for \<^verbatim>\<open>CPubKey::Verify\<close>, a call into libsecp256k1.\<close>

definition GetLen :: "byte \<Rightarrow> nat" where
  "GetLen chHeader =
     (if chHeader = 2 \<or> chHeader = 3 then 33
      else if chHeader = 4 \<or> chHeader = 6 \<or> chHeader = 7 then 65
      else 0)"

definition pubkey_IsValid :: "bytes \<Rightarrow> bool" where
  "pubkey_IsValid vch =
     (let len = (if vch = [] then 0 else GetLen (vch ! 0)) in len \<noteq> 0 \<and> len = length vch)"

definition tx_CheckSig ::
    "script_crypto \<Rightarrow> (bytes \<Rightarrow> bytes \<Rightarrow> bytes \<Rightarrow> bool) \<Rightarrow> CTransaction \<Rightarrow> nat \<Rightarrow> 64 word \<Rightarrow>
     PrecomputedTransactionData option \<Rightarrow> bytes \<Rightarrow> bytes \<Rightarrow> bytes \<Rightarrow> SigVersion \<Rightarrow> bool outcome" where
  "tx_CheckSig c verify txTo nIn amount txdata vchSigIn vchPubKey scriptCode sigversion =
     (if \<not> pubkey_IsValid vchPubKey then Ret False
      else if vchSigIn = [] then Ret False
      else map_outcome (\<lambda>sighash. verify vchPubKey sighash (butlast vchSigIn))
        (SignatureHash c scriptCode txTo nIn (ucast (last vchSigIn)) amount sigversion txdata
           SCRIPT_ENABLE_SIGHASH_FORKID))"

definition tx_CheckLockTime :: "CTransaction \<Rightarrow> nat \<Rightarrow> int \<Rightarrow> bool" where
  "tx_CheckLockTime txTo nIn lock =
     (let txLock = uint (nLockTime txTo)
      in if \<not> ((txLock < LOCKTIME_THRESHOLD \<and> lock < LOCKTIME_THRESHOLD) \<or>
               (txLock \<ge> LOCKTIME_THRESHOLD \<and> lock \<ge> LOCKTIME_THRESHOLD)) then False
         else if lock > txLock then False
         else if 0xffffffff = nSequence (vin txTo ! nIn) then False
         else True)"

definition tx_CheckSequence :: "CTransaction \<Rightarrow> nat \<Rightarrow> int \<Rightarrow> bool" where
  "tx_CheckSequence txTo nIn sequence =
     (let txToSequence = uint (nSequence (vin txTo ! nIn));
          mask = uint (SEQUENCE_LOCKTIME_TYPE_FLAG OR SEQUENCE_LOCKTIME_MASK);
          txMasked = txToSequence AND mask;
          masked = sequence AND mask;
          type_flag = uint SEQUENCE_LOCKTIME_TYPE_FLAG
      in if nVersion txTo < 2 then False
         else if txToSequence AND int SEQUENCE_LOCKTIME_DISABLE_FLAG \<noteq> 0 then False
         else if \<not> ((txMasked < type_flag \<and> masked < type_flag) \<or>
                    (txMasked \<ge> type_flag \<and> masked \<ge> type_flag)) then False
         else if masked > txMasked then False
         else True)"

text \<open>The checker for an input \<open>nIn\<close> of \<open>txTo\<close>; the caller's \<open>nIn\<close> is an index of \<open>vin\<close>, so that
  \<open>SignatureHash\<close> returns (\<open>tx_CheckSig_returns\<close>).\<close>

definition TransactionSignatureChecker ::
    "script_crypto \<Rightarrow> (bytes \<Rightarrow> bytes \<Rightarrow> bytes \<Rightarrow> bool) \<Rightarrow> CTransaction \<Rightarrow> nat \<Rightarrow> 64 word \<Rightarrow>
     PrecomputedTransactionData option \<Rightarrow> signature_checker" where
  "TransactionSignatureChecker c verify txTo nIn amount txdata =
     \<lparr>CheckSig = (\<lambda>vchSig vchPubKey scriptCode sigversion.
        tx_CheckSig c verify txTo nIn amount txdata vchSig vchPubKey scriptCode sigversion = Ret True),
      CheckLockTime = tx_CheckLockTime txTo nIn,
      CheckSequence = tx_CheckSequence txTo nIn\<rparr>"

lemma tx_CheckSig_returns:
  "nIn < length (vin txTo) \<Longrightarrow>
   \<exists>b. tx_CheckSig c verify txTo nIn amount txdata vchSig pk code sigversion = Ret b"
  by (auto simp: tx_CheckSig_def SignatureHash_def)

section \<open>The legacy hash as a hash of a modified transaction\<close>

text \<open>A script from \<open>pc\<close> on without its code separators.\<close>

function without_separators :: "bytes \<Rightarrow> nat \<Rightarrow> bytes" where
  "without_separators script pc =
     (case GetOp2 script pc of (fRet, pc', opcode, _) \<Rightarrow>
        if fRet then (if opcode = OP_CODESEPARATOR then [] else take (pc' - pc) (drop pc script)) @
          without_separators script pc'
        else drop pc script)"
  by pat_completeness auto
termination
  by (relation "measure (\<lambda>(script, pc). length script - pc)") (auto dest: GetOp2_progress [OF sym])

declare without_separators.simps [simp del]

lemma HasValidOps_from_step:
  assumes "HasValidOps_from script pc" and "pc \<le> length script"
  shows "pc = length script \<or> (\<exists>pc' opcode vch. GetOp2 script pc = (True, pc', opcode, vch) \<and>
    pc < pc' \<and> pc' \<le> length script \<and> HasValidOps_from script pc')"
proof (cases "pc < length script")
  case True
  obtain fRet pc' opcode vch where op: "GetOp2 script pc = (fRet, pc', opcode, vch)"
    by (cases "GetOp2 script pc") auto
  with assms(1) True have "fRet" "HasValidOps_from script pc'"
    by (auto simp: HasValidOps_from.simps [of script pc] split: if_splits)
  with op GetOp2_progress show ?thesis by auto
qed (use assms(2) in simp)

lemma codesep_length_one:
  assumes "GetOp2 script pc = (True, pc', OP_CODESEPARATOR, vch)"
  shows "pc' = pc + 1"
  using assms by (auto simp: GetOp2_def Let_def split: if_splits option.splits)

lemma codesep_loops:
  assumes "HasValidOps_from script it" and "it \<le> length script" and "b \<le> it"
    and "codesep_write script it b out = (it2, b2, out2)"
  shows "out2 @ take (it2 - b2) (drop b2 script) =
      out @ take (it - b) (drop b script) @ without_separators script it \<and>
    length (without_separators script it) + codesep_count script it n = n + (length script - it) \<and>
    it2 = length script"
  using assms
proof (induction it arbitrary: b out n rule: scan_induct [of "length script"])
  case (step it)
  from HasValidOps_from_step [OF step.prems(1,2)] show ?case
  proof
    assume "it = length script"
    with step.prems(4) show ?thesis
      by (auto simp: codesep_write.simps [of script "length script"]
          codesep_count.simps [of script "length script"] without_separators.simps [of script "length script"])
  next
    assume "\<exists>pc' opcode vch. GetOp2 script it = (True, pc', opcode, vch) \<and>
      it < pc' \<and> pc' \<le> length script \<and> HasValidOps_from script pc'"
    then obtain it' opcode vch where op: "GetOp2 script it = (True, it', opcode, vch)"
      and it': "it < it'" "it' \<le> length script" and v: "HasValidOps_from script it'" by blast
    show ?thesis
    proof (cases "opcode = OP_CODESEPARATOR")
      case True
      with codesep_length_one op have it1: "it' = it + 1" by blast
      have w: "codesep_write script it' it' (out @ take (it - b) (drop b script)) = (it2, b2, out2)"
        using step.prems(3,4) op True it1 by (simp add: codesep_write.simps [of script it])
      from step.IH [OF it' v it'(2) order_refl w, of "n + 1"] op True it1 it' show ?thesis
        by (auto simp: codesep_count.simps [of script it] without_separators.simps [of script it])
    next
      case False
      have w: "codesep_write script it' b out = (it2, b2, out2)"
        using step.prems(4) op False by (simp add: codesep_write.simps [of script it])
      have "b \<le> it'" using step.prems(3) it' by simp
      have "take (it' - b) (drop b script) = take (it - b) (drop b script) @ take (it' - it) (drop it script)"
        using step.prems(3) it' take_add [of "it - b" "it' - it" "drop b script"] by simp
      with step.IH [OF it' v it'(2) \<open>b \<le> it'\<close> w, of n] op False it' show ?thesis
        by (auto simp: codesep_count.simps [of script it] without_separators.simps [of script it])
    qed
  qed
qed

lemma SerializeScriptCode_eq:
  assumes "HasValidOps script"
  shows "SerializeScriptCode script = ser_bytes (without_separators script 0)"
proof -
  obtain it b out where w: "codesep_write script 0 0 [] = (it, b, out)"
    by (cases "codesep_write script 0 0 []") auto
  have "out @ take (it - b) (drop b script) = without_separators script 0 \<and>
      length (without_separators script 0) + codesep_count script 0 0 = length script \<and> it = length script"
    using codesep_loops [of script 0 0 "[]" it b out 0] w assms by (auto simp: HasValidOps_def)
  moreover from this have "length (without_separators script 0) = length script - codesep_count script 0 0"
    by linarith
  ultimately show ?thesis using w by (auto simp: SerializeScriptCode_def ser_bytes_def)
qed

text \<open>The transaction that is signed: other inputs without scripts, outputs and sequences as the
  hash type selects them.\<close>

definition signed_input :: "CTransaction \<Rightarrow> bytes \<Rightarrow> nat \<Rightarrow> 32 word \<Rightarrow> nat \<Rightarrow> CTxIn" where
  "signed_input tx code nIn nHashType n =
     \<lparr>prevout = prevout (vin tx ! n), scriptSig = (if n = nIn then code else []),
      nSequence = (if n \<noteq> nIn \<and> (fHashSingle nHashType \<or> fHashNone nHashType) then 0
        else nSequence (vin tx ! n)),
      scriptWitness = []\<rparr>"

definition signed_tx :: "CTransaction \<Rightarrow> bytes \<Rightarrow> nat \<Rightarrow> 32 word \<Rightarrow> CTransaction" where
  "signed_tx tx code nIn nHashType =
     \<lparr>vin = map (signed_input tx code nIn nHashType)
        (if fAnyoneCanPay nHashType then [nIn] else [0..<length (vin tx)]),
      vout = (if fHashNone nHashType then []
        else if fHashSingle nHashType then replicate nIn TxOut_null @ [vout tx ! nIn]
        else vout tx),
      nVersion = nVersion tx, nLockTime = nLockTime tx\<rparr>"

lemma SerializeForSignature_eq:
  assumes "HasValidOps script" and "nIn < length (vin tx)"
  shows "SerializeForSignature tx script nIn nHashType =
    SerializeTransaction False (signed_tx tx (without_separators script 0) nIn nHashType)"
proof -
  let ?code = "without_separators script 0"
  have inp: "SerializeInput tx script nIn nHashType = (\<lambda>n.
      ser_TxIn (signed_input tx ?code nIn nHashType (if fAnyoneCanPay nHashType then nIn else n)))"
    by (rule ext) (simp add: SerializeInput_def signed_input_def ser_TxIn_def Let_def
        SerializeScriptCode_eq [OF assms(1)])
  have single: "map (SerializeOutput tx nIn nHashType) [0..<nIn + 1] =
      map ser_TxOut (replicate nIn TxOut_null @ [vout tx ! nIn])" if "fHashSingle nHashType"
    using that by (intro nth_equalityI) (auto simp: SerializeOutput_def nth_append less_Suc_eq simp del: upt_Suc)
  have all: "map (SerializeOutput tx nIn nHashType) [0..<length (vout tx)] = map ser_TxOut (vout tx)"
    if "\<not> fHashSingle nHashType"
  proof -
    have "map (SerializeOutput tx nIn nHashType) [0..<length (vout tx)] =
        map ser_TxOut (map ((!) (vout tx)) [0..<length (vout tx)])"
      using that by (simp add: SerializeOutput_def)
    then show ?thesis by (simp only: map_nth)
  qed
  show ?thesis
    using single all
    by (auto simp: SerializeForSignature_def SerializeTransaction_def signed_tx_def inp ser_vector_def
        comp_def Let_def)
qed



text \<open>The parts of a transaction that a signature with hash type ``all'' signs.\<close>

lemma wf_signed_tx:
  assumes "wf_tx tx" and "length code \<le> MAX_SIZE" and "nIn < length (vin tx)"
    and "\<not> fHashSingle nHashType"
  shows "wf_tx (signed_tx tx code nIn nHashType)"
  using assms by (auto simp: wf_tx_def signed_tx_def signed_input_def wf_TxIn_def wf_witness_def)

lemma signed_tx_all_inj:
  assumes eq: "signed_tx tx code nIn t = signed_tx tx' code' nIn' t'"
    and t: "\<not> fHashSingle t" "\<not> fHashNone t" "\<not> fAnyoneCanPay t"
    and t': "\<not> fHashSingle t'" "\<not> fHashNone t'" "\<not> fAnyoneCanPay t'"
  shows "nVersion tx = nVersion tx' \<and> nLockTime tx = nLockTime tx' \<and> vout tx = vout tx' \<and>
    map prevout (vin tx) = map prevout (vin tx') \<and> map nSequence (vin tx) = map nSequence (vin tx')"
proof -
  have ins: "map (signed_input tx code nIn t) [0..<length (vin tx)] =
      map (signed_input tx' code' nIn' t') [0..<length (vin tx')]"
    using eq t t' by (simp add: signed_tx_def)
  then have len: "length (vin tx) = length (vin tx')" by (metis length_map length_upt minus_nat.diff_0)
  have "prevout (vin tx ! n) = prevout (vin tx' ! n) \<and> nSequence (vin tx ! n) = nSequence (vin tx' ! n)"
    if "n < length (vin tx)" for n
  proof -
    have "signed_input tx code nIn t n = signed_input tx' code' nIn' t' n"
      using ins that len by (metis (no_types, lifting) length_upt minus_nat.diff_0 nth_map nth_upt plus_nat.add_0)
    with t t' show ?thesis by (simp add: signed_input_def)
  qed
  with len eq t t' show ?thesis
    by (auto simp: signed_tx_def intro!: nth_equalityI)
qed

text \<open>C7: two spends signed with hash type ``all'' that have the same signature preimage agree on the
  version, the lock time, every output and every input's outpoint and sequence: a signature
  cannot be moved to a transaction that pays or spends something else.\<close>

theorem sighash_all_commits:
  assumes "legacy_preimage script tx nIn t flags = legacy_preimage script' tx' nIn' t' flags"
    and "wf_tx tx" and "wf_tx tx'" and "nIn < length (vin tx)" and "nIn' < length (vin tx')"
    and "HasValidOps script" and "HasValidOps script'"
    and "length (without_separators script 0) \<le> MAX_SIZE"
    and "length (without_separators script' 0) \<le> MAX_SIZE"
    and "\<not> fHashSingle t" "\<not> fHashNone t" "\<not> fAnyoneCanPay t"
    and "\<not> fHashSingle t'" "\<not> fHashNone t'" "\<not> fAnyoneCanPay t'"
  shows "nVersion tx = nVersion tx' \<and> nLockTime tx = nLockTime tx' \<and> vout tx = vout tx' \<and>
    map prevout (vin tx) = map prevout (vin tx') \<and> map nSequence (vin tx) = map nSequence (vin tx')"
proof -
  let ?s = "signed_tx tx (without_separators script 0) nIn t"
  let ?s' = "signed_tx tx' (without_separators script' 0) nIn' t'"
  have strip: "strip_witness (signed_tx x code n h) = signed_tx x code n h" for x code n h
    by (simp add: strip_witness_def signed_tx_def signed_input_def set_witness_def)
  have "SerializeTransaction False ?s @ ser_writedata32 t @ ub_suffix t flags =
      SerializeTransaction False ?s' @ ser_writedata32 t' @ ub_suffix t' flags"
    using assms(1) SerializeForSignature_eq assms(4-7) by (simp add: legacy_preimage_def)
  moreover have "UnserializeTransaction False (SerializeTransaction False ?s @ r) = Some (?s, r)" for r
    using tx_roundtrip_stripped [of ?s False r] wf_signed_tx assms strip by simp
  moreover have "UnserializeTransaction False (SerializeTransaction False ?s' @ r) = Some (?s', r)" for r
    using tx_roundtrip_stripped [of ?s' False r] wf_signed_tx assms strip by simp
  ultimately have "?s = ?s'" by (metis option.inject prod.inject)
  then show ?thesis using assms(10-15) by (rule signed_tx_all_inj)
qed

theorem sighash_all_commits_witness:
  "vout (sample_tx [[1]]) = vout (sample_tx []) \<and>
   map prevout (vin (sample_tx [[1]])) = map prevout (vin (sample_tx []))"
proof -
  have g: "GetOp2 [0x51] 0 = (True, Suc 0, 0x51, [])" "GetOp2 [0x51] (Suc 0) = (False, Suc 0, 0xff, [])"
    by (simp_all add: GetOp2_def)
  have "HasValidOps [0x51]"
    by (simp add: HasValidOps_def HasValidOps_from.simps [of "[0x51]" 0]
        HasValidOps_from.simps [of "[0x51]" "Suc 0"] g)
  moreover have "length (without_separators [0x51] 0) \<le> MAX_SIZE"
    by (simp add: without_separators.simps [of "[0x51]" 0] without_separators.simps [of "[0x51]" "Suc 0"] g)
  moreover have "legacy_preimage [0x51] (sample_tx [[1]]) 0 1 0 = legacy_preimage [0x51] (sample_tx []) 0 1 0"
    by (simp add: legacy_preimage_def SerializeForSignature_def SerializeInput_def SerializeOutput_def
        sample_tx_def)
  ultimately show ?thesis
    using sighash_all_commits [of "[0x51]" "sample_tx [[1]]" 0 1 0 "[0x51]" "sample_tx []" 0 1]
    by (simp add: fHashSingle_def fHashNone_def fAnyoneCanPay_def sample_tx_def wf_tx_def wf_TxIn_def
        wf_witness_def)
qed

text \<open>Hashing with the precomputed parts of the transaction gives the same hash.\<close>

lemma precomputed_sighash:
  "SignatureHash c code tx nIn t amount v (Some (Precompute c tx)) flags =
   SignatureHash c code tx nIn t amount v None flags"
  by (simp add: SignatureHash_def witness_preimage_def Precompute_def Let_def)

end
