(* ===== verification/Multisig.thy ===== *)
theory Multisig
  imports Sighash EvalProps "HOL-Library.Sublist"
begin

text \<open>
  The matching loop of \<open>OP_CHECKMULTISIG\<close> against its specification, and the contract between the
  interpreter and a signature checker.
\<close>

section \<open>Signature checkers\<close>

text \<open>What the interpreter relies on: the empty signature is never accepted.\<close>

locale sig_checker =
  fixes chk :: signature_checker
  assumes empty_signature: "\<not> CheckSig chk [] pk code v"
begin

lemma multisig_no_empty:
  "env_checker env = chk \<Longrightarrow> multisig_match env code sigs keys = Pass True \<Longrightarrow> [] \<notin> set sigs"
proof (induction env code sigs keys rule: multisig_match.induct)
  case (2 env code vchSig sigs vchPubKey keys)
  have "\<not> CheckSig (env_checker env) [] vchPubKey code (env_sigversion env)"
    using "2.prems"(1) empty_signature by simp
  with 2 show ?case
    by (auto simp: Let_def split: option.splits if_splits)
qed simp_all

end

interpretation base_checker: sig_checker BaseSignatureChecker
  by unfold_locales (simp add: BaseSignatureChecker_def)

interpretation tx_checker: sig_checker "TransactionSignatureChecker c verify txTo nIn amount txdata"
  by unfold_locales (simp add: TransactionSignatureChecker_def tx_CheckSig_def)

section \<open>Matching signatures with keys\<close>

text \<open>Some selection of the keys, in their order, verifies the signatures one by one.\<close>

definition sigs_match :: "(bytes \<Rightarrow> bytes \<Rightarrow> bool) \<Rightarrow> valtype list \<Rightarrow> valtype list \<Rightarrow> bool" where
  "sigs_match ok sigs keys \<longleftrightarrow> (\<exists>ks. subseq ks keys \<and> list_all2 ok sigs ks)"

lemma sigs_match_Nil [simp]: "sigs_match ok [] keys"
  unfolding sigs_match_def by (rule exI [of _ "[]"]) simp

lemma sigs_match_length: "sigs_match ok sigs keys \<Longrightarrow> length sigs \<le> length keys"
  by (metis sigs_match_def list_all2_lengthD list_emb_length)

lemma sigs_match_accept:
  assumes "ok s k"
  shows "sigs_match ok (s # sigs) (k # keys) \<longleftrightarrow> sigs_match ok sigs keys"
proof
  assume "sigs_match ok (s # sigs) (k # keys)"
  then obtain x ks where "subseq (x # ks) (k # keys)" "list_all2 ok sigs ks"
    by (auto simp: sigs_match_def list_all2_Cons1)
  then show "sigs_match ok sigs keys"
    by (auto simp: sigs_match_def dest: subseq_Cons' split: if_splits)
next
  assume "sigs_match ok sigs keys"
  then obtain ks where "subseq ks keys" "list_all2 ok sigs ks" by (auto simp: sigs_match_def)
  with assms have "subseq (k # ks) (k # keys) \<and> list_all2 ok (s # sigs) (k # ks)" by simp
  then show "sigs_match ok (s # sigs) (k # keys)" unfolding sigs_match_def by blast
qed

lemma sigs_match_reject:
  assumes "\<not> ok s k"
  shows "sigs_match ok (s # sigs) (k # keys) \<longleftrightarrow> sigs_match ok (s # sigs) keys"
proof
  assume "sigs_match ok (s # sigs) (k # keys)"
  then obtain x ks where "ok s x" "subseq (x # ks) (k # keys)" "list_all2 ok sigs ks"
    by (auto simp: sigs_match_def list_all2_Cons1)
  with assms have "subseq (x # ks) keys" by (auto simp: subseq_Cons2_iff split: if_splits)
  with \<open>ok s x\<close> \<open>list_all2 ok sigs ks\<close> show "sigs_match ok (s # sigs) keys"
    unfolding sigs_match_def by (intro exI [of _ "x # ks"]) simp
next
  assume "sigs_match ok (s # sigs) keys"
  then show "sigs_match ok (s # sigs) (k # keys)" by (auto simp: sigs_match_def)
qed

lemma multisig_match_eq:
  assumes "\<forall>s \<in> set sigs. CheckSignatureEncoding (env_crypto env) s (env_flags env) = None"
    and "\<forall>k \<in> set keys. CheckPubKeyEncoding k (env_flags env) (env_sigversion env) = None"
    and "length sigs \<le> length keys"
  shows "multisig_match env code sigs keys =
    Pass (sigs_match (\<lambda>s k. CheckSig (env_checker env) s k code (env_sigversion env)) sigs keys)"
  using assms
proof (induction env code sigs keys rule: multisig_match.induct)
  case (2 env code s sigs k keys)
  let ?ok = "\<lambda>s k. CheckSig (env_checker env) s k code (env_sigversion env)"
  let ?sigs = "if ?ok s k then sigs else s # sigs"
  have eq: "sigs_match ?ok (s # sigs) (k # keys) = sigs_match ?ok ?sigs keys"
    by (simp add: sigs_match_accept sigs_match_reject)
  have enc: "CheckSignatureEncoding (env_crypto env) s (env_flags env) = None"
    "CheckPubKeyEncoding k (env_flags env) (env_sigversion env) = None"
    using "2.prems" by simp_all
  show ?case
  proof (cases "length keys < length ?sigs")
    case True
    then have "\<not> sigs_match ?ok ?sigs keys" using sigs_match_length by (metis not_le)
    with True enc eq show ?thesis by (simp add: Let_def)
  next
    case False
    have "multisig_match env code ?sigs keys = Pass (sigs_match ?ok ?sigs keys)"
      using False "2.prems" enc by (intro "2.IH") auto
    with False enc eq show ?thesis by (simp add: Let_def)
  qed
qed simp_all

section \<open>The opcode\<close>

lemma CScriptNum_count:
  assumes "n \<le> 20"
  shows "CScriptNum (scriptnum_serialize (int n)) minimal 4 = Inr (int n)"
proof -
  have "length (scriptnum_serialize (int n)) \<le> 4" using assms by (subst length_serialize_le) simp_all
  then show ?thesis by (simp add: CScriptNum_eq minimal_num_serialize set_vch_serialize)
qed

lemma getint_count [simp]: "n \<le> 20 \<Longrightarrow> getint (int n) = int n"
  by (simp add: getint_def)

text \<open>The clean-up pops its arguments unless the null-fail rule finds a signature that is not empty.\<close>

lemma multisig_cleanup_spec:
  fixes env :: script_env and fSuccess :: bool and ikey2 :: nat
  assumes "n \<le> length stk"
  defines "bad \<equiv> \<not> fSuccess \<and> has_flag (env_flags env) SCRIPT_VERIFY_NULLFAIL \<and>
     (\<exists>x \<in> set (drop ikey2 (take n stk)). x \<noteq> [])"
  shows "case multisig_cleanup env fSuccess n ikey2 stk of
     Inl stk' \<Rightarrow> bad | Inr stk' \<Rightarrow> \<not> bad \<and> stk' = drop n stk"
  using assms(1) unfolding bad_def
proof (induction env fSuccess n ikey2 stk rule: multisig_cleanup.induct)
  case (2 env fSuccess n ikey2 stk)
  then obtain x xs where "stk = x # xs" by (cases stk) auto
  with 2 show ?case by (cases ikey2) (auto split: sum.splits)
qed simp_all

text \<open>C9: \<open>OP_CHECKMULTISIG\<close> with well encoded signatures and keys.  The opcode leaves true exactly
  when some selection of the keys, in their order, verifies the signatures one by one: the single
  pass with its early exit loses no match.  When it does not match, the null-fail rule stops the
  script if a signature is not empty, and false is left otherwise.  All arguments are consumed and
  the keys count as operations.\<close>

theorem multisig_accepts_iff:
  fixes env :: script_env
  assumes stack: "st_stack st = scriptnum_serialize (int (length keys)) # keys @
      scriptnum_serialize (int (length sigs)) # sigs @ dummy # rest"
    and counts: "length sigs \<le> length keys" "length keys \<le> 20" "st_ops st + length keys \<le> 201"
    and sig_enc: "\<forall>s \<in> set sigs. CheckSignatureEncoding (env_crypto env) s (env_flags env) = None"
    and key_enc: "\<forall>k \<in> set keys. CheckPubKeyEncoding k (env_flags env) (env_sigversion env) = None"
    and code: "multisig_script_code env sigs (drop (st_codehash st) script) = Pass code"
    and dummy: "has_flag (env_flags env) SCRIPT_VERIFY_NULLDUMMY \<longrightarrow> dummy = []"
  defines "ok \<equiv> \<lambda>s k. CheckSig (env_checker env) s k code (env_sigversion env)"
  shows "let st' = st\<lparr>st_ops := st_ops st + length keys\<rparr>;
             r = op_CHECKMULTISIG env script OP_CHECKMULTISIG st
    in if sigs_match ok sigs keys then r = Next (st'\<lparr>st_stack := vchTrue # rest\<rparr>)
       else if has_flag (env_flags env) SCRIPT_VERIFY_NULLFAIL \<and> (\<exists>s \<in> set sigs. s \<noteq> [])
       then \<exists>stk. r = fail (st'\<lparr>st_stack := stk\<rparr>) SCRIPT_ERR_SIG_NULLFAIL
       else r = Next (st'\<lparr>st_stack := vchFalse # rest\<rparr>)"
proof -
  let ?st = "st\<lparr>st_ops := st_ops st + length keys\<rparr>"
  let ?n = "length keys + length sigs + 2" and ?m = "sigs_match ok sigs keys"
  let ?clean = "multisig_cleanup env ?m ?n (length keys + 2) (st_stack st)"
  have run: "op_CHECKMULTISIG env script OP_CHECKMULTISIG st =
      multisig_run env script OP_CHECKMULTISIG (length keys) (length sigs) ?st"
    using counts by (simp add: op_CHECKMULTISIG_def stack CScriptNum_count Let_def nth_append)
  have "multisig_match env code sigs keys = Pass ?m"
    unfolding ok_def using sig_enc key_enc counts(1) by (rule multisig_match_eq)
  then have res: "op_CHECKMULTISIG env script OP_CHECKMULTISIG st =
      (case ?clean of Inl stk' \<Rightarrow> fail (?st\<lparr>st_stack := stk'\<rparr>) SCRIPT_ERR_SIG_NULLFAIL
       | Inr stk' \<Rightarrow> multisig_result env OP_CHECKMULTISIG ?m ?st stk')"
    unfolding run multisig_run_def by (simp add: Let_def stack code)
  have n: "?n \<le> length (st_stack st)" and left: "drop ?n (st_stack st) = dummy # rest"
    and args: "drop (length keys + 2) (take ?n (st_stack st)) = sigs"
    by (simp_all add: stack)
  have result: "multisig_result env OP_CHECKMULTISIG b ?st (dummy # rest) =
      Next (?st\<lparr>st_stack := vch_bool b # rest\<rparr>)" for b
    using dummy by (auto simp: multisig_result_def)
  show ?thesis
    using multisig_cleanup_spec [OF n, where env = env and fSuccess = ?m and ?ikey2.0 = "length keys + 2",
      unfolded args left]
    by (cases ?clean) (auto simp: res result Let_def)
qed

theorem multisig_accepts_iff_witness:
  "op_CHECKMULTISIG ((sample_env 0 0)\<lparr>env_sigversion := SIGVERSION_WITNESS_V0\<rparr>) [] OP_CHECKMULTISIG
     (init_state [scriptnum_serialize 2, [2], [3], scriptnum_serialize 1, [1], []]) =
   Next ((init_state [vchTrue])\<lparr>st_ops := 2\<rparr>)"
proof -
  have "sigs_match (\<lambda>s k. True) [[1 :: byte]] [[2], [3]]"
    unfolding sigs_match_def by (intro exI [of _ "[[2]]"]) simp
  then show ?thesis
    using multisig_accepts_iff [of "init_state [scriptnum_serialize 2, [2], [3], scriptnum_serialize 1, [1], []]"
        "[[2], [3]]" "[[1]]" "[]" "[]" "(sample_env 0 0)\<lparr>env_sigversion := SIGVERSION_WITNESS_V0\<rparr>" "[]" "[]"]
    by (simp add: CheckSignatureEncoding_def CheckPubKeyEncoding_def has_flag_def Let_def init_state_def
        require_forkid_def uses_forkid_def sample_env_def flip: numeral_2_eq_2)
qed

end
