(* ===== verification/OpNames.thy ===== *)
theory OpNames
  imports Script
begin

text \<open>
  The opcodes as the enumeration of \<^verbatim>\<open>src/script/script.h\<close> lists them, and the names
  \<^verbatim>\<open>GetOpName\<close> of \<^verbatim>\<open>src/script/script.cpp\<close> prints.
\<close>

definition opcodetype :: "(string \<times> nat) list" where
  "opcodetype =
    [
     (''OP_0'', OP_0), (''OP_FALSE'', OP_FALSE), (''OP_PUSHDATA1'', OP_PUSHDATA1),
     (''OP_PUSHDATA2'', OP_PUSHDATA2), (''OP_PUSHDATA4'', OP_PUSHDATA4),
     (''OP_1NEGATE'', OP_1NEGATE), (''OP_RESERVED'', OP_RESERVED), (''OP_1'', OP_1),
     (''OP_TRUE'', OP_TRUE), (''OP_2'', OP_2), (''OP_3'', OP_3), (''OP_4'', OP_4),
     (''OP_5'', OP_5), (''OP_6'', OP_6), (''OP_7'', OP_7), (''OP_8'', OP_8), (''OP_9'', OP_9),
     (''OP_10'', OP_10), (''OP_11'', OP_11), (''OP_12'', OP_12), (''OP_13'', OP_13),
     (''OP_14'', OP_14), (''OP_15'', OP_15), (''OP_16'', OP_16), (''OP_NOP'', OP_NOP),
     (''OP_VER'', OP_VER), (''OP_IF'', OP_IF), (''OP_NOTIF'', OP_NOTIF), (''OP_VERIF'', OP_VERIF),
     (''OP_VERNOTIF'', OP_VERNOTIF), (''OP_ELSE'', OP_ELSE), (''OP_ENDIF'', OP_ENDIF),
     (''OP_VERIFY'', OP_VERIFY), (''OP_RETURN'', OP_RETURN), (''OP_TOALTSTACK'', OP_TOALTSTACK),
     (''OP_FROMALTSTACK'', OP_FROMALTSTACK), (''OP_2DROP'', OP_2DROP), (''OP_2DUP'', OP_2DUP),
     (''OP_3DUP'', OP_3DUP), (''OP_2OVER'', OP_2OVER), (''OP_2ROT'', OP_2ROT),
     (''OP_2SWAP'', OP_2SWAP), (''OP_IFDUP'', OP_IFDUP), (''OP_DEPTH'', OP_DEPTH),
     (''OP_DROP'', OP_DROP), (''OP_DUP'', OP_DUP), (''OP_NIP'', OP_NIP), (''OP_OVER'', OP_OVER),
     (''OP_PICK'', OP_PICK), (''OP_ROLL'', OP_ROLL), (''OP_ROT'', OP_ROT), (''OP_SWAP'', OP_SWAP),
     (''OP_TUCK'', OP_TUCK), (''OP_CAT'', OP_CAT), (''OP_SUBSTR'', OP_SUBSTR),
     (''OP_LEFT'', OP_LEFT), (''OP_RIGHT'', OP_RIGHT), (''OP_SIZE'', OP_SIZE),
     (''OP_INVERT'', OP_INVERT), (''OP_AND'', OP_AND), (''OP_OR'', OP_OR), (''OP_XOR'', OP_XOR),
     (''OP_EQUAL'', OP_EQUAL), (''OP_EQUALVERIFY'', OP_EQUALVERIFY),
     (''OP_RESERVED1'', OP_RESERVED1), (''OP_RESERVED2'', OP_RESERVED2), (''OP_1ADD'', OP_1ADD),
     (''OP_1SUB'', OP_1SUB), (''OP_2MUL'', OP_2MUL), (''OP_2DIV'', OP_2DIV),
     (''OP_NEGATE'', OP_NEGATE), (''OP_ABS'', OP_ABS), (''OP_NOT'', OP_NOT),
     (''OP_0NOTEQUAL'', OP_0NOTEQUAL), (''OP_ADD'', OP_ADD), (''OP_SUB'', OP_SUB),
     (''OP_MUL'', OP_MUL), (''OP_DIV'', OP_DIV), (''OP_MOD'', OP_MOD), (''OP_LSHIFT'', OP_LSHIFT),
     (''OP_RSHIFT'', OP_RSHIFT), (''OP_BOOLAND'', OP_BOOLAND), (''OP_BOOLOR'', OP_BOOLOR),
     (''OP_NUMEQUAL'', OP_NUMEQUAL), (''OP_NUMEQUALVERIFY'', OP_NUMEQUALVERIFY),
     (''OP_NUMNOTEQUAL'', OP_NUMNOTEQUAL), (''OP_LESSTHAN'', OP_LESSTHAN),
     (''OP_GREATERTHAN'', OP_GREATERTHAN), (''OP_LESSTHANOREQUAL'', OP_LESSTHANOREQUAL),
     (''OP_GREATERTHANOREQUAL'', OP_GREATERTHANOREQUAL), (''OP_MIN'', OP_MIN),
     (''OP_MAX'', OP_MAX), (''OP_WITHIN'', OP_WITHIN), (''OP_RIPEMD160'', OP_RIPEMD160),
     (''OP_SHA1'', OP_SHA1), (''OP_SHA256'', OP_SHA256), (''OP_HASH160'', OP_HASH160),
     (''OP_HASH256'', OP_HASH256), (''OP_CODESEPARATOR'', OP_CODESEPARATOR),
     (''OP_CHECKSIG'', OP_CHECKSIG), (''OP_CHECKSIGVERIFY'', OP_CHECKSIGVERIFY),
     (''OP_CHECKMULTISIG'', OP_CHECKMULTISIG),
     (''OP_CHECKMULTISIGVERIFY'', OP_CHECKMULTISIGVERIFY), (''OP_NOP1'', OP_NOP1),
     (''OP_CHECKLOCKTIMEVERIFY'', OP_CHECKLOCKTIMEVERIFY), (''OP_NOP2'', OP_NOP2),
     (''OP_CHECKSEQUENCEVERIFY'', OP_CHECKSEQUENCEVERIFY), (''OP_NOP3'', OP_NOP3),
     (''OP_NOP4'', OP_NOP4), (''OP_NOP5'', OP_NOP5), (''OP_NOP6'', OP_NOP6),
     (''OP_NOP7'', OP_NOP7), (''OP_NOP8'', OP_NOP8), (''OP_NOP9'', OP_NOP9),
     (''OP_NOP10'', OP_NOP10), (''OP_CREATE_NATIVE'', OP_CREATE_NATIVE),
     (''OP_CREATE'', OP_CREATE), (''OP_UPGRADE'', OP_UPGRADE), (''OP_DESTROY'', OP_DESTROY),
     (''OP_CALL'', OP_CALL), (''OP_SPEND'', OP_SPEND),
     (''OP_DEPOSIT_TO_CONTRACT'', OP_DEPOSIT_TO_CONTRACT), (''OP_GAS_PRICE'', OP_GAS_PRICE),
     (''OP_GAS_LIMIT'', OP_GAS_LIMIT), (''OP_DATA'', OP_DATA), (''OP_VERSION'', OP_VERSION),
     (''OP_ROOT_STATE_HASH'', OP_ROOT_STATE_HASH), (''OP_SMALLINTEGER'', OP_SMALLINTEGER),
     (''OP_PUBKEYS'', OP_PUBKEYS), (''OP_PUBKEYHASH'', OP_PUBKEYHASH), (''OP_PUBKEY'', OP_PUBKEY),
     (''OP_INVALIDOPCODE'', OP_INVALIDOPCODE)
    ]"

definition op_names :: "(nat \<times> string) list" where
  "op_names =
    [
     (OP_0, ''0''), (OP_PUSHDATA1, ''OP_PUSHDATA1''), (OP_PUSHDATA2, ''OP_PUSHDATA2''),
     (OP_PUSHDATA4, ''OP_PUSHDATA4''), (OP_1NEGATE, ''-1''), (OP_RESERVED, ''OP_RESERVED''),
     (OP_1, ''1''), (OP_2, ''2''), (OP_3, ''3''), (OP_4, ''4''), (OP_5, ''5''), (OP_6, ''6''),
     (OP_7, ''7''), (OP_8, ''8''), (OP_9, ''9''), (OP_10, ''10''), (OP_11, ''11''),
     (OP_12, ''12''), (OP_13, ''13''), (OP_14, ''14''), (OP_15, ''15''), (OP_16, ''16''),
     (OP_NOP, ''OP_NOP''), (OP_VER, ''OP_VER''), (OP_IF, ''OP_IF''), (OP_NOTIF, ''OP_NOTIF''),
     (OP_VERIF, ''OP_VERIF''), (OP_VERNOTIF, ''OP_VERNOTIF''), (OP_ELSE, ''OP_ELSE''),
     (OP_ENDIF, ''OP_ENDIF''), (OP_VERIFY, ''OP_VERIFY''), (OP_RETURN, ''OP_RETURN''),
     (OP_TOALTSTACK, ''OP_TOALTSTACK''), (OP_FROMALTSTACK, ''OP_FROMALTSTACK''),
     (OP_2DROP, ''OP_2DROP''), (OP_2DUP, ''OP_2DUP''), (OP_3DUP, ''OP_3DUP''),
     (OP_2OVER, ''OP_2OVER''), (OP_2ROT, ''OP_2ROT''), (OP_2SWAP, ''OP_2SWAP''),
     (OP_IFDUP, ''OP_IFDUP''), (OP_DEPTH, ''OP_DEPTH''), (OP_DROP, ''OP_DROP''),
     (OP_DUP, ''OP_DUP''), (OP_NIP, ''OP_NIP''), (OP_OVER, ''OP_OVER''), (OP_PICK, ''OP_PICK''),
     (OP_ROLL, ''OP_ROLL''), (OP_ROT, ''OP_ROT''), (OP_SWAP, ''OP_SWAP''), (OP_TUCK, ''OP_TUCK''),
     (OP_CAT, ''OP_CAT''), (OP_SUBSTR, ''OP_SUBSTR''), (OP_LEFT, ''OP_LEFT''),
     (OP_RIGHT, ''OP_RIGHT''), (OP_SIZE, ''OP_SIZE''), (OP_INVERT, ''OP_INVERT''),
     (OP_AND, ''OP_AND''), (OP_OR, ''OP_OR''), (OP_XOR, ''OP_XOR''), (OP_EQUAL, ''OP_EQUAL''),
     (OP_EQUALVERIFY, ''OP_EQUALVERIFY''), (OP_RESERVED1, ''OP_RESERVED1''),
     (OP_RESERVED2, ''OP_RESERVED2''), (OP_1ADD, ''OP_1ADD''), (OP_1SUB, ''OP_1SUB''),
     (OP_2MUL, ''OP_2MUL''), (OP_2DIV, ''OP_2DIV''), (OP_NEGATE, ''OP_NEGATE''),
     (OP_ABS, ''OP_ABS''), (OP_NOT, ''OP_NOT''), (OP_0NOTEQUAL, ''OP_0NOTEQUAL''),
     (OP_ADD, ''OP_ADD''), (OP_SUB, ''OP_SUB''), (OP_MUL, ''OP_MUL''), (OP_DIV, ''OP_DIV''),
     (OP_MOD, ''OP_MOD''), (OP_LSHIFT, ''OP_LSHIFT''), (OP_RSHIFT, ''OP_RSHIFT''),
     (OP_BOOLAND, ''OP_BOOLAND''), (OP_BOOLOR, ''OP_BOOLOR''), (OP_NUMEQUAL, ''OP_NUMEQUAL''),
     (OP_NUMEQUALVERIFY, ''OP_NUMEQUALVERIFY''), (OP_NUMNOTEQUAL, ''OP_NUMNOTEQUAL''),
     (OP_LESSTHAN, ''OP_LESSTHAN''), (OP_GREATERTHAN, ''OP_GREATERTHAN''),
     (OP_LESSTHANOREQUAL, ''OP_LESSTHANOREQUAL''),
     (OP_GREATERTHANOREQUAL, ''OP_GREATERTHANOREQUAL''), (OP_MIN, ''OP_MIN''),
     (OP_MAX, ''OP_MAX''), (OP_WITHIN, ''OP_WITHIN''), (OP_RIPEMD160, ''OP_RIPEMD160''),
     (OP_SHA1, ''OP_SHA1''), (OP_SHA256, ''OP_SHA256''), (OP_HASH160, ''OP_HASH160''),
     (OP_HASH256, ''OP_HASH256''), (OP_CODESEPARATOR, ''OP_CODESEPARATOR''),
     (OP_CHECKSIG, ''OP_CHECKSIG''), (OP_CHECKSIGVERIFY, ''OP_CHECKSIGVERIFY''),
     (OP_CHECKMULTISIG, ''OP_CHECKMULTISIG''),
     (OP_CHECKMULTISIGVERIFY, ''OP_CHECKMULTISIGVERIFY''), (OP_NOP1, ''OP_NOP1''),
     (OP_CHECKLOCKTIMEVERIFY, ''OP_CHECKLOCKTIMEVERIFY''),
     (OP_CHECKSEQUENCEVERIFY, ''OP_CHECKSEQUENCEVERIFY''), (OP_NOP4, ''OP_NOP4''),
     (OP_NOP5, ''OP_NOP5''), (OP_NOP6, ''OP_NOP6''), (OP_NOP7, ''OP_NOP7''),
     (OP_NOP8, ''OP_NOP8''), (OP_NOP9, ''OP_NOP9''), (OP_NOP10, ''OP_NOP10''),
     (OP_CREATE, ''OP_CREATE''), (OP_CREATE_NATIVE, ''OP_CREATE_NATIVE''),
     (OP_UPGRADE, ''OP_UPGRADE''), (OP_DESTROY, ''OP_DESTROY''), (OP_CALL, ''OP_CALL''),
     (OP_SPEND, ''OP_SPEND''), (OP_DEPOSIT_TO_CONTRACT, ''OP_DEPOSIT_TO_CONTRACT''),
     (OP_GAS_PRICE, ''OP_GAS_PRICE''), (OP_GAS_LIMIT, ''OP_GAS_LIMIT''), (OP_DATA, ''OP_DATA''),
     (OP_VERSION, ''OP_VERSION''), (OP_ROOT_STATE_HASH, ''OP_ROOT_STATE_HASH''),
     (OP_INVALIDOPCODE, ''OP_INVALIDOPCODE'')
    ]"

definition GetOpName :: "nat \<Rightarrow> string" where
  "GetOpName opcode = (case map_of op_names opcode of Some name \<Rightarrow> name | None \<Rightarrow> ''OP_UNKNOWN'')"

lemma op_codes_distinct: "distinct (map fst op_names)"
  by (simp add: op_names_def)

lemma op_names_distinct: "distinct (map snd op_names)"
  by (simp add: op_names_def)

lemma op_names_known: "''OP_UNKNOWN'' \<notin> snd ` set op_names"
  by (simp add: op_names_def)

text \<open>The name tells the opcode, except for the opcodes printed as unknown.\<close>

lemma GetOpName_inj:
  assumes "GetOpName a = GetOpName b" and "GetOpName a \<noteq> ''OP_UNKNOWN''"
  shows "a = b"
proof -
  obtain s where s: "map_of op_names a = Some s" "map_of op_names b = Some s"
    using assms op_names_known
    by (auto simp: GetOpName_def split: option.splits)
  then have "(a, s) \<in> set op_names" "(b, s) \<in> set op_names" by (auto dest: map_of_SomeD)
  then show ?thesis using op_names_distinct by (force simp: distinct_map inj_on_def)
qed

end
