(* ===== verification/Block.thy ===== *)
theory Block
  imports Transaction
begin

text \<open>
  Blocks and block headers (\<^verbatim>\<open>src/src/primitives/block.h\<close> and \<^verbatim>\<open>.cpp\<close>): data, stream format, identifier
  and the mining type bits of the version.
\<close>

section \<open>Headers and blocks\<close>

record CBlockHeader =
  h_nVersion :: "32 word"
  hashPrevBlock :: bytes
  h_hashMerkleRoot :: bytes
  h_nTime :: "32 word"
  h_nBits :: "32 word"
  h_nNonce :: "32 word"

record CBlock = CBlockHeader +
  vtx :: "CTransaction list"
  fChecked :: bool

abbreviation (input) MINING_TYPE_POW :: "32 word" where "MINING_TYPE_POW \<equiv> 0x02000000"
abbreviation (input) MINING_TYPE_POS :: "32 word" where "MINING_TYPE_POS \<equiv> 0x01000000"

definition Header_null :: CBlockHeader where
  "Header_null = \<lparr>h_nVersion = 0, hashPrevBlock = uint256_null, h_hashMerkleRoot = uint256_null,
     h_nTime = 0, h_nBits = 0, h_nNonce = 0\<rparr>"

definition Header_IsNull :: "'a CBlockHeader_scheme \<Rightarrow> bool" where
  "Header_IsNull h \<longleftrightarrow> h_nBits h = 0"

definition Header_IsProofOfStake :: "'a CBlockHeader_scheme \<Rightarrow> bool" where
  "Header_IsProofOfStake h \<longleftrightarrow> h_nVersion h AND MINING_TYPE_POS \<noteq> 0"

definition Header_IsProofOfWork :: "'a CBlockHeader_scheme \<Rightarrow> bool" where
  "Header_IsProofOfWork h \<longleftrightarrow> h_nVersion h AND MINING_TYPE_POW \<noteq> 0"

definition Header_GetBlockTime :: "'a CBlockHeader_scheme \<Rightarrow> int" where
  "Header_GetBlockTime h = uint (h_nTime h)"

definition GetBlockHeader :: "CBlock \<Rightarrow> CBlockHeader" where
  "GetBlockHeader b = \<lparr>h_nVersion = h_nVersion b, hashPrevBlock = hashPrevBlock b,
     h_hashMerkleRoot = h_hashMerkleRoot b, h_nTime = h_nTime b, h_nBits = h_nBits b,
     h_nNonce = h_nNonce b\<rparr>"

definition Block_of_header :: "CBlockHeader \<Rightarrow> CBlock" where
  "Block_of_header h = CBlockHeader.extend h \<lparr>vtx = [], fChecked = False\<rparr>"

section \<open>Stream format\<close>

definition ser_Header :: "CBlockHeader \<Rightarrow> bytes" where
  "ser_Header h = ser_writedata32 (h_nVersion h) @ hashPrevBlock h @ h_hashMerkleRoot h @
     ser_writedata32 (h_nTime h) @ ser_writedata32 (h_nBits h) @ ser_writedata32 (h_nNonce h)"

definition unser_Header :: "CBlockHeader reader" where
  "unser_Header s = do {
     (v, s) \<leftarrow> ser_readdata32 s;
     (p, s) \<leftarrow> read_bytes 32 s;
     (m, s) \<leftarrow> read_bytes 32 s;
     (t, s) \<leftarrow> ser_readdata32 s;
     (b, s) \<leftarrow> ser_readdata32 s;
     (n, s) \<leftarrow> ser_readdata32 s;
     Some (\<lparr>h_nVersion = v, hashPrevBlock = p, h_hashMerkleRoot = m, h_nTime = t, h_nBits = b,
       h_nNonce = n\<rparr>, s) }"

definition ser_Block :: "CBlock \<Rightarrow> bytes" where
  "ser_Block b = ser_Header (GetBlockHeader b) @ ser_vector (SerializeTransaction True) (vtx b)"

definition unser_Block :: "CBlock reader" where
  "unser_Block s = do {
     (h, s) \<leftarrow> unser_Header s;
     (txs, s) \<leftarrow> unser_vector (UnserializeTransaction True) s;
     Some ((Block_of_header h)\<lparr>vtx := txs\<rparr>, s) }"

definition GetHash :: "script_crypto \<Rightarrow> CBlockHeader \<Rightarrow> bytes" where
  "GetHash c h = Hash256 c (ser_Header h)"

definition GetBlockWeight :: "CBlock \<Rightarrow> nat" where
  "GetBlockWeight b =
     length (ser_Header (GetBlockHeader b) @ ser_vector (SerializeTransaction False) (vtx b)) * (4 - 1) +
     length (ser_Block b)"

section \<open>The formats satisfy the contracts of \<open>Serialize\<close>\<close>

definition wf_Header :: "CBlockHeader \<Rightarrow> bool" where
  "wf_Header h \<longleftrightarrow> length (hashPrevBlock h) = 32 \<and> length (h_hashMerkleRoot h) = 32"

lemma length_ser_writedata32 [simp]: "length (ser_writedata32 w) = 4"
  by (simp add: ser_writedata32_def)

lemma length_ser_Header: "wf_Header h \<Longrightarrow> length (ser_Header h) = 80"
  by (simp add: wf_Header_def ser_Header_def)

interpretation header: strict_codec ser_Header unser_Header wf_Header
proof
  fix h :: CBlockHeader and rest assume "wf_Header h"
  then show "unser_Header (ser_Header h @ rest) = Some (h, rest)"
    by (simp add: unser_Header_def ser_Header_def wf_Header_def word32.dec_enc)
next
  fix s rest and h :: CBlockHeader assume "unser_Header s = Some (h, rest)"
  then show "wf_Header h \<and> s = ser_Header h @ rest"
    by (auto simp: unser_Header_def ser_Header_def wf_Header_def read_fixed bind_eq_Some_conv
        dest!: word32.dec_sound)
qed

text \<open>A block is read back when each of its transactions is; \<open>fChecked\<close> is memory only.\<close>

definition wf_block :: "CBlock \<Rightarrow> bool" where
  "wf_block b \<longleftrightarrow> wf_Header (GetBlockHeader b) \<and> length (vtx b) \<le> MAX_SIZE \<and> \<not> fChecked b \<and>
     (\<forall>tx \<in> set (vtx b). wf_tx tx \<and> (vin tx \<noteq> [] \<or> vout tx = []))"

interpretation transactions: codec "ser_vector (SerializeTransaction True)"
  "unser_vector (UnserializeTransaction True)"
  "\<lambda>txs. length txs \<le> MAX_SIZE \<and> (\<forall>tx \<in> set txs. wf_tx tx \<and> (vin tx \<noteq> [] \<or> vout tx = []))"
  by (rule transaction.vector_codec)

interpretation block: codec ser_Block unser_Block wf_block
proof
  fix b :: CBlock and rest assume b: "wf_block b"
  then have "unser_vector (UnserializeTransaction True)
      (ser_vector (SerializeTransaction True) (vtx b) @ rest) = Some (vtx b, rest)"
    by (intro transactions.dec_enc) (auto simp: wf_block_def)
  with b show "unser_Block (ser_Block b @ rest) = Some (b, rest)"
    by (simp add: unser_Block_def ser_Block_def wf_block_def header.dec_enc)
      (simp add: GetBlockHeader_def Block_of_header_def CBlockHeader.defs)
qed

end
