(* ===== verification/ArithUint256.thy ===== *)
theory ArithUint256
  imports Prelude
begin

text \<open>
  The 256 bit integers of \<^verbatim>\<open>src/src/arith_uint256.h\<close> and \<^verbatim>\<open>src/src/arith_uint256.cpp\<close>: eight words of 32
  bits, least significant first, with the loops of the source.  \<open>limbs\<close> is the number an array stands
  for, and each operation is proved to be the arithmetic operation modulo \<open>2 ^ 256\<close>.
\<close>

named_theorems limb_simps \<open>operations on arrays as arithmetic\<close>

section \<open>Arrays of words\<close>

type_synonym base_uint = "32 word list"

abbreviation (input) WIDTH :: nat where "WIDTH \<equiv> 8"

definition base_uint_of :: "64 word \<Rightarrow> base_uint" where
  "base_uint_of b = ucast b # ucast (drop_bit 32 b) # replicate (WIDTH - 2) 0"

definition bu_not :: "base_uint \<Rightarrow> base_uint" where
  "bu_not a = map NOT a"

fun bu_inc :: "base_uint \<Rightarrow> base_uint" where
  "bu_inc [] = []"
| "bu_inc (x # xs) = (if x + 1 = 0 then (x + 1) # bu_inc xs else (x + 1) # xs)"

definition bu_neg :: "base_uint \<Rightarrow> base_uint" where
  "bu_neg a = bu_inc (bu_not a)"

fun add_carry :: "64 word \<Rightarrow> base_uint \<Rightarrow> base_uint \<Rightarrow> base_uint" where
  "add_carry carry (x # xs) (y # ys) =
     (let n = carry + ucast x + ucast y
      in ucast (n AND 0xffffffff) # add_carry (drop_bit 32 n) xs ys)"
| "add_carry carry xs ys = []"

definition bu_add :: "base_uint \<Rightarrow> base_uint \<Rightarrow> base_uint" where
  "bu_add a b = add_carry 0 a b"

definition bu_sub :: "base_uint \<Rightarrow> base_uint \<Rightarrow> base_uint" where
  "bu_sub a b = bu_add a (bu_neg b)"

fun mul32_carry :: "64 word \<Rightarrow> 32 word \<Rightarrow> base_uint \<Rightarrow> base_uint" where
  "mul32_carry carry b32 [] = []"
| "mul32_carry carry b32 (x # xs) =
     (let n = carry + ucast b32 * ucast x
      in ucast (n AND 0xffffffff) # mul32_carry (drop_bit 32 n) b32 xs)"

definition bu_mul32 :: "base_uint \<Rightarrow> 32 word \<Rightarrow> base_uint" where
  "bu_mul32 a b32 = mul32_carry 0 b32 a"

text \<open>The inner loop of the product: \<open>ps\<close> are the words from \<open>j\<close> on, and it ends with them.\<close>

fun mul_row :: "32 word \<Rightarrow> 64 word \<Rightarrow> base_uint \<Rightarrow> base_uint \<Rightarrow> base_uint" where
  "mul_row aj carry (p # ps) (b # bs) =
     (let n = carry + ucast p + ucast aj * ucast b
      in ucast (n AND 0xffffffff) # mul_row aj (drop_bit 32 n) ps bs)"
| "mul_row aj carry ps bs = ps"

definition bu_mul :: "base_uint \<Rightarrow> base_uint \<Rightarrow> base_uint" where
  "bu_mul a b =
     fold (\<lambda>j pn. take j pn @ mul_row (a ! j) 0 (drop j pn) b) [0..<WIDTH] (replicate WIDTH 0)"

definition shl_step :: "nat \<Rightarrow> nat \<Rightarrow> base_uint \<Rightarrow> nat \<Rightarrow> base_uint \<Rightarrow> base_uint" where
  "shl_step k shift a i pn =
     (let pn = (if i + k + 1 < WIDTH \<and> shift \<noteq> 0
          then pn[i + k + 1 := pn ! (i + k + 1) OR drop_bit (32 - shift) (a ! i)] else pn)
      in if i + k < WIDTH then pn[i + k := pn ! (i + k) OR push_bit shift (a ! i)] else pn)"

definition bu_shl :: "base_uint \<Rightarrow> nat \<Rightarrow> base_uint" where
  "bu_shl a shift =
     fold (shl_step (shift div 32) (shift mod 32) a) [0..<WIDTH] (replicate WIDTH 0)"

definition shr_step :: "nat \<Rightarrow> nat \<Rightarrow> base_uint \<Rightarrow> nat \<Rightarrow> base_uint \<Rightarrow> base_uint" where
  "shr_step k shift a i pn =
     (let pn = (if i \<ge> k + 1 \<and> shift \<noteq> 0
          then pn[i - k - 1 := pn ! (i - k - 1) OR push_bit (32 - shift) (a ! i)] else pn)
      in if i \<ge> k then pn[i - k := pn ! (i - k) OR drop_bit shift (a ! i)] else pn)"

definition bu_shr :: "base_uint \<Rightarrow> nat \<Rightarrow> base_uint" where
  "bu_shr a shift =
     fold (shr_step (shift div 32) (shift mod 32) a) [0..<WIDTH] (replicate WIDTH 0)"

text \<open>The loops that go down from the most significant word, over the words below \<open>pos\<close>.\<close>

fun top_bit :: "32 word \<Rightarrow> nat \<Rightarrow> nat" where
  "top_bit w 0 = 0"
| "top_bit w (Suc nbits) = (if w AND push_bit (Suc nbits) 1 \<noteq> 0 then Suc nbits else top_bit w nbits)"

fun bits_below :: "base_uint \<Rightarrow> nat \<Rightarrow> nat" where
  "bits_below pn 0 = 0"
| "bits_below pn (Suc pos) =
     (if pn ! pos \<noteq> 0 then 32 * pos + top_bit (pn ! pos) 31 + 1 else bits_below pn pos)"

definition bu_bits :: "base_uint \<Rightarrow> nat" where
  "bu_bits pn = bits_below pn WIDTH"

fun compare_below :: "base_uint \<Rightarrow> base_uint \<Rightarrow> nat \<Rightarrow> int" where
  "compare_below a b 0 = 0"
| "compare_below a b (Suc i) =
     (if a ! i < b ! i then -1 else if a ! i > b ! i then 1 else compare_below a b i)"

definition CompareTo :: "base_uint \<Rightarrow> base_uint \<Rightarrow> int" where
  "CompareTo a b = compare_below a b WIDTH"

definition EqualTo :: "base_uint \<Rightarrow> 64 word \<Rightarrow> bool" where
  "EqualTo pn b \<longleftrightarrow>
     \<not> list_ex (\<lambda>i. pn ! i \<noteq> 0) (rev [2..<WIDTH]) \<and>
     ucast (pn ! 1) = drop_bit 32 b \<and> ucast (pn ! 0) = b AND 0xffffffff"

definition GetLow64 :: "base_uint \<Rightarrow> 64 word" where
  "GetLow64 pn = ucast (pn ! 0) OR push_bit 32 (ucast (pn ! 1))"

text \<open>The division loop: \<open>div_loop (shift + 1)\<close> is the state of the source's loop at \<open>shift\<close>.\<close>

fun div_loop :: "nat \<Rightarrow> base_uint \<Rightarrow> base_uint \<Rightarrow> base_uint \<Rightarrow> base_uint" where
  "div_loop 0 num d pn = pn"
| "div_loop (Suc shift) num d pn =
     (if CompareTo num d \<ge> 0
      then div_loop shift (bu_sub num d) (bu_shr d 1)
             (pn[shift div 32 := pn ! (shift div 32) OR push_bit (shift mod 32) 1])
      else div_loop shift num (bu_shr d 1) pn)"

text \<open>\<^const>\<open>None\<close> is the exception \<^verbatim>\<open>uint_error("Division by zero")\<close>.\<close>

definition bu_div :: "base_uint \<Rightarrow> base_uint \<Rightarrow> base_uint option" where
  "bu_div a b =
     (let num_bits = bu_bits a; div_bits = bu_bits b
      in if div_bits = 0 then None
         else if div_bits > num_bits then Some (replicate WIDTH 0)
         else let shift = num_bits - div_bits
           in Some (div_loop (shift + 1) a (bu_shl b shift) (replicate WIDTH 0)))"

section \<open>The compact format\<close>

text \<open>The value, the negative flag and the overflow flag.\<close>

definition SetCompact :: "32 word \<Rightarrow> base_uint \<times> bool \<times> bool" where
  "SetCompact nCompact =
     (let nSize = unat (drop_bit 24 nCompact);
          nWord = nCompact AND 0x007fffff;
          nWord = (if nSize \<le> 3 then drop_bit (8 * (3 - nSize)) nWord else nWord);
          r = (if nSize \<le> 3 then base_uint_of (ucast nWord)
               else bu_shl (base_uint_of (ucast nWord)) (8 * (nSize - 3)))
      in (r, nWord \<noteq> 0 \<and> nCompact AND 0x00800000 \<noteq> 0,
          nWord \<noteq> 0 \<and> (nSize > 34 \<or> (nWord > 0xff \<and> nSize > 33) \<or> (nWord > 0xffff \<and> nSize > 32))))"

text \<open>\<^const>\<open>None\<close> is a failed assertion.\<close>

definition GetCompact :: "base_uint \<Rightarrow> bool \<Rightarrow> 32 word option" where
  "GetCompact a fNegative =
     (let nSize = (bu_bits a + 7) div 8;
          nCompact = (if nSize \<le> 3 then ucast (push_bit (8 * (3 - nSize)) (GetLow64 a))
                      else ucast (GetLow64 (bu_shr a (8 * (nSize - 3))))) :: 32 word;
          big = (nCompact AND 0x00800000 \<noteq> 0);
          nCompact = (if big then drop_bit 8 nCompact else nCompact);
          nSize = (if big then nSize + 1 else nSize)
      in if nCompact AND NOT 0x007fffff \<noteq> 0 then None
         else if nSize \<ge> 256 then None
         else let nCompact = nCompact OR push_bit 24 (of_nat nSize)
           in Some (nCompact OR (if fNegative \<and> nCompact AND 0x007fffff \<noteq> 0 then 0x00800000 else 0)))"

definition ArithToUint256 :: "base_uint \<Rightarrow> bytes" where
  "ArithToUint256 a = concat (map (\<lambda>w. WriteLE32 (unat w)) a)"

definition UintToArith256 :: "bytes \<Rightarrow> base_uint" where
  "UintToArith256 a = map (\<lambda>x. of_nat (ReadLE32 (drop (x * 4) a))) [0..<WIDTH]"

section \<open>Operations as arithmetic\<close>

primrec limbs :: "base_uint \<Rightarrow> nat" where
  "limbs [] = 0"
| "limbs (w # ws) = unat w + 4294967296 * limbs ws"

lemma unat_word32_less [simp]: "unat (w :: 32 word) < 4294967296"
  using unsigned_less [of w, where ?'a = nat] by simp

lemma limbs_append: "limbs (xs @ ys) = limbs xs + 2 ^ (32 * length xs) * limbs ys"
  by (induction xs) (simp_all add: power_add algebra_simps)

lemma limbs_less: "limbs ws < 2 ^ (32 * length ws)"
proof (induction ws)
  case (Cons w ws)
  have "unat w + 4294967296 * limbs ws < 4294967296 * (limbs ws + 1)" by simp
  also have "\<dots> \<le> 4294967296 * 2 ^ (32 * length ws)"
    using Cons.IH by (intro mult_le_mono2) (simp add: Suc_le_eq)
  finally show ?case by (simp add: power_add)
qed simp

lemma limbs_256: "length ws = WIDTH \<Longrightarrow> limbs ws < 2 ^ 256"
  using limbs_less [of ws] by simp

lemma limbs_replicate_0 [simp]: "limbs (replicate n 0) = 0"
  by (induction n) simp_all

lemma limbs_inj: "length xs = length ys \<Longrightarrow> limbs xs = limbs ys \<Longrightarrow> xs = ys"
proof (induction xs ys rule: list_induct2)
  case (Cons x xs y ys)
  from Cons.prems have e: "unat x + 4294967296 * limbs xs = unat y + 4294967296 * limbs ys" by simp
  then have "(unat x + 4294967296 * limbs xs) mod 4294967296 = (unat y + 4294967296 * limbs ys) mod 4294967296"
    by simp
  then have "unat x = unat y" by (simp only: mod_mult_self2 mod_less unat_word32_less)
  with e Cons.IH show ?case by (simp add: word_unat_eq_iff)
qed simp

text \<open>One step of a carry loop.\<close>

lemma limb_step:
  fixes n r B M :: nat
  shows "n mod B + B * ((n div B + r) mod M) = (n + B * r) mod (B * M)"
  by (cases "B = 0") (simp_all add: mod_mult2_eq add.commute)

lemma low_limb [limb_simps]: "unat (ucast (n AND 0xffffffff :: 64 word) :: 32 word) = unat n mod 4294967296"
proof -
  have "n AND 0xffffffff = take_bit 32 n" by (simp add: take_bit_eq_mask mask_eq_exp_minus_1)
  then have "unat (ucast (n AND 0xffffffff) :: 32 word) = take_bit 32 (unat n)"
    by (simp only: unsigned_ucast_eq unsigned_take_bit_eq) simp
  then show ?thesis by (simp add: take_bit_eq_mod)
qed

lemma high_limb [limb_simps]: "unat (drop_bit 32 (n :: 64 word)) = unat n div 4294967296"
proof -
  have "unat (drop_bit 32 n) = drop_bit 32 (unat n)" by (rule unat_drop_bit_eq)
  then show ?thesis by (simp add: drop_bit_eq_div)
qed

lemma unat_ucast_32_64 [simp]: "unat (ucast (w :: 32 word) :: 64 word) = unat w"
proof -
  have "unat (ucast w :: 64 word) = take_bit 64 (unat w)" by (simp only: unsigned_ucast_eq) simp
  moreover have "unat w < 2 ^ 64" using unat_word32_less [of w] by (rule order_less_trans) simp
  ultimately show ?thesis by (simp add: take_bit_nat_eq_self)
qed

lemma unat_add_mul:
  fixes c p a b :: "64 word"
  assumes "unat c + unat p + unat a * unat b < 2 ^ 64"
  shows "unat (c + p + a * b) = unat c + unat p + unat a * unat b"
proof -
  have "c + p + a * b = of_nat (unat c + unat p + unat a * unat b)" by simp
  then show ?thesis using assms by (simp only: unat_of_nat mod_less) simp
qed

lemma limb_mul_bound:
  assumes "c \<le> 4294967295"
  shows "c + unat (p :: 32 word) + unat (a :: 32 word) * unat (b :: 32 word) < 2 ^ 64"
proof -
  have a: "unat a \<le> 4294967295" and b: "unat b \<le> 4294967295" and p: "unat p \<le> 4294967295"
    using unat_word32_less [of a] unat_word32_less [of b] unat_word32_less [of p] by linarith+
  from mult_le_mono [OF a b] assms p show ?thesis by simp
qed

text \<open>The carry loops.\<close>

lemma limbs_add_carry:
  "length xs = length ys \<Longrightarrow> unat carry \<le> 1 \<Longrightarrow>
    limbs (add_carry carry xs ys) = (unat carry + limbs xs + limbs ys) mod 2 ^ (32 * length xs)"
proof (induction carry xs ys rule: add_carry.induct)
  case (1 carry x xs y ys)
  let ?n = "carry + ucast x + ucast y"
  have "unat carry + unat x + unat y < 18446744073709551616"
    using "1.prems"(2) unat_word32_less [of x] unat_word32_less [of y] by linarith
  then have n: "unat ?n = unat carry + unat x + unat y"
    using unat_add_mul [of carry "ucast x" "ucast y" 1] by simp
  have "unat ?n < 2 * 4294967296"
    unfolding n using "1.prems"(2) unat_word32_less [of x] unat_word32_less [of y] by linarith
  then have c: "unat (drop_bit 32 ?n) \<le> 1" using less_mult_imp_div_less by (fastforce simp: high_limb)
  have "limbs (add_carry carry (x # xs) (y # ys)) = unat ?n mod 4294967296 +
      4294967296 * ((unat ?n div 4294967296 + (limbs xs + limbs ys)) mod 2 ^ (32 * length xs))"
    using "1.IH" [OF refl _ c] "1.prems"(1) by (simp add: Let_def low_limb high_limb add.assoc)
  also have "\<dots> = (unat ?n + 4294967296 * (limbs xs + limbs ys)) mod (4294967296 * 2 ^ (32 * length xs))"
    by (rule limb_step)
  finally show ?case unfolding n by (simp add: power_add algebra_simps del: add_carry.simps)
qed simp_all

lemma limbs_mul_row:
  "length ps \<le> length bs \<Longrightarrow> unat carry \<le> 4294967295 \<Longrightarrow>
    limbs (mul_row aj carry ps bs) = (unat carry + limbs ps + unat aj * limbs bs) mod 2 ^ (32 * length ps)"
proof (induction aj carry ps bs rule: mul_row.induct)
  case (1 aj carry p ps b bs)
  let ?n = "carry + ucast p + ucast aj * ucast b"
  have n: "unat ?n = unat carry + unat p + unat aj * unat b"
    using unat_add_mul [of carry "ucast p" "ucast aj" "ucast b"] limb_mul_bound [OF "1.prems"(2), of p aj b]
    by simp
  have c: "unat (drop_bit 32 ?n) \<le> 4294967295"
    using limb_mul_bound [OF "1.prems"(2), of p aj b] by (simp add: high_limb n)
  have "limbs (mul_row aj carry (p # ps) (b # bs)) = unat ?n mod 4294967296 +
      4294967296 * ((unat ?n div 4294967296 + (limbs ps + unat aj * limbs bs)) mod 2 ^ (32 * length ps))"
    using "1.IH" [OF refl _ c] "1.prems"(1) by (simp add: Let_def low_limb high_limb add.assoc)
  also have "\<dots> = (unat ?n + 4294967296 * (limbs ps + unat aj * limbs bs)) mod
      (4294967296 * 2 ^ (32 * length ps))"
    by (rule limb_step)
  finally show ?case unfolding n by (simp add: power_add algebra_simps del: mul_row.simps)
qed simp_all

lemma mul32_carry_row: "mul32_carry carry b32 xs = mul_row b32 carry (replicate (length xs) 0) xs"
  by (induction xs arbitrary: carry) (simp_all add: Let_def)

lemma length_add_carry [simp]: "length (add_carry carry xs ys) = min (length xs) (length ys)"
  by (induction carry xs ys rule: add_carry.induct) (simp_all add: Let_def)

lemma length_mul_row [simp]: "length (mul_row aj carry ps bs) = length ps"
  by (induction aj carry ps bs rule: mul_row.induct) (simp_all add: Let_def)

lemma length_bu_inc [simp]: "length (bu_inc xs) = length xs"
  by (induction xs) simp_all

lemma unat_not: "unat (NOT (x :: 32 word)) = 4294967295 - unat x"
proof -
  have "NOT x = -1 - x" by (simp add: not_eq_complement)
  moreover have "x \<le> -1" by simp
  ultimately have "unat (NOT x) = unat (-1 :: 32 word) - unat x" by (simp only: unat_sub)
  then show ?thesis by (simp add: unsigned_minus_1_eq_mask mask_eq_exp_minus_1)
qed

lemma limbs_bu_not: "limbs (bu_not a) + limbs a + 1 = 2 ^ (32 * length a)"
  unfolding bu_not_def
proof (induction a)
  case (Cons x xs)
  have "unat (NOT x) + unat x = 4294967295" 
    unfolding unat_not using unat_word32_less [of x] by linarith
  then have e: "limbs (map NOT (x # xs)) + limbs (x # xs) + 1 =
      4294967296 * (limbs (map NOT xs) + limbs xs + 1)" by simp
  show ?case unfolding e Cons.IH by (simp add: power_add)
qed simp

lemma limbs_bu_inc: "limbs (bu_inc a) = (limbs a + 1) mod 2 ^ (32 * length a)"
proof (induction a)
  case (Cons x xs)
  show ?case
  proof (cases "x + 1 = 0")
    case True
    then have "x = -1" by (simp add: eq_neg_iff_add_eq_0)
    then have "unat x = 4294967295" by (simp add: unsigned_minus_1_eq_mask mask_eq_exp_minus_1)
    then have "limbs (x # xs) + 1 = 4294967296 * (limbs xs + 1)" by simp
    then show ?thesis using True Cons.IH by (simp add: power_add mult_mod_right)
  next
    case False
    then have "unat (x + 1) = unat x + 1" using unatSuc [of x] by (simp add: add.commute)
    then have "limbs ((x + 1) # xs) = limbs (x # xs) + 1" by simp
    then show ?thesis using False limbs_less [of "(x + 1) # xs"] by simp
  qed
qed simp

lemma length_bu [simp]:
  "length (base_uint_of b) = WIDTH"
  "length (bu_not a) = length a"
  "length (bu_neg a) = length a"
  "length (bu_add a a') = min (length a) (length a')"
  "length (bu_sub a a') = min (length a) (length a')"
  "length (bu_mul32 a b32) = length a"
  by (simp_all add: base_uint_of_def bu_not_def bu_neg_def bu_add_def bu_sub_def bu_mul32_def mul32_carry_row)

lemma limbs_bu_neg: "limbs (bu_neg a) = (2 ^ (32 * length a) - limbs a) mod 2 ^ (32 * length a)"
proof -
  have "limbs (bu_not a) + 1 = 2 ^ (32 * length a) - limbs a" using limbs_bu_not [of a] by linarith
  then show ?thesis by (simp add: bu_neg_def limbs_bu_inc)
qed

lemma limbs_bu_add [limb_simps]:
  assumes "length a = WIDTH" and "length b = WIDTH"
  shows "limbs (bu_add a b) = (limbs a + limbs b) mod 2 ^ 256"
  using limbs_add_carry [of a b 0] assms by (simp add: bu_add_def)

lemma limbs_bu_sub [limb_simps]:
  assumes "length a = WIDTH" and "length b = WIDTH"
  shows "limbs (bu_sub a b) = (limbs a + (2 ^ 256 - limbs b)) mod 2 ^ 256"
  using assms limbs_bu_add [of a "bu_neg b"] by (simp add: bu_sub_def limbs_bu_neg mod_add_right_eq)

lemma limbs_bu_sub_le:
  assumes "length a = WIDTH" and "length b = WIDTH" and "limbs b \<le> limbs a"
  shows "limbs (bu_sub a b) = limbs a - limbs b"
proof -
  have "limbs a + (2 ^ 256 - limbs b) = (limbs a - limbs b) + 2 ^ 256"
    using assms(3) limbs_256 [OF assms(2)] by linarith
  then show ?thesis using assms limbs_256 [of a] by (simp only: limbs_bu_sub mod_add_self2) simp
qed

lemma limbs_bu_mul32 [limb_simps]:
  assumes "length a = WIDTH"
  shows "limbs (bu_mul32 a b32) = (limbs a * unat b32) mod 2 ^ 256"
  using limbs_mul_row [of "replicate WIDTH 0" a 0 b32] assms
  by (simp add: bu_mul32_def mul32_carry_row mult.commute)

section \<open>The product\<close>

definition mul_upto :: "base_uint \<Rightarrow> base_uint \<Rightarrow> nat \<Rightarrow> base_uint" where
  "mul_upto a b n =
     fold (\<lambda>j pn. take j pn @ mul_row (a ! j) 0 (drop j pn) b) [0..<n] (replicate WIDTH 0)"

lemma limbs_take_Suc:
  "j < length a \<Longrightarrow> limbs (take (Suc j) a) = limbs (take j a) + 2 ^ (32 * j) * unat (a ! j)"
  by (simp add: take_Suc_conv_app_nth limbs_append)

lemma low_part_mod:
  fixes l P r M :: nat
  assumes "l < P"
  shows "l + P * (r mod M) = (l + P * r) mod (P * M)"
  using limb_step [of l P r M] assms by simp

lemma mul_upto_inv:
  assumes "length a = WIDTH" and "length b = WIDTH" and "n \<le> WIDTH"
  shows "length (mul_upto a b n) = WIDTH \<and>
    limbs (mul_upto a b n) = (limbs (take n a) * limbs b) mod 2 ^ 256"
  using assms(3)
proof (induction n)
  case (Suc n)
  let ?pn = "mul_upto a b n" and ?row = "mul_row (a ! n) 0 (drop n (mul_upto a b n)) b"
  have IH: "length ?pn = WIDTH" "limbs ?pn = (limbs (take n a) * limbs b) mod 2 ^ 256"
    using Suc by simp_all
  have step: "mul_upto a b (Suc n) = take n ?pn @ ?row" by (simp add: mul_upto_def)
  have row: "limbs ?row = (limbs (drop n ?pn) + unat (a ! n) * limbs b) mod 2 ^ (32 * (8 - n))"
    using limbs_mul_row [of "drop n ?pn" b 0 "a ! n"] assms(2) IH(1) by simp
  have pow: "(2 :: nat) ^ (32 * n) * 2 ^ (32 * (8 - n)) = 2 ^ 256"
    using Suc.prems by (simp flip: power_add add: diff_mult_distrib2)
  have split: "limbs (take n ?pn) + 2 ^ (32 * n) * limbs (drop n ?pn) = limbs ?pn"
    using limbs_append [of "take n ?pn" "drop n ?pn"] IH(1) Suc.prems by (simp add: min_def)
  have less: "limbs (take n ?pn) < 2 ^ (32 * n)"
    using limbs_less [of "take n ?pn"] IH(1) Suc.prems by (simp add: min_def)
  have "limbs (take n ?pn @ ?row) = limbs (take n ?pn) +
      2 ^ (32 * n) * ((limbs (drop n ?pn) + unat (a ! n) * limbs b) mod 2 ^ (32 * (8 - n)))"
    using IH(1) Suc.prems by (simp add: limbs_append row min_def)
  also have "\<dots> = (limbs ?pn + 2 ^ (32 * n) * (unat (a ! n) * limbs b)) mod 2 ^ 256"
    by (simp only: low_part_mod [OF less] pow flip: split) (simp add: algebra_simps)
  also have "\<dots> = (limbs (take (Suc n) a) * limbs b) mod 2 ^ 256"
    using Suc.prems assms(1) by (simp only: IH(2) mod_add_left_eq) (simp add: limbs_take_Suc algebra_simps)
  finally show ?case using step IH(1) Suc.prems by simp
qed (simp add: mul_upto_def)

lemma bu_mul_limbs:
  assumes "length a = WIDTH" and "length b = WIDTH"
  shows "length (bu_mul a b) = WIDTH" and "limbs (bu_mul a b) = (limbs a * limbs b) mod 2 ^ 256"
  using mul_upto_inv [OF assms, of WIDTH] assms by (simp_all add: mul_upto_def bu_mul_def)

section \<open>Shifts\<close>

lemma bit_limbs: "bit (limbs ws) n \<longleftrightarrow> n < 32 * length ws \<and> bit (ws ! (n div 32)) (n mod 32)"
proof (induction ws arbitrary: n)
  case (Cons w ws)
  have low: "take_bit 32 (limbs (w # ws)) = unat w" by (simp add: take_bit_eq_mod)
  have high: "drop_bit 32 (limbs (w # ws)) = limbs ws" by (simp add: drop_bit_eq_div)
  show ?case
  proof (cases "n < 32")
    case True
    then have "bit (limbs (w # ws)) n \<longleftrightarrow> bit (take_bit 32 (limbs (w # ws))) n"
      by (simp only: bit_take_bit_iff simp_thms)
    with True show ?thesis by (simp only: low) (simp add: bit_unsigned_iff)
  next
    case False
    then have "bit (limbs (w # ws)) n \<longleftrightarrow> bit (drop_bit 32 (limbs (w # ws))) (n - 32)"
      by (simp only: bit_drop_bit_eq comp_apply not_less le_add_diff_inverse)
    also have "\<dots> \<longleftrightarrow> n - 32 < 32 * length ws \<and> bit (ws ! ((n - 32) div 32)) ((n - 32) mod 32)"
      by (simp only: high Cons.IH)
    also have "\<dots> \<longleftrightarrow> n < 32 * length (w # ws) \<and> bit ((w # ws) ! (n div 32)) (n mod 32)"
      using False by (simp add: le_div_geq le_mod_geq) linarith
    finally show ?thesis .
  qed
qed simp

lemma nth_shl_step:
  assumes "length pn = WIDTH" and "m < WIDTH" and "i < WIDTH"
  shows "shl_step k s a i pn ! m = pn ! m OR
    ((if s \<noteq> 0 \<and> m = i + k + 1 then drop_bit (32 - s) (a ! i) else 0) OR
     (if m = i + k then push_bit s (a ! i) else 0))"
  using assms by (simp add: shl_step_def Let_def nth_list_update)

lemma nth_shr_step:
  assumes "length pn = WIDTH" and "m < WIDTH" and "i < WIDTH"
  shows "shr_step k s a i pn ! m = pn ! m OR
    ((if s \<noteq> 0 \<and> m + k + 1 = i then push_bit (32 - s) (a ! i) else 0) OR
     (if m + k = i then drop_bit s (a ! i) else 0))"
proof -
  consider "i = m + k + 1" | "i = m + k" | "i \<noteq> m + k + 1" "i \<noteq> m + k" by auto
  then show ?thesis
  proof cases
    case 2
    then show ?thesis using assms by (cases m) (simp_all add: shr_step_def Let_def)
  next
    case 3
    then have "k + 1 \<le> i \<longrightarrow> m \<noteq> i - k - 1" and "k \<le> i \<longrightarrow> m \<noteq> i - k" by auto
    with 3 assms show ?thesis by (auto simp: shr_step_def Let_def)
  qed (use assms in \<open>simp_all add: shr_step_def Let_def\<close>)
qed

lemma length_shift_step [simp]:
  "length (shl_step k s a i pn) = length pn" "length (shr_step k s a i pn) = length pn"
  by (simp_all add: shl_step_def shr_step_def Let_def)

lemma length_shl_loop [simp]: "length (fold (shl_step k s a) is pn) = length pn"
  by (induction "is" arbitrary: pn) simp_all

lemma length_shr_loop [simp]: "length (fold (shr_step k s a) is pn) = length pn"
  by (induction "is" arbitrary: pn) simp_all

lemma shl_loop:
  assumes "n \<le> WIDTH" and "m < WIDTH"
  shows "fold (shl_step k s a) [0..<n] (replicate WIDTH 0) ! m =
    (if s \<noteq> 0 \<and> k + 1 \<le> m \<and> m - (k + 1) < n then drop_bit (32 - s) (a ! (m - (k + 1))) else 0) OR
    (if k \<le> m \<and> m - k < n then push_bit s (a ! (m - k)) else 0)"
  using assms(1)
proof (induction n)
  case 0
  then show ?case using assms(2) by simp
next
  case (Suc n)
  let ?p = "fold (shl_step k s a) [0..<n] (replicate WIDTH 0)"
  let ?x = "\<lambda>c. if s \<noteq> 0 \<and> c then drop_bit (32 - s) (a ! (m - (k + 1))) else 0"
    and ?y = "\<lambda>c. if c then push_bit s (a ! (m - k)) else 0"
  let ?c = "\<lambda>n. k + 1 \<le> m \<and> m - (k + 1) < n" and ?d = "\<lambda>n. k \<le> m \<and> m - k < n"
  have step: "fold (shl_step k s a) [0..<Suc n] (replicate WIDTH 0) = shl_step k s a n ?p" by simp
  have IH: "?p ! m = ?x (?c n) OR ?y (?d n)" using Suc by simp
  have "shl_step k s a n ?p ! m = ?p ! m OR (?x (m = n + k + 1) OR ?y (m = n + k))"
    using Suc.prems assms(2) by (subst nth_shl_step) auto
  also have "\<dots> = (?x (?c n) OR ?x (m = n + k + 1)) OR (?y (?d n) OR ?y (m = n + k))"
    unfolding IH by (simp only: or.assoc or.left_commute)
  also have "?x (?c n) OR ?x (m = n + k + 1) = ?x (?c (Suc n))" by auto
  also have "?y (?d n) OR ?y (m = n + k) = ?y (?d (Suc n))" by auto
  finally show ?case unfolding step .
qed

lemma shr_loop:
  assumes "n \<le> WIDTH" and "m < WIDTH"
  shows "fold (shr_step k s a) [0..<n] (replicate WIDTH 0) ! m =
    (if s \<noteq> 0 \<and> m + k + 1 < n then push_bit (32 - s) (a ! (m + k + 1)) else 0) OR
    (if m + k < n then drop_bit s (a ! (m + k)) else 0)"
  using assms(1)
proof (induction n)
  case 0
  then show ?case using assms(2) by simp
next
  case (Suc n)
  let ?p = "fold (shr_step k s a) [0..<n] (replicate WIDTH 0)"
  let ?x = "\<lambda>c. if s \<noteq> 0 \<and> c then push_bit (32 - s) (a ! (m + k + 1)) else 0"
    and ?y = "\<lambda>c. if c then drop_bit s (a ! (m + k)) else 0"
  have step: "fold (shr_step k s a) [0..<Suc n] (replicate WIDTH 0) = shr_step k s a n ?p" by simp
  have IH: "?p ! m = ?x (m + k + 1 < n) OR ?y (m + k < n)" using Suc by simp
  have "shr_step k s a n ?p ! m = ?p ! m OR (?x (m + k + 1 = n) OR ?y (m + k = n))"
    using Suc.prems assms(2) by (subst nth_shr_step) auto
  also have "\<dots> = (?x (m + k + 1 < n) OR ?x (m + k + 1 = n)) OR (?y (m + k < n) OR ?y (m + k = n))"
    unfolding IH by (simp only: or.assoc or.left_commute)
  also have "?x (m + k + 1 < n) OR ?x (m + k + 1 = n) = ?x (m + k + 1 < Suc n)" by simp
  also have "?y (m + k < n) OR ?y (m + k = n) = ?y (m + k < Suc n)" by simp
  finally show ?case unfolding step .
qed

lemma length_shift [simp]: "length (bu_shl a n) = WIDTH" "length (bu_shr a n) = WIDTH"
  by (simp_all add: bu_shl_def bu_shr_def)

text \<open>A bit position \<open>n\<close> as a word \<open>m\<close> and a bit \<open>t\<close> of it.\<close>

lemma bit_limbs_at: "t < 32 \<Longrightarrow> bit (limbs ws) (32 * m + t) \<longleftrightarrow> m < length ws \<and> bit (ws ! m) t"
  by (simp add: bit_limbs) linarith

lemma bit_split:
  fixes n :: nat
  obtains m t where "n = 32 * m + t" and "t < 32"
  using that [of "n div 32" "n mod 32"] by simp

lemma bit_word32: "bit (w :: 32 word) n \<Longrightarrow> n < 32"
  by (drule bit_imp_le_length) simp

lemma bit_shl:
  assumes "length a = WIDTH"
  shows "bit (limbs (bu_shl a shift)) n \<longleftrightarrow> n < 256 \<and> shift \<le> n \<and> bit (limbs a) (n - shift)"
proof -
  obtain m t where n: "n = 32 * m + t" and t: "t < 32" by (rule bit_split)
  obtain k s where shift: "shift = 32 * k + s" and s: "s < 32" by (rule bit_split)
  have ks: "shift div 32 = k" "shift mod 32 = s" using shift s by simp_all
  have drop: "bit (drop_bit (32 - s) w) t \<longleftrightarrow> t < s \<and> bit w (32 - s + t)" if "s \<noteq> 0" for w :: "32 word"
    using that s bit_word32 [of w "32 - s + t"] by (auto simp: bit_drop_bit_eq)
  have "bit (limbs (bu_shl a shift)) n \<longleftrightarrow> m < 8 \<and>
      (s \<noteq> 0 \<and> k + 1 \<le> m \<and> t < s \<and> bit (a ! (m - (k + 1))) (32 - s + t) \<or>
       k \<le> m \<and> s \<le> t \<and> bit (a ! (m - k)) (t - s))"
    using t s by (auto simp: n bit_limbs_at bu_shl_def ks shl_loop bit_or_iff drop
        bit_push_bit_iff split: if_splits)
  also have "\<dots> \<longleftrightarrow> n < 256 \<and> shift \<le> n \<and> bit (limbs a) (n - shift)"
  proof (cases "s \<le> t")
    case True
    then have "shift \<le> n \<longleftrightarrow> k \<le> m" and "k \<le> m \<Longrightarrow> n - shift = 32 * (m - k) + (t - s)"
      using t s by (auto simp: n shift diff_mult_distrib2)
    moreover have "n < 256 \<longleftrightarrow> m < 8" using t by (auto simp: n)
    ultimately show ?thesis using True t assms bit_limbs_at [of "t - s" a "m - k"] by auto
  next
    case False
    then have "shift \<le> n \<longleftrightarrow> k + 1 \<le> m"
      and "k + 1 \<le> m \<Longrightarrow> n - shift = 32 * (m - (k + 1)) + (32 - s + t)"
      using t s by (auto simp: n shift diff_mult_distrib2)
    moreover have "n < 256 \<longleftrightarrow> m < 8" using t by (auto simp: n)
    ultimately show ?thesis using False t s assms bit_limbs_at [of "32 - s + t" a "m - (k + 1)"] by auto
  qed
  finally show ?thesis .
qed

lemma bit_shr:
  assumes "length a = WIDTH"
  shows "bit (limbs (bu_shr a shift)) n \<longleftrightarrow> bit (limbs a) (shift + n)"
proof -
  obtain m t where n: "n = 32 * m + t" and t: "t < 32" by (rule bit_split)
  obtain k s where shift: "shift = 32 * k + s" and s: "s < 32" by (rule bit_split)
  have ks: "shift div 32 = k" "shift mod 32 = s" using shift s by simp_all
  have "bit (limbs (bu_shr a shift)) n \<longleftrightarrow> m < 8 \<and>
      (s \<noteq> 0 \<and> m + k + 1 < 8 \<and> 32 - s \<le> t \<and> bit (a ! (m + k + 1)) (t - (32 - s)) \<or>
       m + k < 8 \<and> s + t < 32 \<and> bit (a ! (m + k)) (s + t))"
    using t s by (auto simp: n bit_limbs_at bu_shr_def ks shr_loop bit_or_iff bit_drop_bit_eq
        bit_push_bit_iff dest: bit_word32 split: if_splits)
  also have "\<dots> \<longleftrightarrow> bit (limbs a) (shift + n)"
  proof (cases "s + t < 32")
    case True
    have "shift + n = 32 * (m + k) + (s + t)" by (simp add: n shift)
    then have "bit (limbs a) (shift + n) \<longleftrightarrow> m + k < 8 \<and> bit (a ! (m + k)) (s + t)"
      using bit_limbs_at [OF True, of a "m + k"] assms by (simp only:)
    then show ?thesis using True by auto
  next
    case False
    then have "shift + n = 32 * (m + k + 1) + (t - (32 - s))" using s by (simp add: n shift)
    moreover have "t - (32 - s) < 32" using t by simp
    ultimately have "bit (limbs a) (shift + n) \<longleftrightarrow> m + k + 1 < 8 \<and> bit (a ! (m + k + 1)) (t - (32 - s))"
      using bit_limbs_at [of "t - (32 - s)" a "m + k + 1"] assms by (simp only:)
    then show ?thesis using False t s by auto
  qed
  finally show ?thesis .
qed

lemma limbs_bu_shl [limb_simps]:
  assumes "length a = WIDTH"
  shows "limbs (bu_shl a shift) = (limbs a * 2 ^ shift) mod 2 ^ 256"
proof -
  have "limbs (bu_shl a shift) = take_bit 256 (push_bit shift (limbs a))"
    by (rule bit_eqI) (auto simp: bit_shl [OF assms] bit_take_bit_iff bit_push_bit_iff)
  then show ?thesis by (simp only: take_bit_eq_mod push_bit_eq_mult)
qed

lemma limbs_bu_shr [limb_simps]:
  assumes "length a = WIDTH"
  shows "limbs (bu_shr a shift) = limbs a div 2 ^ shift"
proof -
  have "limbs (bu_shr a shift) = drop_bit shift (limbs a)"
    by (rule bit_eqI) (simp add: bit_shr [OF assms] bit_drop_bit_eq)
  then show ?thesis by (simp only: drop_bit_eq_div)
qed

section \<open>Comparison and length\<close>

lemma limbs_take_less: "n \<le> length a \<Longrightarrow> limbs (take n a) < 2 ^ (32 * n)"
  using limbs_less [of "take n a"] by (simp add: min_absorb2)

lemma lex_less:
  fixes l l' P x x' :: nat
  assumes "l < P" and "l' < P"
  shows "l + P * x < l' + P * x' \<longleftrightarrow> x < x' \<or> x = x' \<and> l < l'"
proof -
  have "l + P * x < l' + P * x'" if "x < x'" "l < P" for l l' x x' :: nat
  proof -
    have "l + P * x < P * Suc x" using that by simp
    also have "\<dots> \<le> P * x'" using that by (intro mult_le_mono2) simp
    finally show ?thesis by simp
  qed
  from this [of x x' l l'] this [of x' x l' l] show ?thesis using assms by (cases x x' rule: linorder_cases) auto
qed

lemma compare_below_eq:
  assumes "n \<le> length a" and "n \<le> length b"
  shows "compare_below a b n =
    (if limbs (take n a) < limbs (take n b) then -1
     else if limbs (take n b) < limbs (take n a) then 1 else 0)"
  using assms
proof (induction n)
  case (Suc n)
  then have "limbs (take n a) < 2 ^ (32 * n)" "limbs (take n b) < 2 ^ (32 * n)"
    by (simp_all add: limbs_take_less)
  note lex = lex_less [OF this] lex_less [OF this(2) this(1)]
  show ?case using Suc by (auto simp: limbs_take_Suc lex word_less_nat_alt word_unat_eq_iff)
qed simp

lemma CompareTo_limbs [limb_simps]:
  assumes "length a = WIDTH" and "length b = WIDTH"
  shows "CompareTo a b = (if limbs a < limbs b then -1 else if limbs b < limbs a then 1 else 0)"
  using compare_below_eq [of WIDTH a b] assms by (simp add: CompareTo_def)

lemma bit_top:
  fixes x :: nat
  assumes "x < 2 ^ Suc k"
  shows "bit x k \<longleftrightarrow> 2 ^ k \<le> x"
proof -
  have "x div 2 ^ k < 2" using assms by (intro less_mult_imp_div_less) simp
  then have "odd (x div 2 ^ k) \<longleftrightarrow> x div 2 ^ k \<noteq> 0" by (cases "x div 2 ^ k") auto
  moreover have "x div 2 ^ k \<noteq> 0 \<longleftrightarrow> 2 ^ k \<le> x" by (simp add: div_eq_0_iff not_less)
  ultimately show ?thesis by (simp add: bit_iff_odd)
qed

lemma top_bit_bounds:
  assumes "w \<noteq> 0" and "unat w < 2 ^ Suc n" and "n \<le> 31"
  shows "2 ^ top_bit w n \<le> unat w \<and> unat w < 2 ^ Suc (top_bit w n)"
  using assms(2,3)
proof (induction n)
  case 0
  then show ?case using assms(1) by (simp add: word_unat_eq_iff)
next
  case (Suc n)
  have "w AND push_bit (Suc n) 1 \<noteq> 0 \<longleftrightarrow> bit w (Suc n)"
    using and_exp_eq_0_iff_not_bit [of w "Suc n"] by (simp add: push_bit_eq_mult)
  also have "\<dots> \<longleftrightarrow> bit (unat w) (Suc n)" by (simp add: bit_unsigned_iff)
  also have "\<dots> \<longleftrightarrow> 2 ^ Suc n \<le> unat w" by (rule bit_top) (rule Suc.prems)
  finally show ?case using Suc by (auto simp: not_le)
qed

lemma bits_below_bounds:
  assumes "n \<le> length pn"
  shows "limbs (take n pn) < 2 ^ bits_below pn n \<and>
    (if bits_below pn n = 0 then limbs (take n pn) = 0 else 2 ^ (bits_below pn n - 1) \<le> limbs (take n pn)) \<and>
    bits_below pn n \<le> 32 * n"
  using assms
proof (induction n)
  case (Suc n)
  show ?case
  proof (cases "pn ! n = 0")
    case False
    let ?t = "top_bit (pn ! n) 31"
    have t: "2 ^ ?t \<le> unat (pn ! n)" "unat (pn ! n) < 2 ^ Suc ?t"
      using top_bit_bounds [OF False, of 31] by simp_all
    have "(2 :: nat) ^ ?t < 4294967296" using t(1) unat_word32_less by (rule order_le_less_trans)
    then have "?t < 32" using power_less_imp_less_exp [of "2 :: nat" ?t 32] by simp
    have "2 ^ (32 * n + ?t) \<le> 2 ^ (32 * n) * unat (pn ! n)" using t(1) by (simp add: power_add)
    then have low: "2 ^ (32 * n + ?t) \<le> limbs (take (Suc n) pn)" using Suc.prems by (simp add: limbs_take_Suc)
    have "limbs (take (Suc n) pn) < 2 ^ (32 * n) * (unat (pn ! n) + 1)"
      using limbs_take_less [of n pn] Suc.prems by (simp add: limbs_take_Suc)
    also have "\<dots> \<le> 2 ^ (32 * n) * 2 ^ Suc ?t" using t(2) by (intro mult_le_mono2) simp
    finally have "limbs (take (Suc n) pn) < 2 ^ (32 * n + ?t + 1)" by (simp add: power_add)
    with low False \<open>?t < 32\<close> show ?thesis by simp
  qed (use Suc in \<open>auto simp: limbs_take_Suc split: if_splits\<close>)
qed simp

lemma bu_bits_bounds:
  assumes "length pn = WIDTH"
  shows "limbs pn < 2 ^ bu_bits pn" and "bu_bits pn = 0 \<longleftrightarrow> limbs pn = 0"
    and "bu_bits pn \<noteq> 0 \<Longrightarrow> 2 ^ (bu_bits pn - 1) \<le> limbs pn" and "bu_bits pn \<le> 256"
proof -
  note b = bits_below_bounds [of WIDTH pn, unfolded bu_bits_def [symmetric]]
  show "limbs pn < 2 ^ bu_bits pn" and "bu_bits pn \<le> 256"
    and low: "bu_bits pn \<noteq> 0 \<Longrightarrow> 2 ^ (bu_bits pn - 1) \<le> limbs pn"
    using b assms by (simp_all split: if_splits)
  show "bu_bits pn = 0 \<longleftrightarrow> limbs pn = 0"
  proof
    assume "limbs pn = 0"
    with low show "bu_bits pn = 0" by fastforce
  qed (use b assms in simp)
qed

section \<open>Division\<close>

lemma limbs_set_bit:
  assumes "length pn = WIDTH" and "n < 256" and "\<not> bit (limbs pn) n"
  shows "limbs (pn[n div 32 := pn ! (n div 32) OR push_bit (n mod 32) 1]) = limbs pn + 2 ^ n"
proof -
  let ?pn = "pn[n div 32 := pn ! (n div 32) OR push_bit (n mod 32) 1]"
  have m: "n div 32 < 8" using assms(2) by simp
  have "bit (limbs ?pn) i \<longleftrightarrow> bit (limbs pn) i \<or> i = n" for i
  proof -
    obtain m t where i: "i = 32 * m + t" and t: "t < 32" by (rule bit_split)
    have "i = n \<longleftrightarrow> m = n div 32 \<and> t = n mod 32" using t by (auto simp: i)
    moreover have "bit (limbs ?pn) i \<longleftrightarrow> m < 8 \<and> bit (?pn ! m) t" "bit (limbs pn) i \<longleftrightarrow> m < 8 \<and> bit (pn ! m) t"
      using t assms(1) by (simp_all add: i bit_limbs_at)
    ultimately show ?thesis
      using m t assms(1) by (auto simp: nth_list_update bit_or_iff bit_exp_iff)
  qed
  then have "limbs ?pn = limbs pn OR 2 ^ n"
    by (intro bit_eqI) (auto simp: bit_or_iff bit_exp_iff)
  also have "limbs pn AND 2 ^ n = 0"
    using assms(3) by (simp add: and_exp_eq_0_iff_not_bit)
  then have "limbs pn OR 2 ^ n = limbs pn + 2 ^ n" by (rule disjunctive_add_eq_or [symmetric])
  finally show ?thesis .
qed

lemma length_div_loop [simp]: "length (div_loop n num d pn) = length pn"
  by (induction n arbitrary: num d pn) simp_all

lemma limbs_div_loop:
  assumes "length num = WIDTH" and "length d = WIDTH" and "length pn = WIDTH" and "0 < B"
    and "limbs num < B * 2 ^ n" and "\<And>m. n = Suc m \<Longrightarrow> limbs d = B * 2 ^ m"
    and "2 ^ n dvd limbs pn" and "n \<le> 256"
  shows "limbs (div_loop n num d pn) = limbs pn + limbs num div B"
  using assms
proof (induction n arbitrary: num d pn)
  case (Suc n)
  have d: "limbs d = B * 2 ^ n" using Suc.prems(6) by simp
  have d': "limbs (bu_shr d 1) = B * 2 ^ m" if "n = Suc m" for m
    using Suc.prems(2) that by (simp add: limbs_bu_shr d)
  have dvd: "2 ^ n dvd limbs pn" using Suc.prems(7) by (simp add: dvd_mult_right)
  show ?case
  proof (cases "limbs d \<le> limbs num")
    case True
    let ?pn = "pn[n div 32 := pn ! (n div 32) OR push_bit (n mod 32) 1]"
    have "limbs pn div 2 ^ n = 2 * (limbs pn div 2 ^ Suc n)"
      using Suc.prems(7) by (auto elim!: dvdE)
    then have "\<not> bit (limbs pn) n" by (simp add: bit_iff_odd)
    then have set: "limbs ?pn = limbs pn + 2 ^ n" using Suc.prems(3,8) by (intro limbs_set_bit) auto
    have num: "limbs (bu_sub num d) = limbs num - B * 2 ^ n"
      using limbs_bu_sub_le [OF Suc.prems(1,2) True] d by simp
    have "limbs (div_loop n (bu_sub num d) (bu_shr d 1) ?pn) = limbs ?pn + limbs (bu_sub num d) div B"
    proof (rule Suc.IH)
      show "limbs (bu_sub num d) < B * 2 ^ n" using Suc.prems(5) by (simp add: num)
      show "2 ^ n dvd limbs ?pn" unfolding set using dvd by simp
    qed (use Suc.prems d' in auto)
    also have "\<dots> = limbs pn + (2 ^ n + (limbs num - B * 2 ^ n) div B)" unfolding set num by simp
    also have "2 ^ n + (limbs num - B * 2 ^ n) div B = limbs num div B"
      using True d Suc.prems(4) by (subst div_mult_self4 [symmetric]) auto
    finally show ?thesis
      using True Suc.prems(1,2) by (simp add: CompareTo_limbs)
  next
    case False
    then have "limbs (div_loop n num (bu_shr d 1) pn) = limbs pn + limbs num div B"
      using Suc.prems d d' dvd by (intro Suc.IH) auto
    then show ?thesis using False Suc.prems(1,2) by (simp add: CompareTo_limbs)
  qed
qed simp

text \<open>Division is integer division, and fails on zero only.\<close>

lemma bu_div_limbs:
  assumes "length a = WIDTH" and "length b = WIDTH"
  shows "bu_div a b = None \<longleftrightarrow> limbs b = 0"
    and "bu_div a b = Some q \<Longrightarrow> length q = WIDTH \<and> limbs q = limbs a div limbs b"
proof -
  note A = bu_bits_bounds [OF assms(1)] and B = bu_bits_bounds [OF assms(2)]
  show "bu_div a b = None \<longleftrightarrow> limbs b = 0" using B(2) by (simp add: bu_div_def Let_def)
  assume q: "bu_div a b = Some q"
  then have b: "bu_bits b \<noteq> 0" by (auto simp: bu_div_def Let_def split: if_splits)
  then have pos: "0 < limbs b" using B(2) by simp
  show "length q = WIDTH \<and> limbs q = limbs a div limbs b"
  proof (cases "bu_bits b > bu_bits a")
    case True
    have "limbs a < 2 ^ bu_bits a" by (rule A(1))
    also have "\<dots> \<le> 2 ^ (bu_bits b - 1)" using True by (intro power_increasing) auto
    also have "\<dots> \<le> limbs b" by (rule B(3)) (rule b)
    finally show ?thesis using q b True by (auto simp: bu_div_def Let_def)
  next
    case False
    let ?s = "bu_bits a - bu_bits b"
    have "limbs b * 2 ^ ?s < 2 ^ bu_bits b * 2 ^ ?s" using B(1) by simp
    also have "\<dots> = 2 ^ bu_bits a" using False by (simp flip: power_add)
    also have "\<dots> \<le> 2 ^ 256" using A(4) by (intro power_increasing) auto
    finally have d: "limbs (bu_shl b ?s) = limbs b * 2 ^ ?s" using assms(2) by (simp add: limbs_bu_shl)
    have "limbs a < 2 ^ (bu_bits b - 1) * 2 ^ Suc ?s"
      using A(1) b False by (simp flip: power_add power_Suc)
    also have "\<dots> \<le> limbs b * 2 ^ Suc ?s" using B(3) [OF b] by (intro mult_le_mono1)
    finally have "limbs (div_loop (Suc ?s) a (bu_shl b ?s) (replicate WIDTH 0)) = 0 + limbs a div limbs b"
      using A(4) b assms pos d by (subst limbs_div_loop [where B = "limbs b"]) auto
    then show ?thesis using q b False by (auto simp: bu_div_def Let_def)
  qed
qed

section \<open>The compact format as arithmetic\<close>

lemma limbs_base_uint_of [limb_simps]: "limbs (base_uint_of b) = unat b"
proof -
  have "unat (ucast b :: 32 word) = unat b mod 4294967296"
    by (simp add: unsigned_ucast_eq take_bit_eq_mod)
  moreover have "unat (ucast (drop_bit 32 b) :: 32 word) = unat b div 4294967296"
  proof -
    have "unat b < 4294967296 * 4294967296" using unsigned_less [of b, where ?'a = nat] by simp
    then have "unat b div 4294967296 < 4294967296" by (rule less_mult_imp_div_less)
    moreover have "unat (ucast (drop_bit 32 b) :: 32 word) = unat (drop_bit 32 b) mod 4294967296"
      by (simp only: unsigned_ucast_eq take_bit_eq_mod) simp
    ultimately show ?thesis by (simp add: high_limb)
  qed
  moreover have "limbs (replicate 6 0) = 0" by simp
  ultimately show ?thesis by (simp add: base_uint_of_def)
qed

lemma bit_GetLow64: "bit (GetLow64 pn) n \<longleftrightarrow> n < 32 \<and> bit (pn ! 0) n \<or> 32 \<le> n \<and> n < 64 \<and> bit (pn ! 1) (n - 32)"
  by (auto simp: GetLow64_def bit_or_iff bit_push_bit_iff bit_ucast_iff dest: bit_word32)

lemma unat_GetLow64 [limb_simps]:
  assumes "length pn = WIDTH"
  shows "unat (GetLow64 pn) = limbs pn mod 2 ^ 64"
proof -
  have "unat (GetLow64 pn) = take_bit 64 (limbs pn)"
  proof (rule bit_eqI)
    fix n :: nat
    obtain m t where n: "n = 32 * m + t" and t: "t < 32" by (rule bit_split)
    have "m = 0 \<or> m = 1 \<or> 2 \<le> m" by auto
    then show "bit (unat (GetLow64 pn)) n = bit (take_bit 64 (limbs pn)) n"
      using t assms bit_limbs_at [OF t, of pn m]
      by (auto simp: n bit_unsigned_iff bit_GetLow64 bit_take_bit_iff)
  qed
  then show ?thesis by (simp only: take_bit_eq_mod)
qed

lemma EqualTo_limbs [limb_simps]:
  assumes "length pn = WIDTH"
  shows "EqualTo pn b \<longleftrightarrow> limbs pn = unat b"
proof -
  obtain x y zs where pn: "pn = x # y # zs" and zs: "length zs = 6"
    using assms by (auto simp: length_Suc_conv numeral_eq_Suc)
  have "list_ex (\<lambda>i. pn ! i \<noteq> 0) (rev [2..<WIDTH]) \<longleftrightarrow> (\<exists>i < 6. zs ! i \<noteq> 0)"
    by (simp add: pn list_ex_iff upt_rec) (auto simp: numeral_eq_Suc less_Suc_eq)
  also have "\<dots> \<longleftrightarrow> zs \<noteq> replicate 6 0" using zs by (simp add: list_eq_iff_nth_eq)
  finally have z: "\<not> list_ex (\<lambda>i. pn ! i \<noteq> 0) (rev [2..<WIDTH]) \<longleftrightarrow> zs = replicate 6 0" by simp
  have hi: "ucast y = drop_bit 32 b \<longleftrightarrow> y = ucast (drop_bit 32 b)"
  proof -
    have "unat b < 4294967296 * 4294967296" using unsigned_less [of b, where ?'a = nat] by simp
    then have "unat b div 4294967296 < 4294967296" by (rule less_mult_imp_div_less)
    then show ?thesis
      by (simp add: word_unat_eq_iff unsigned_ucast_eq take_bit_eq_mod high_limb)
  qed
  have lo: "ucast x = b AND 0xffffffff \<longleftrightarrow> x = ucast b"
  proof -
    have "b AND 0xffffffff = take_bit 32 b" by (simp add: take_bit_eq_mask mask_eq_exp_minus_1)
    then show ?thesis
      by (simp only: word_unat_eq_iff unat_ucast_32_64 unsigned_take_bit_eq unsigned_ucast_eq) simp
  qed
  have "EqualTo pn b \<longleftrightarrow> pn = base_uint_of b"
    unfolding EqualTo_def z using hi lo by (auto simp: pn base_uint_of_def)
  also have "\<dots> \<longleftrightarrow> limbs pn = unat b"
    using assms by (metis length_bu(1) limbs_base_uint_of limbs_inj)
  finally show ?thesis .
qed

end
