(* ===== verification/ArithCompact.thy ===== *)
theory ArithCompact
  imports ArithUint256
begin

text \<open>
  What the operations of \<^verbatim>\<open>src/src/arith_uint256.cpp\<close> compute: arithmetic modulo \<open>2 ^ 256\<close>, exact division,
  and the compact format of targets, which keeps the leading bytes of a number.
\<close>

section \<open>Fields of a compact number\<close>

lemma unat_and_mask23 [limb_simps]: "unat ((c :: 32 word) AND 0x007fffff) = unat c mod 8388608"
proof -
  have "c AND 0x007fffff = take_bit 23 c" by (simp add: take_bit_eq_mask mask_eq_exp_minus_1)
  then show ?thesis by (simp only: unsigned_take_bit_eq) (simp add: take_bit_eq_mod)
qed

lemma unat_drop_bits32: "unat (drop_bit k (c :: 32 word)) = unat c div 2 ^ k"
  by (simp only: unat_drop_bit_eq) (simp only: drop_bit_eq_div)

lemma sign_bit_iff [limb_simps]: "(c :: 32 word) AND 0x00800000 = 0 \<longleftrightarrow> unat c mod 16777216 < 8388608"
proof -
  have "c AND 0x00800000 = 0 \<longleftrightarrow> \<not> bit (unat c) 23"
    using and_exp_eq_0_iff_not_bit [of c 23] by (simp add: bit_unsigned_iff)
  also have "bit (unat c) 23 \<longleftrightarrow> bit (unat c mod 16777216) 23"
    using bit_take_bit_iff [of 24 "unat c" 23] by (simp add: take_bit_eq_mod)
  also have "\<dots> \<longleftrightarrow> 8388608 \<le> unat c mod 16777216"
    using bit_top [of "unat c mod 16777216" 23] by simp
  finally show ?thesis by (simp add: not_le)
qed

lemma high_bits_iff [limb_simps]: "(c :: 32 word) AND NOT 0x007fffff = 0 \<longleftrightarrow> unat c < 8388608"
proof -
  have m: "(0x007fffff :: 32 word) = mask 23" by (simp add: mask_eq_exp_minus_1)
  have "c AND NOT (mask 23) = 0 \<longleftrightarrow> c AND mask 23 = c" by (auto simp: bit_eq_iff bit_simps)
  also have "\<dots> \<longleftrightarrow> unat (c AND 0x007fffff) = unat c" unfolding m by (simp only: word_unat_eq_iff)
  also have "\<dots> \<longleftrightarrow> unat c < 8388608"
    unfolding unat_and_mask23 by (metis mod_less mod_less_divisor zero_less_numeral)
  finally show ?thesis unfolding m .
qed

lemma unat_with_size:
  assumes "unat (c :: 32 word) < 16777216" and "n < 256"
  shows "unat (c OR push_bit 24 (of_nat n)) = unat c + 16777216 * n"
proof -
  have "(of_nat n :: 32 word) = ucast (of_nat n :: byte)"
  proof -
    have "unat (of_nat n :: 32 word) = n" and "unat (of_nat n :: byte) = n"
      using assms(2) by (simp_all add: unat_of_nat)
    then show ?thesis
      using assms(2) by (simp add: word_unat_eq_iff unsigned_ucast_eq take_bit_nat_eq_self del: of_nat_unat)
  qed
  then show ?thesis using unat_or_push_byte [of 3 c "of_nat n"] assms by (simp add: mult.commute)
qed

section \<open>Reading a compact number\<close>

lemma pow256: "(256 :: nat) ^ k = 2 ^ (8 * k)"
  by (simp add: power_mult)

text \<open>The number a compact one with the size \<open>n\<close> and the mantissa \<open>m\<close> stands for.\<close>

definition compact_value :: "nat \<Rightarrow> nat \<Rightarrow> nat" where
  "compact_value n m = (if n \<le> 3 then m div 256 ^ (3 - n) else m * 256 ^ (n - 3))"

lemma SetCompact_general:
  fixes c :: "32 word"
  defines "n \<equiv> unat c div 16777216" and "m \<equiv> unat c mod 8388608"
  defines "w \<equiv> if n \<le> 3 then compact_value n m else m"
  obtains r where "length r = WIDTH" and "limbs r = compact_value n m mod 2 ^ 256"
    and "SetCompact c = (r, w \<noteq> 0 \<and> 8388608 \<le> unat c mod 16777216,
       w \<noteq> 0 \<and> (n > 34 \<or> w > 0xff \<and> n > 33 \<or> w > 0xffff \<and> n > 32))"
proof -
  have n: "unat (drop_bit 24 c) = n" by (simp add: unat_drop_bits32 n_def)
  have m: "unat (c AND 0x007fffff) = m" by (simp add: unat_and_mask23 m_def)
  let ?w = "if n \<le> 3 then drop_bit (8 * (3 - n)) (c AND 0x007fffff) else c AND 0x007fffff"
  have uw: "unat ?w = w"
    unfolding w_def by (simp only: unat_drop_bits32 m compact_value_def pow256 if_distrib [of unat] cong: if_cong) simp
  let ?r = "if n \<le> 3 then base_uint_of (ucast ?w) else bu_shl (base_uint_of (ucast ?w)) (8 * (n - 3))"
  have "limbs ?r = compact_value n m mod 2 ^ 256"
  proof (cases "n \<le> 3")
    case True
    have "unat ?w < 2 ^ 256"
      by (rule order_less_trans [OF unat_word32_less]) simp
    then have "compact_value n m mod 2 ^ 256 = compact_value n m"
      using uw True by (simp only: w_def if_True mod_less)
    then show ?thesis using True uw by (simp add: w_def limbs_base_uint_of)
  next
    case False
    then show ?thesis using uw by (simp add: w_def limbs_bu_shl limbs_base_uint_of compact_value_def pow256)
  qed
  moreover have "SetCompact c = (?r, ?w \<noteq> 0 \<and> c AND 0x00800000 \<noteq> 0,
      ?w \<noteq> 0 \<and> (n > 34 \<or> ?w > 0xff \<and> n > 33 \<or> ?w > 0xffff \<and> n > 32))"
    unfolding SetCompact_def Let_def n by simp
  moreover have "?w \<noteq> 0 \<longleftrightarrow> w \<noteq> 0" "?w > 0xff \<longleftrightarrow> w > 0xff" "?w > 0xffff \<longleftrightarrow> w > 0xffff"
    unfolding uw [symmetric] by (simp_all only: word_unat_eq_iff word_less_nat_alt unat_0 unat_numeral) simp_all
  moreover have "c AND 0x00800000 \<noteq> 0 \<longleftrightarrow> 8388608 \<le> unat c mod 16777216"
    unfolding sign_bit_iff by (simp only: not_less)
  ultimately show ?thesis using that [of ?r] by auto
qed

lemma SetCompact_limbs:
  assumes c: "unat c = m + 16777216 * n" and m: "m < 8388608"
  obtains r ovf where "SetCompact c = (r, False, ovf)" and "length r = WIDTH"
    and "limbs r = compact_value n m mod 2 ^ 256"
    and "ovf \<longleftrightarrow> (let w = if n \<le> 3 then compact_value n m else m
           in w \<noteq> 0 \<and> (n > 34 \<or> w > 0xff \<and> n > 33 \<or> w > 0xffff \<and> n > 32))"
proof -
  have n: "unat c div 16777216 = n" and mod: "unat c mod 16777216 = m" using m by (simp_all add: c)
  have m': "unat c mod 8388608 = m"
    using m mod_mult_self2 [of m 8388608 "2 * n"] by (simp add: c)
  show ?thesis
    by (rule SetCompact_general [of c, unfolded n m' mod], rule that) (use m in auto)
qed

section \<open>Writing a compact number\<close>

text \<open>The mantissa of \<open>N\<close> for the size \<open>n\<close>.\<close>

definition compact_mantissa :: "nat \<Rightarrow> nat \<Rightarrow> nat" where
  "compact_mantissa n N = (if n \<le> 3 then N * 256 ^ (3 - n) else N div 256 ^ (n - 3))"

lemma compact_mantissa_Suc: "compact_mantissa n N div 256 = compact_mantissa (Suc n) N"
proof -
  consider "n < 3" | "n = 3" | "3 < n" by linarith
  then show ?thesis
  proof cases
    case 1
    then have "3 - n = Suc (2 - n)" by simp
    with 1 show ?thesis by (simp add: compact_mantissa_def)
  next
    case 3
    then have "Suc n - 3 = Suc (n - 3)" by simp
    with 3 show ?thesis by (simp add: compact_mantissa_def div_mult2_eq [symmetric] mult.commute)
  qed (simp add: compact_mantissa_def)
qed

text \<open>With the size in bytes, the mantissa has three bytes and the first one is not zero.\<close>

lemma compact_mantissa_bounds:
  assumes "N < 2 ^ b" and "b \<noteq> 0 \<Longrightarrow> 2 ^ (b - 1) \<le> N" and "b = 0 \<longleftrightarrow> N = 0"
  defines "n \<equiv> (b + 7) div 8"
  shows "compact_mantissa n N < 16777216" and "N \<noteq> 0 \<Longrightarrow> 65536 \<le> compact_mantissa n N"
proof -
  have n: "b \<le> 8 * n" "8 * n < b + 8" unfolding n_def by linarith+
  then have "(2 :: nat) ^ b \<le> 2 ^ (8 * n)" by (intro power_increasing) auto
  with assms(1) have up: "N < 256 ^ n" unfolding pow256 by (rule order_less_le_trans)
  have low: "256 ^ (n - 1) \<le> N" if "N \<noteq> 0"
  proof -
    have "8 * (n - 1) \<le> b - 1" using n by linarith
    then have "(2 :: nat) ^ (8 * (n - 1)) \<le> 2 ^ (b - 1)" by (intro power_increasing) auto
    also have "2 ^ (b - 1) \<le> N" using assms(2,3) that by blast
    finally show ?thesis by (simp add: pow256)
  qed
  have three: "(256 :: nat) ^ 3 = 16777216" "(256 :: nat) ^ 2 = 65536" by simp_all
  show "compact_mantissa n N < 16777216"
  proof (cases "n \<le> 3")
    case True
    then have "N * 256 ^ (3 - n) < 256 ^ n * 256 ^ (3 - n)" using up by simp
    with True show ?thesis by (simp add: compact_mantissa_def flip: power_add)
  next
    case False
    then have "(256 :: nat) ^ n = 256 ^ 3 * 256 ^ (n - 3)" using power_add [of "256 :: nat" 3 "n - 3"] by simp
    with up have "N < 256 ^ 3 * 256 ^ (n - 3)" by simp
    with False show ?thesis by (simp add: compact_mantissa_def less_mult_imp_div_less)
  qed
  assume N: "N \<noteq> 0"
  then have "n \<noteq> 0" using assms(3) n by auto
  show "65536 \<le> compact_mantissa n N"
  proof (cases "n \<le> 3")
    case True
    have "256 ^ (n - 1) * 256 ^ (3 - n) \<le> N * 256 ^ (3 - n)" using low [OF N] by simp
    moreover have "n - 1 + (3 - n) = 2" using True \<open>n \<noteq> 0\<close> by simp
    ultimately show ?thesis using True by (simp add: compact_mantissa_def three flip: power_add)
  next
    case False
    then have "n - 1 = 2 + (n - 3)" by simp
    then have "65536 * 256 ^ (n - 3) \<le> N" using low [OF N] by (simp add: power_add)
    then have "65536 \<le> N div 256 ^ (n - 3)" by (simp add: less_eq_div_iff_mult_less_eq)
    with False show ?thesis by (simp add: compact_mantissa_def)
  qed
qed

lemma GetCompact_first:
  fixes a :: base_uint
  assumes "length a = WIDTH"
  defines "n \<equiv> (bu_bits a + 7) div 8"
  shows "unat (if n \<le> 3 then ucast (push_bit (8 * (3 - n)) (GetLow64 a))
      else ucast (GetLow64 (bu_shr a (8 * (n - 3)))) :: 32 word) = compact_mantissa n (limbs a)"
proof -
  have b: "compact_mantissa n (limbs a) < 16777216"
    unfolding n_def using bu_bits_bounds [OF assms(1)] by (intro compact_mantissa_bounds) auto
  have cast: "unat (ucast w :: 32 word) = unat w mod 2 ^ 32" for w :: "64 word"
    by (simp only: unsigned_ucast_eq take_bit_eq_mod) simp
  show ?thesis
  proof (cases "n \<le> 3")
    case True
    have push: "unat (push_bit k w) = (unat w * 2 ^ k) mod 2 ^ 64" for k and w :: "64 word"
      by (simp only: unsigned_push_bit_eq) (simp add: take_bit_eq_mod push_bit_eq_mult)
    from True b have "limbs a * 2 ^ (8 * (3 - n)) < 16777216"
      by (simp add: compact_mantissa_def pow256)
    then have small: "(limbs a * 2 ^ (8 * (3 - n))) mod 2 ^ 64 mod 2 ^ 32 = limbs a * 2 ^ (8 * (3 - n))" by simp
    have "unat (ucast (push_bit (8 * (3 - n)) (GetLow64 a)) :: 32 word) =
        (limbs a * 2 ^ (8 * (3 - n))) mod 2 ^ 64 mod 2 ^ 32"
      by (simp only: cast push unat_GetLow64 [OF assms(1)] mod_mult_left_eq)
    with small True show ?thesis by (simp only: if_True compact_mantissa_def pow256)
  next
    case False
    then have "limbs a div 2 ^ (8 * (n - 3)) < 16777216"
      using b by (simp add: compact_mantissa_def pow256)
    then have small: "limbs a div 2 ^ (8 * (n - 3)) mod 2 ^ 64 mod 2 ^ 32 = limbs a div 2 ^ (8 * (n - 3))" by simp
    have "unat (ucast (GetLow64 (bu_shr a (8 * (n - 3)))) :: 32 word) =
        limbs a div 2 ^ (8 * (n - 3)) mod 2 ^ 64 mod 2 ^ 32"
      by (simp only: cast unat_GetLow64 [OF length_shift(2)] limbs_bu_shr [OF assms(1)])
    with small False show ?thesis by (simp only: if_False compact_mantissa_def pow256)
  qed
qed

lemma GetCompact_limbs:
  assumes "length a = WIDTH"
  obtains c n where "GetCompact a False = Some c"
    and "unat c = compact_mantissa n (limbs a) + 16777216 * n"
    and "compact_mantissa n (limbs a) < 8388608" and "n \<le> 33"
    and "limbs a \<noteq> 0 \<Longrightarrow> 32768 \<le> compact_mantissa n (limbs a)"
proof -
  let ?n = "(bu_bits a + 7) div 8"
  let ?w = "if ?n \<le> 3 then ucast (push_bit (8 * (3 - ?n)) (GetLow64 a))
      else ucast (GetLow64 (bu_shr a (8 * (?n - 3)))) :: 32 word"
  have w: "unat ?w = compact_mantissa ?n (limbs a)" by (rule GetCompact_first) fact
  have up: "compact_mantissa ?n (limbs a) < 16777216"
    and low: "limbs a \<noteq> 0 \<Longrightarrow> 65536 \<le> compact_mantissa ?n (limbs a)"
    using bu_bits_bounds [OF assms] by (auto intro: compact_mantissa_bounds)
  have n: "?n \<le> 32" using bu_bits_bounds(4) [OF assms] by linarith
  define big where "big \<longleftrightarrow> 8388608 \<le> compact_mantissa ?n (limbs a)"
  have sign: "?w AND 0x00800000 \<noteq> 0 \<longleftrightarrow> big"
    unfolding sign_bit_iff w big_def using up by auto
  define n' where "n' = (if big then ?n + 1 else ?n)"
  define w' where "w' = (if big then drop_bit 8 ?w else ?w)"
  have w': "unat w' = compact_mantissa n' (limbs a)"
  proof (cases big)
    case True
    then have "unat w' = unat ?w div 2 ^ 8" unfolding w'_def by (simp only: if_True unat_drop_bits32)
    also have "\<dots> = compact_mantissa ?n (limbs a) div 256" unfolding w by simp
    finally show ?thesis using True by (simp add: n'_def compact_mantissa_Suc)
  next
    case False
    then show ?thesis using w unfolding w'_def n'_def by (simp only: if_False)
  qed
  have mant: "compact_mantissa n' (limbs a) =
      (if big then compact_mantissa ?n (limbs a) div 256 else compact_mantissa ?n (limbs a))"
    by (simp add: n'_def compact_mantissa_Suc)
  have small: "unat w' < 8388608"
    unfolding w' mant using up less_mult_imp_div_less [of "compact_mantissa ?n (limbs a)" 65536 256]
    by (auto simp: big_def)
  have ge: "32768 \<le> unat w'" if "limbs a \<noteq> 0"
    unfolding w' mant using low [OF that] div_le_mono [of 8388608 "compact_mantissa ?n (limbs a)" 256]
    by (auto simp: big_def)
  have hb: "w' AND NOT 0x007fffff = 0" using small by (simp only: high_bits_iff)
  have "GetCompact a False = Some (w' OR push_bit 24 (of_nat n'))"
    unfolding GetCompact_def Let_def sign using hb n by (simp flip: w'_def n'_def) (simp add: n'_def)
  moreover have "unat (w' OR push_bit 24 (of_nat n')) = compact_mantissa n' (limbs a) + 16777216 * n'"
    unfolding w' [symmetric] using small n by (intro unat_with_size) (auto simp: n'_def)
  ultimately show ?thesis
    using that small ge n w' by (auto simp: n'_def)
qed

lemma GetCompact_SetCompact:
  assumes "length a = WIDTH"
  shows "\<exists>c r k. GetCompact a False = Some c \<and> SetCompact c = (r, False, False) \<and>
    length r = WIDTH \<and> limbs r = limbs a div 256 ^ k * 256 ^ k \<and> (k = 0 \<or> 32768 * 256 ^ k \<le> limbs a)"
proof -
  obtain c n where c: "GetCompact a False = Some c" "unat c = compact_mantissa n (limbs a) + 16777216 * n"
    "compact_mantissa n (limbs a) < 8388608" "n \<le> 33"
    "limbs a \<noteq> 0 \<Longrightarrow> 32768 \<le> compact_mantissa n (limbs a)"
    using GetCompact_limbs [OF assms] by blast
  obtain r ovf where r: "SetCompact c = (r, False, ovf)" "length r = WIDTH"
    "limbs r = compact_value n (compact_mantissa n (limbs a)) mod 2 ^ 256"
    "ovf \<longleftrightarrow> (let w = if n \<le> 3 then compact_value n (compact_mantissa n (limbs a)) else compact_mantissa n (limbs a)
       in w \<noteq> 0 \<and> (n > 34 \<or> w > 0xff \<and> n > 33 \<or> w > 0xffff \<and> n > 32))"
    using SetCompact_limbs [OF c(2,3)] by blast
  have N: "limbs a < 2 ^ 256" by (rule limbs_256) fact
  have v: "compact_value n (compact_mantissa n (limbs a)) = limbs a div 256 ^ (n - 3) * 256 ^ (n - 3)"
    by (simp add: compact_value_def compact_mantissa_def)
  also have "\<dots> \<le> limbs a" by (rule div_times_less_eq_dividend)
  finally have "compact_value n (compact_mantissa n (limbs a)) < 2 ^ 256"
    using N by (rule order_le_less_trans)
  then have limbs: "limbs r = limbs a div 256 ^ (n - 3) * 256 ^ (n - 3)" unfolding r(3) v by (rule mod_less)
  have "compact_mantissa n (limbs a) \<le> 0xffff" if "n = 33"
  proof -
    have "limbs a < 65536 * 256 ^ 30" using N by simp
    then have "limbs a div 256 ^ 30 < 65536" by (rule less_mult_imp_div_less)
    then show ?thesis using that by (simp add: compact_mantissa_def)
  qed
  then have "\<not> ovf" unfolding r(4) Let_def using c(4) by (cases "n = 33") auto
  define k where "k = (if limbs a = 0 then 0 else n - 3)"
  have "k = 0 \<or> 32768 * 256 ^ k \<le> limbs a"
  proof (cases "n \<le> 3 \<or> limbs a = 0")
    case False
    then have "32768 * 256 ^ (n - 3) \<le> limbs a div 256 ^ (n - 3) * 256 ^ (n - 3)"
      using c(5) by (simp add: compact_mantissa_def)
    also have "\<dots> \<le> limbs a" by (rule div_times_less_eq_dividend)
    finally show ?thesis using False by (simp add: k_def)
  qed (auto simp: k_def)
  moreover have "limbs r = limbs a div 256 ^ k * 256 ^ k" using limbs by (simp add: k_def)
  moreover have "SetCompact c = (r, False, False)" using r(1) \<open>\<not> ovf\<close> by simp
  ultimately show ?thesis using c(1) r(2) by blast
qed

section \<open>Properties\<close>

text \<open>C18: The arrays of words are integers modulo \<open>2 ^ 256\<close>: sum, difference, the two products,
  shifts and comparison of \<^verbatim>\<open>base_uint\<close> are those operations on the numbers the arrays stand for, with
  the carries of every loop accounted for.\<close>

theorem base_uint_arithmetic:
  assumes "length a = WIDTH" and "length b = WIDTH"
  shows "limbs (bu_add a b) = (limbs a + limbs b) mod 2 ^ 256 \<and>
    limbs (bu_sub a b) = (limbs a + (2 ^ 256 - limbs b)) mod 2 ^ 256 \<and>
    limbs (bu_mul32 a w) = (limbs a * unat w) mod 2 ^ 256 \<and>
    limbs (bu_mul a b) = (limbs a * limbs b) mod 2 ^ 256 \<and>
    limbs (bu_shl a n) = (limbs a * 2 ^ n) mod 2 ^ 256 \<and>
    limbs (bu_shr a n) = limbs a div 2 ^ n \<and>
    CompareTo a b = sgn (int (limbs a) - int (limbs b)) \<and>
    EqualTo a v = (limbs a = unat v)"
  using assms by (simp add: limb_simps bu_mul_limbs)

theorem base_uint_arithmetic_witness:
  "limbs (bu_sub (base_uint_of 0) (base_uint_of 1)) = 2 ^ 256 - 1 \<and>
   limbs (bu_mul32 (base_uint_of 0xffffffffffffffff) 3) = 0x2fffffffffffffffd"
  using base_uint_arithmetic [of "base_uint_of 0" "base_uint_of 1" 3 0 0]
    base_uint_arithmetic [of "base_uint_of 0xffffffffffffffff" "base_uint_of 1" 3 0 0]
  by (simp add: limbs_base_uint_of)

text \<open>C17: The shift and subtract loop of \<^verbatim>\<open>operator/=\<close> computes the integer quotient, and throws exactly
  on a zero divisor.\<close>

theorem base_uint_division:
  assumes "length a = WIDTH" and "length b = WIDTH"
  shows "(case bu_div a b of
     None \<Rightarrow> limbs b = 0
   | Some q \<Rightarrow> limbs b \<noteq> 0 \<and> limbs q = limbs a div limbs b)"
  using bu_div_limbs [OF assms] by (auto split: option.splits)

theorem base_uint_division_witness:
  "(case bu_div (base_uint_of 1000) (base_uint_of 7) of None \<Rightarrow> False | Some q \<Rightarrow> limbs q = 142)"
  using base_uint_division [of "base_uint_of 1000" "base_uint_of 7"]
  by (auto simp: limbs_base_uint_of split: option.splits)

text \<open>C19: Writing a number in the compact format and reading it back.  No assertion fails, the number
  read is neither negative nor overflowed, and it is the number with its last \<open>k\<close> bytes cleared; bytes are lost
  only when at least fifteen significant bits remain, so no target grows and none loses more than
  one part in \<open>2 ^ 15\<close>.\<close>

theorem compact_roundtrip:
  assumes "length a = WIDTH"
  shows "\<exists>c r k. GetCompact a False = Some c \<and> SetCompact c = (r, False, False) \<and>
    length r = WIDTH \<and> limbs r = limbs a div 256 ^ k * 256 ^ k \<and> (k = 0 \<or> 32768 * 256 ^ k \<le> limbs a)"
  using assms by (rule GetCompact_SetCompact)

theorem compact_roundtrip_witness:
  "\<exists>c r k. GetCompact (base_uint_of 0x123456) False = Some c \<and> SetCompact c = (r, False, False) \<and>
    length r = WIDTH \<and> limbs r = 0x123456 div 256 ^ k * 256 ^ k \<and> (k = 0 \<or> 32768 * 256 ^ k \<le> (0x123456 :: nat))"
  using compact_roundtrip [of "base_uint_of 0x123456"] by (simp add: limbs_base_uint_of)

end
