(* ===== verification/Chain.thy ===== *)
theory Chain
  imports Block ArithCompact
begin

text \<open>
  The block index and the active chain (\<^verbatim>\<open>src/src/chain.h\<close>, \<^verbatim>\<open>src/src/chain.cpp\<close>).  \<^verbatim>\<open>mapBlockIndex\<close> owns one
  entry per block hash, so the hash stands for the pointer to the entry, and the index is a store from
  hashes to records; a null pointer is \<^const>\<open>None\<close>.  \<open>wf_index\<close> is the shape of the tree of blocks and
  \<open>steps_back\<close>, which goes back entry by entry, the specification of the skip list walk \<open>GetAncestor\<close>.
  Loops along \<open>pprev\<close> have fuel for as many steps as the height; running out of it, like following a
  pointer to no entry, is undefined behaviour, and is proved not to happen on a well-formed index.
\<close>

section \<open>Block index entries\<close>

type_synonym addr = bytes

record CBlockIndex =
  pprev :: "addr option"
  pskip :: "addr option"
  nHeight :: int
  nFile :: int
  nDataPos :: "32 word"
  nUndoPos :: "32 word"
  nChainWork :: base_uint
  nTx :: "32 word"
  nChainTx :: "32 word"
  nStatus :: "32 word"
  bi_nVersion :: "32 word"
  hashMerkleRoot :: bytes
  nTime :: "32 word"
  nBits :: "32 word"
  nNonce :: "32 word"
  nSequenceId :: "32 word"
  nTimeMax :: "32 word"

type_synonym index = "addr \<Rightarrow> CBlockIndex option"

definition BlockIndex_null :: CBlockIndex where
  "BlockIndex_null = \<lparr>pprev = None, pskip = None, nHeight = 0, nFile = 0, nDataPos = 0, nUndoPos = 0,
     nChainWork = base_uint_of 0, nTx = 0, nChainTx = 0, nStatus = 0, bi_nVersion = 0,
     hashMerkleRoot = uint256_null, nTime = 0, nBits = 0, nNonce = 0, nSequenceId = 0, nTimeMax = 0\<rparr>"

definition BlockIndex_of :: "CBlockHeader \<Rightarrow> CBlockIndex" where
  "BlockIndex_of block = BlockIndex_null\<lparr>bi_nVersion := h_nVersion block,
     hashMerkleRoot := h_hashMerkleRoot block, nTime := h_nTime block, nBits := h_nBits block,
     nNonce := h_nNonce block\<rparr>"

text \<open>The hash of the predecessor is the pointer to it.\<close>

definition index_GetBlockHeader :: "CBlockIndex \<Rightarrow> CBlockHeader" where
  "index_GetBlockHeader b = \<lparr>h_nVersion = bi_nVersion b,
     hashPrevBlock = (case pprev b of Some p \<Rightarrow> p | None \<Rightarrow> uint256_null),
     h_hashMerkleRoot = hashMerkleRoot b, h_nTime = nTime b, h_nBits = nBits b, h_nNonce = nNonce b\<rparr>"

definition IsProofOfStake :: "CBlockIndex \<Rightarrow> bool" where
  "IsProofOfStake b \<longleftrightarrow> bi_nVersion b AND MINING_TYPE_POS \<noteq> 0"

definition IsProofOfWork :: "CBlockIndex \<Rightarrow> bool" where
  "IsProofOfWork b \<longleftrightarrow> bi_nVersion b AND MINING_TYPE_POW \<noteq> 0"

definition GetBlockTime :: "CBlockIndex \<Rightarrow> int" where
  "GetBlockTime b = uint (nTime b)"

definition GetBlockTimeMax :: "CBlockIndex \<Rightarrow> int" where
  "GetBlockTimeMax b = uint (nTimeMax b)"

abbreviation (input) BLOCK_VALID_TREE :: "32 word" where "BLOCK_VALID_TREE \<equiv> 2"
abbreviation (input) BLOCK_VALID_TRANSACTIONS :: "32 word" where "BLOCK_VALID_TRANSACTIONS \<equiv> 3"
abbreviation (input) BLOCK_VALID_MASK :: "32 word" where "BLOCK_VALID_MASK \<equiv> 7"
abbreviation (input) BLOCK_HAVE_DATA :: "32 word" where "BLOCK_HAVE_DATA \<equiv> 8"
abbreviation (input) BLOCK_HAVE_UNDO :: "32 word" where "BLOCK_HAVE_UNDO \<equiv> 16"
abbreviation (input) BLOCK_FAILED_MASK :: "32 word" where "BLOCK_FAILED_MASK \<equiv> 96"

text \<open>A disk position: the file and the offset; null is file \<open>-1\<close>.\<close>

definition GetBlockPos :: "CBlockIndex \<Rightarrow> int \<times> 32 word" where
  "GetBlockPos b = (if nStatus b AND BLOCK_HAVE_DATA \<noteq> 0 then (nFile b, nDataPos b) else (-1, 0))"

definition GetUndoPos :: "CBlockIndex \<Rightarrow> int \<times> 32 word" where
  "GetUndoPos b = (if nStatus b AND BLOCK_HAVE_UNDO \<noteq> 0 then (nFile b, nUndoPos b) else (-1, 0))"

text \<open>\<^const>\<open>None\<close> is the failed assertion that \<open>nUpTo\<close> has validity bits only.\<close>

definition IsValid :: "CBlockIndex \<Rightarrow> 32 word \<Rightarrow> bool option" where
  "IsValid b nUpTo =
     (if nUpTo AND NOT BLOCK_VALID_MASK \<noteq> 0 then None
      else if nStatus b AND BLOCK_FAILED_MASK \<noteq> 0 then Some False
      else Some (nStatus b AND BLOCK_VALID_MASK \<ge> nUpTo))"

definition RaiseValidity :: "CBlockIndex \<Rightarrow> 32 word \<Rightarrow> (bool \<times> CBlockIndex) option" where
  "RaiseValidity b nUpTo =
     (if nUpTo AND NOT BLOCK_VALID_MASK \<noteq> 0 then None
      else if nStatus b AND BLOCK_FAILED_MASK \<noteq> 0 then Some (False, b)
      else if nStatus b AND BLOCK_VALID_MASK < nUpTo
        then Some (True, b\<lparr>nStatus := (nStatus b AND NOT BLOCK_VALID_MASK) OR nUpTo\<rparr>)
      else Some (False, b))"

section \<open>Median time\<close>

text \<open>The times of up to \<open>n\<close> entries, from \<open>a\<close> backwards; \<open>UndefinedBehaviour\<close> is a dangling pointer.\<close>

fun past_times :: "index \<Rightarrow> nat \<Rightarrow> addr option \<Rightarrow> int list outcome" where
  "past_times H 0 pindex = Ret []"
| "past_times H (Suc n) None = Ret []"
| "past_times H (Suc n) (Some a) =
     (case H a of
        None \<Rightarrow> UndefinedBehaviour
      | Some b \<Rightarrow> map_outcome (\<lambda>ts. GetBlockTime b # ts) (past_times H n (pprev b)))"

abbreviation (input) nMedianTimeSpan :: nat where "nMedianTimeSpan \<equiv> 11"

definition GetMedianTimePast :: "index \<Rightarrow> addr \<Rightarrow> int outcome" where
  "GetMedianTimePast H a =
     map_outcome (\<lambda>ts. sort (rev ts) ! (length ts div 2)) (past_times H nMedianTimeSpan (Some a))"

section \<open>The skip list\<close>

definition InvertLowestOne :: "int \<Rightarrow> int" where
  "InvertLowestOne n = n AND (n - 1)"

definition GetSkipHeight :: "int \<Rightarrow> int" where
  "GetSkipHeight height =
     (if height < 2 then 0
      else if height AND 1 \<noteq> 0 then InvertLowestOne (InvertLowestOne (height - 1)) + 1
      else InvertLowestOne height)"

lemma InvertLowestOne_bounds:
  assumes "0 < n"
  shows "0 \<le> InvertLowestOne n" and "InvertLowestOne n < n"
proof -
  show "0 \<le> InvertLowestOne n" using assms by (simp add: InvertLowestOne_def)
  have "n AND (n - 1) \<le> n - 1" using assms by (intro AND_upper2) simp
  then show "InvertLowestOne n < n" by (simp add: InvertLowestOne_def)
qed

lemma GetSkipHeight_bounds:
  assumes "0 < height"
  shows "0 \<le> GetSkipHeight height \<and> GetSkipHeight height < height"
proof -
  consider "height < 2" | "2 \<le> height" "height AND 1 \<noteq> 0" | "2 \<le> height" "height AND 1 = 0" by linarith
  then show ?thesis
  proof cases
    case 2
    have "0 < height - 1" using 2 by simp
    note b = InvertLowestOne_bounds [OF this]
    show ?thesis
    proof (cases "InvertLowestOne (height - 1) = 0")
      case True
      then show ?thesis using 2 by (simp add: GetSkipHeight_def) (simp add: InvertLowestOne_def)
    next
      case False
      then have "0 < InvertLowestOne (height - 1)" using b by simp
      from InvertLowestOne_bounds [OF this] b 2 show ?thesis by (simp add: GetSkipHeight_def)
    qed
  next
    case 3
    then show ?thesis using InvertLowestOne_bounds [of height] by (simp add: GetSkipHeight_def)
  qed (use assms in \<open>simp add: GetSkipHeight_def\<close>)
qed

text \<open>The \<^verbatim>\<open>while\<close> loop of \<open>GetAncestor\<close>: the walk pointer, its height, and the height wanted.\<close>

definition follow_skip :: "int \<Rightarrow> int \<Rightarrow> bool" where
  "follow_skip heightWalk height =
     (let heightSkip = GetSkipHeight heightWalk; heightSkipPrev = GetSkipHeight (heightWalk - 1)
      in heightSkip = height \<or>
         (heightSkip > height \<and> \<not> (heightSkipPrev < heightSkip - 2 \<and> heightSkipPrev \<ge> height)))"

function ancestor_loop :: "index \<Rightarrow> addr \<Rightarrow> int \<Rightarrow> int \<Rightarrow> addr option outcome" where
  "ancestor_loop H pindexWalk heightWalk height =
     (if heightWalk > height \<and> 0 \<le> height then
        (case H pindexWalk of
           None \<Rightarrow> UndefinedBehaviour
         | Some b \<Rightarrow>
             (case pskip b of
                Some s \<Rightarrow>
                  if follow_skip heightWalk height
                  then ancestor_loop H s (GetSkipHeight heightWalk) height
                  else (case pprev b of None \<Rightarrow> AssertFail
                    | Some p \<Rightarrow> ancestor_loop H p (heightWalk - 1) height)
              | None \<Rightarrow>
                  (case pprev b of None \<Rightarrow> AssertFail
                    | Some p \<Rightarrow> ancestor_loop H p (heightWalk - 1) height)))
      else Ret (Some pindexWalk))"
  by pat_completeness auto
termination
proof (relation "measure (\<lambda>(_, _, heightWalk, _). nat heightWalk)")
  fix H :: index and a s :: addr and heightWalk height :: int
  assume "height < heightWalk \<and> 0 \<le> height"
  then have "0 < heightWalk" by simp
  then show "((H, s, GetSkipHeight heightWalk, height), H, a, heightWalk, height)
      \<in> measure (\<lambda>(_, _, heightWalk, _). nat heightWalk)"
    using GetSkipHeight_bounds by simp
qed auto

declare ancestor_loop.simps [simp del]

text \<open>\<open>GetAncestor H a height\<close>: the caller's pointer \<open>a\<close> is not null.\<close>

definition GetAncestor :: "index \<Rightarrow> addr \<Rightarrow> int \<Rightarrow> addr option outcome" where
  "GetAncestor H a height =
     (case H a of
        None \<Rightarrow> UndefinedBehaviour
      | Some b \<Rightarrow>
          if height > nHeight b \<or> height < 0 then Ret None
          else ancestor_loop H a (nHeight b) height)"

definition BuildSkip :: "index \<Rightarrow> addr \<Rightarrow> index outcome" where
  "BuildSkip H a =
     (case H a of
        None \<Rightarrow> UndefinedBehaviour
      | Some b \<Rightarrow>
          (case pprev b of
             None \<Rightarrow> Ret H
           | Some p \<Rightarrow> map_outcome (\<lambda>s. H(a \<mapsto> b\<lparr>pskip := s\<rparr>)) (GetAncestor H p (GetSkipHeight (nHeight b)))))"

section \<open>The active chain\<close>

text \<open>\<^verbatim>\<open>vChain\<close>, with null pointers that \<^verbatim>\<open>resize\<close> leaves.\<close>

type_synonym CChain = "addr option list"

definition chain_at :: "CChain \<Rightarrow> int \<Rightarrow> addr option" where
  "chain_at vChain h = (if h < 0 \<or> h \<ge> int (length vChain) then None else vChain ! nat h)"

definition Tip :: "CChain \<Rightarrow> addr option" where
  "Tip vChain = (if length vChain > 0 then vChain ! (length vChain - 1) else None)"

definition Height :: "CChain \<Rightarrow> int" where
  "Height vChain = int (length vChain) - 1"

definition Contains :: "CChain \<Rightarrow> CBlockIndex \<Rightarrow> addr \<Rightarrow> bool" where
  "Contains vChain b a \<longleftrightarrow> chain_at vChain (nHeight b) = Some a"

definition chain_Next :: "CChain \<Rightarrow> CBlockIndex \<Rightarrow> addr \<Rightarrow> addr option" where
  "chain_Next vChain b a =
     (if Contains vChain b a then chain_at vChain (nHeight b + 1) else None)"

definition resize :: "nat \<Rightarrow> CChain \<Rightarrow> CChain" where
  "resize n vChain = take n vChain @ replicate (n - length vChain) None"

text \<open>The loop of \<open>SetTip\<close>.  The height of an entry is an index of the resized vector.  Fuel: one
  step per entry of the vector, as each one goes down a height.\<close>

fun set_tip_loop :: "nat \<Rightarrow> index \<Rightarrow> CChain \<Rightarrow> addr option \<Rightarrow> CChain outcome" where
  "set_tip_loop fuel H vChain None = Ret vChain"
| "set_tip_loop fuel H vChain (Some a) =
     (case H a of
        None \<Rightarrow> UndefinedBehaviour
      | Some b \<Rightarrow>
          if nHeight b < 0 \<or> nHeight b \<ge> int (length vChain) then UndefinedBehaviour
          else if vChain ! nat (nHeight b) = Some a then Ret vChain
          else (case fuel of
             0 \<Rightarrow> UndefinedBehaviour
           | Suc n \<Rightarrow> set_tip_loop n H (vChain[nat (nHeight b) := Some a]) (pprev b)))"

definition SetTip :: "index \<Rightarrow> CChain \<Rightarrow> addr option \<Rightarrow> CChain outcome" where
  "SetTip H vChain pindex =
     (case pindex of
        None \<Rightarrow> Ret []
      | Some a \<Rightarrow>
          (case H a of
             None \<Rightarrow> UndefinedBehaviour
           | Some b \<Rightarrow>
               let vChain = resize (nat (nHeight b + 1)) vChain
               in set_tip_loop (length vChain) H vChain pindex))"

definition Genesis :: "CChain \<Rightarrow> addr option" where
  "Genesis vChain = (if length vChain > 0 then vChain ! 0 else None)"

text \<open>\<open>FindFork\<close>: the loop back to an entry of the chain.\<close>

fun fork_loop :: "nat \<Rightarrow> index \<Rightarrow> CChain \<Rightarrow> addr option \<Rightarrow> addr option outcome" where
  "fork_loop fuel H vChain None = Ret None"
| "fork_loop fuel H vChain (Some a) =
     (case H a of
        None \<Rightarrow> UndefinedBehaviour
      | Some b \<Rightarrow>
          if Contains vChain b a then Ret (Some a)
          else (case fuel of 0 \<Rightarrow> UndefinedBehaviour | Suc n \<Rightarrow> fork_loop n H vChain (pprev b)))"

definition FindFork :: "index \<Rightarrow> CChain \<Rightarrow> addr option \<Rightarrow> addr option outcome" where
  "FindFork H vChain pindex =
     (case pindex of
        None \<Rightarrow> Ret None
      | Some a \<Rightarrow>
          (case H a of
             None \<Rightarrow> UndefinedBehaviour
           | Some b \<Rightarrow>
               (case (if nHeight b > Height vChain then GetAncestor H a (Height vChain) else Ret pindex) of
                  Ret p \<Rightarrow> fork_loop (nat (nHeight b) + 1) H vChain p
                | e \<Rightarrow> e)))"

text \<open>\<open>GetLocator\<close>: the hashes collected, with steps that double after the tenth.\<close>

fun locator_loop ::
    "nat \<Rightarrow> index \<Rightarrow> CChain \<Rightarrow> addr option \<Rightarrow> int \<Rightarrow> addr list \<Rightarrow> addr list outcome" where
  "locator_loop fuel H vChain None nStep vHave = Ret vHave"
| "locator_loop fuel H vChain (Some a) nStep vHave =
     (case H a of
        None \<Rightarrow> UndefinedBehaviour
      | Some b \<Rightarrow>
          let vHave = vHave @ [a]
          in if nHeight b = 0 then Ret vHave
             else let h = max (nHeight b - nStep) 0;
                      r = (if Contains vChain b a then Ret (chain_at vChain h) else GetAncestor H a h);
                      nStep = (if length vHave > 10 then nStep * 2 else nStep)
               in case fuel of
                    0 \<Rightarrow> UndefinedBehaviour
                  | Suc n \<Rightarrow> (case r of Ret p \<Rightarrow> locator_loop n H vChain p nStep vHave
                       | AssertFail \<Rightarrow> AssertFail | UndefinedBehaviour \<Rightarrow> UndefinedBehaviour))"

definition GetLocator :: "index \<Rightarrow> CChain \<Rightarrow> addr option \<Rightarrow> addr list outcome" where
  "GetLocator H vChain pindex =
     (let pindex = (case pindex of None \<Rightarrow> Tip vChain | Some a \<Rightarrow> Some a);
          fuel = (case pindex of None \<Rightarrow> 0 | Some a \<Rightarrow> (case H a of None \<Rightarrow> 0 | Some b \<Rightarrow> nat (nHeight b)))
      in locator_loop fuel H vChain pindex 1 [])"

text \<open>\<^verbatim>\<open>std::lower_bound\<close> over the indices \<open>first\<close> to \<open>first + len\<close>: the binary search of the standard library.\<close>

function lower_bound :: "(nat \<Rightarrow> bool) \<Rightarrow> nat \<Rightarrow> nat \<Rightarrow> nat" where
  "lower_bound below first len =
     (if len = 0 then first
      else let half = len div 2; mid = first + half
        in if below mid then lower_bound below (mid + 1) (len - half - 1)
           else lower_bound below first half)"
  by pat_completeness auto
termination by (relation "measure (\<lambda>(_, _, len). len)") (auto simp: Let_def)

declare lower_bound.simps [simp del]

definition FindEarliestAtLeast :: "index \<Rightarrow> CChain \<Rightarrow> int \<Rightarrow> addr option" where
  "FindEarliestAtLeast H vChain time =
     (let i = lower_bound (\<lambda>i. case Option.bind (vChain ! i) H of
            None \<Rightarrow> False | Some b \<Rightarrow> GetBlockTimeMax b < time) 0 (length vChain)
      in if i = length vChain then None else vChain ! i)"

text \<open>\<open>LastCommonAncestor\<close>: both walks step back together.\<close>

fun common_loop :: "nat \<Rightarrow> index \<Rightarrow> addr option \<Rightarrow> addr option \<Rightarrow> addr option outcome" where
  "common_loop fuel H pa pb =
     (if pa = pb then Ret pa
      else case (pa, pb) of
        (Some a, Some b) \<Rightarrow>
          (case (H a, H b, fuel) of
             (Some ba, Some bb, Suc n) \<Rightarrow> common_loop n H (pprev ba) (pprev bb)
           | _ \<Rightarrow> UndefinedBehaviour)
      | _ \<Rightarrow> AssertFail)"

definition LastCommonAncestor :: "index \<Rightarrow> addr \<Rightarrow> addr \<Rightarrow> addr option outcome" where
  "LastCommonAncestor H pa pb =
     (case (H pa, H pb) of
        (Some ba, Some bb) \<Rightarrow>
          (let ra = (if nHeight ba > nHeight bb then GetAncestor H pa (nHeight bb) else Ret (Some pa));
               rb = (if nHeight bb > nHeight ba then GetAncestor H pb (nHeight ba) else Ret (Some pb))
           in case (ra, rb) of
                (Ret a, Ret b) \<Rightarrow> common_loop (nat (nHeight ba) + 1) H a b
              | (AssertFail, _) \<Rightarrow> AssertFail
              | (Ret _, AssertFail) \<Rightarrow> AssertFail
              | _ \<Rightarrow> UndefinedBehaviour)
      | _ \<Rightarrow> UndefinedBehaviour)"

section \<open>Work\<close>

text \<open>\<^const>\<open>None\<close> is the exception of a division by zero.\<close>

definition GetBlockProof :: "CBlockIndex \<Rightarrow> base_uint option" where
  "GetBlockProof block =
     (case SetCompact (nBits block) of (bnTarget, fNegative, fOverflow) \<Rightarrow>
        if fNegative \<or> fOverflow \<or> EqualTo bnTarget 0 then Some (base_uint_of 0)
        else map_option (\<lambda>q. bu_add q (base_uint_of 1))
          (bu_div (bu_not bnTarget) (bu_add bnTarget (base_uint_of 1))))"

definition GetBlockProofEquivalentTime ::
    "CBlockIndex \<Rightarrow> CBlockIndex \<Rightarrow> CBlockIndex \<Rightarrow> 64 word \<Rightarrow> int option" where
  "GetBlockProofEquivalentTime to from tip nPowTargetSpacing =
     (let gt = (CompareTo (nChainWork to) (nChainWork from) > 0);
          r = (if gt then bu_sub (nChainWork to) (nChainWork from)
               else bu_sub (nChainWork from) (nChainWork to));
          sign = (if gt then 1 else -1)
      in case GetBlockProof tip of
           None \<Rightarrow> None
         | Some proof_tip \<Rightarrow>
             map_option (\<lambda>r. if bu_bits r > 63 then sign * (2 ^ 63 - 1) else sign * uint (GetLow64 r))
               (bu_div (bu_mul r (base_uint_of nPowTargetSpacing)) proof_tip))"

end
