(* ===== verification/ChainProps.thy ===== *)
theory ChainProps
  imports Chain "HOL-Library.Multiset"
begin

text \<open>
  Theorems on the block index and the active chain: the skip list walk finds the ancestor that going
  back one by one finds, the vector of the active chain is the path to its tip, forks are found, and
  the median time and the work of a block have their meaning.
\<close>

section \<open>The tree of blocks\<close>

text \<open>The entry \<open>n\<close> steps back from an entry.\<close>

fun steps_back :: "index \<Rightarrow> nat \<Rightarrow> addr \<Rightarrow> addr option" where
  "steps_back H 0 a = Some a"
| "steps_back H (Suc n) a =
     (case H a of None \<Rightarrow> None
      | Some b \<Rightarrow> (case pprev b of None \<Rightarrow> None | Some p \<Rightarrow> steps_back H n p))"

text \<open>An entry without predecessor is at height 0, one with a predecessor is one above it, and a skip
  pointer leads to the ancestor at the skip height.\<close>

definition wf_entry :: "index \<Rightarrow> addr \<Rightarrow> CBlockIndex \<Rightarrow> bool" where
  "wf_entry H a b \<longleftrightarrow>
     (case pprev b of
        None \<Rightarrow> nHeight b = 0
      | Some p \<Rightarrow> (case H p of None \<Rightarrow> False | Some pb \<Rightarrow> 0 \<le> nHeight pb \<and> nHeight b = nHeight pb + 1)) \<and>
     (case pskip b of
        None \<Rightarrow> True
      | Some s \<Rightarrow> 0 < nHeight b \<and> steps_back H (nat (nHeight b - GetSkipHeight (nHeight b))) a = Some s)"

definition wf_index :: "index \<Rightarrow> bool" where
  "wf_index H \<longleftrightarrow> (\<forall>a b. H a = Some b \<longrightarrow> wf_entry H a b)"

lemma wf_indexD: "wf_index H \<Longrightarrow> H a = Some b \<Longrightarrow> wf_entry H a b"
  by (simp add: wf_index_def)

lemma wf_height: "wf_index H \<Longrightarrow> H a = Some b \<Longrightarrow> 0 \<le> nHeight b"
  by (drule (1) wf_indexD) (auto simp: wf_entry_def split: option.splits)

lemma wf_prev:
  assumes "wf_index H" and "H a = Some b" and "0 < nHeight b"
  obtains p pb where "pprev b = Some p" and "H p = Some pb" and "nHeight b = nHeight pb + 1"
  using wf_indexD [OF assms(1,2)] assms(3) that by (auto simp: wf_entry_def split: option.splits)

lemma wf_genesis: "wf_index H \<Longrightarrow> H a = Some b \<Longrightarrow> nHeight b = 0 \<Longrightarrow> pprev b = None"
  by (drule (1) wf_indexD) (auto simp: wf_entry_def split: option.splits)

lemma wf_pprev_Some:
  "wf_index H \<Longrightarrow> H a = Some b \<Longrightarrow> pprev b = Some p \<Longrightarrow>
    \<exists>pb. H p = Some pb \<and> nHeight b = nHeight pb + 1"
  by (drule (1) wf_indexD) (auto simp: wf_entry_def split: option.splits)

lemma wf_skip:
  "wf_index H \<Longrightarrow> H a = Some b \<Longrightarrow> pskip b = Some s \<Longrightarrow>
    steps_back H (nat (nHeight b - GetSkipHeight (nHeight b))) a = Some s"
  by (drule (1) wf_indexD) (auto simp: wf_entry_def split: option.splits)

lemma steps_back_add: "steps_back H (m + n) a = Option.bind (steps_back H m a) (steps_back H n)"
  by (induction H m a rule: steps_back.induct) (auto split: option.splits)

lemma back_height:
  assumes "wf_index H"
  shows "H a = Some b \<Longrightarrow> int n \<le> nHeight b \<Longrightarrow>
    \<exists>c bc. steps_back H n a = Some c \<and> H c = Some bc \<and> nHeight bc = nHeight b - int n"
proof (induction n arbitrary: a b)
  case (Suc n)
  obtain p pb where p: "pprev b = Some p" "H p = Some pb" "nHeight b = nHeight pb + 1"
    using Suc.prems assms by (elim wf_prev) auto
  then have "int n \<le> nHeight pb" using Suc.prems(2) by simp
  from Suc.IH [OF p(2) this] Suc.prems(1) p show ?case by simp
qed simp

lemma back_None:
  assumes "wf_index H"
  shows "H a = Some b \<Longrightarrow> nHeight b < int n \<Longrightarrow> steps_back H n a = None"
proof (induction n arbitrary: a b)
  case 0
  then show ?case using wf_height [OF assms] by fastforce
next
  case (Suc n)
  then show ?case using wf_pprev_Some [OF assms Suc.prems(1)] Suc.IH by (fastforce split: option.splits)
qed

section \<open>The skip list walk\<close>

lemma ancestor_loop_back:
  assumes wf: "wf_index H"
  shows "H a = Some b \<Longrightarrow> 0 \<le> height \<Longrightarrow> height \<le> nHeight b \<Longrightarrow>
    ancestor_loop H a (nHeight b) height = Ret (steps_back H (nat (nHeight b - height)) a)"
proof (induction "nat (nHeight b)" arbitrary: a b rule: less_induct)
  case less
  show ?case
  proof (cases "nHeight b = height")
    case False
    then have gt: "nHeight b > height" and pos: "0 < nHeight b" using less.prems by simp_all
    obtain p pb where p: "pprev b = Some p" "H p = Some pb" "nHeight b = nHeight pb + 1"
      using wf less.prems(1) pos by (rule wf_prev)
    have prev: "ancestor_loop H p (nHeight b - 1) height = Ret (steps_back H (nat (nHeight b - height)) a)"
    proof -
      have "ancestor_loop H p (nHeight pb) height = Ret (steps_back H (nat (nHeight pb - height)) p)"
        using p gt less.prems(2) by (intro less.hyps) auto
      moreover have "nat (nHeight b - height) = Suc (nat (nHeight pb - height))" using p(3) gt by simp
      ultimately show ?thesis using p less.prems(1) by simp
    qed
    have skip: "ancestor_loop H s (GetSkipHeight (nHeight b)) height = Ret (steps_back H (nat (nHeight b - height)) a)"
      if s: "pskip b = Some s" and f: "follow_skip (nHeight b) height" for s
    proof -
      let ?h = "GetSkipHeight (nHeight b)"
      have h: "0 \<le> ?h" "?h < nHeight b" using GetSkipHeight_bounds [OF pos] by simp_all
      have le: "height \<le> ?h" using f by (auto simp: follow_skip_def Let_def)
      have step: "steps_back H (nat (nHeight b - ?h)) a = Some s" by (rule wf_skip) fact+
      moreover have "int (nat (nHeight b - ?h)) \<le> nHeight b" using h by simp
      ultimately obtain bs where bs: "H s = Some bs" "nHeight bs = ?h"
        using back_height [OF wf less.prems(1)] h by fastforce
      have "ancestor_loop H s (nHeight bs) height = Ret (steps_back H (nat (nHeight bs - height)) s)"
        using bs h le less.prems(2) by (intro less.hyps) auto
      moreover have "nat (nHeight b - height) = nat (nHeight b - ?h) + nat (?h - height)" using h le by simp
      ultimately show ?thesis using step bs(2) by (simp add: steps_back_add)
    qed
    show ?thesis
      using gt less.prems prev skip p(1)
      by (subst ancestor_loop.simps) (auto split: option.splits)
  qed (simp add: ancestor_loop.simps)
qed

lemma GetAncestor_back:
  assumes "wf_index H" and "H a = Some b"
  shows "GetAncestor H a height =
    Ret (if 0 \<le> height \<and> height \<le> nHeight b then steps_back H (nat (nHeight b - height)) a else None)"
  using assms ancestor_loop_back [OF assms] by (auto simp: GetAncestor_def)

section \<open>The vector of the active chain\<close>

text \<open>The path from the root to the entry \<open>a\<close> at height \<open>n\<close>.\<close>

fun path :: "index \<Rightarrow> nat \<Rightarrow> addr \<Rightarrow> CChain" where
  "path H 0 a = [Some a]"
| "path H (Suc n) a =
     (case H a of None \<Rightarrow> []
      | Some b \<Rightarrow> (case pprev b of None \<Rightarrow> [] | Some p \<Rightarrow> path H n p @ [Some a]))"

definition chain_ok :: "index \<Rightarrow> CChain \<Rightarrow> bool" where
  "chain_ok H vChain \<longleftrightarrow> vChain = [] \<or>
     (case Tip vChain of
        None \<Rightarrow> False
      | Some a \<Rightarrow> (case H a of None \<Rightarrow> False | Some b \<Rightarrow> vChain = path H (nat (nHeight b)) a))"

lemma path_height:
  assumes "wf_index H"
  shows "H a = Some b \<Longrightarrow> nHeight b = int n \<Longrightarrow>
    length (path H n a) = Suc n \<and> (\<forall>i \<le> n. path H n a ! i = steps_back H (n - i) a)"
proof (induction n arbitrary: a b)
  case (Suc n)
  obtain p pb where p: "pprev b = Some p" "H p = Some pb" "nHeight b = nHeight pb + 1"
    using Suc.prems assms by (elim wf_prev) auto
  then have IH: "length (path H n p) = Suc n" "\<forall>i \<le> n. path H n p ! i = steps_back H (n - i) p"
    using Suc.IH [of p pb] Suc.prems(2) by simp_all
  have "path H (Suc n) a ! i = steps_back H (Suc n - i) a" if "i \<le> Suc n" for i
    using that IH p Suc.prems(1) by (cases "i = Suc n") (auto simp: nth_append Suc_diff_le)
  then show ?case using IH p Suc.prems(1) by simp
qed simp

lemma path_prefix:
  assumes "wf_index H"
  shows "H a = Some b \<Longrightarrow> nHeight b = int n \<Longrightarrow> i \<le> n \<Longrightarrow> path H n a ! i = Some x \<Longrightarrow>
    take (Suc i) (path H n a) = path H i x"
proof (induction n arbitrary: a b)
  case (Suc n)
  obtain p pb where p: "pprev b = Some p" "H p = Some pb" "nHeight b = nHeight pb + 1"
    using Suc.prems assms by (elim wf_prev) auto
  have len: "length (path H n p) = Suc n" using path_height [OF assms p(2)] p(3) Suc.prems(2) by simp
  show ?case
  proof (cases "i = Suc n")
    case True
    then show ?thesis using Suc.prems p len by (simp add: nth_append)
  next
    case False
    then show ?thesis using Suc.prems p len Suc.IH [of p pb] by (simp add: nth_append)
  qed
qed simp

lemma path_Suc: "H a = Some b \<Longrightarrow> pprev b = Some p \<Longrightarrow> path H (Suc n) a = path H n p @ [Some a]"
  by simp

lemma Tip_path:
  assumes "wf_index H" and "H a = Some b" and "nHeight b = int n"
  shows "Tip (path H n a) = Some a" and "chain_ok H (path H n a)"
proof -
  show "Tip (path H n a) = Some a"
    using path_height [OF assms] by (simp add: Tip_def)
  then show "chain_ok H (path H n a)" using assms(2,3) by (simp add: chain_ok_def)
qed

lemma chain_ok_cases:
  assumes "chain_ok H vChain" and "wf_index H"
  obtains "vChain = []"
  | a b n where "H a = Some b" and "nHeight b = int n" and "vChain = path H n a" and "Tip vChain = Some a"
proof (cases "vChain = []")
  case False
  with assms(1) obtain a b where a: "Tip vChain = Some a" "H a = Some b" "vChain = path H (nat (nHeight b)) a"
    by (auto simp: chain_ok_def split: option.splits)
  then show ?thesis using wf_height [OF assms(2) a(2)] by (intro that(2)) auto
qed (rule that)

lemma chain_ok_prefix:
  assumes "chain_ok H v" and "wf_index H" and "i < length v" and "v ! i = Some x"
  shows "take (Suc i) v = path H i x"
proof -
  obtain a b n where a: "H a = Some b" "nHeight b = int n" "v = path H n a"
    using assms by (elim chain_ok_cases) auto
  then have "i \<le> n" using assms(3) path_height [OF assms(2) a(1,2)] by simp
  then show ?thesis using path_prefix [OF assms(2) a(1,2)] a(3) assms(4) by simp
qed

lemma set_tip_loop_path:
  assumes wf: "wf_index H" and old: "chain_ok H old"
  shows "H x = Some b \<Longrightarrow> nHeight b = int n \<Longrightarrow> n < length v \<Longrightarrow> n < fuel \<Longrightarrow>
    (\<forall>i \<le> n. v ! i = (if i < length old then old ! i else None)) \<Longrightarrow>
    set_tip_loop fuel H v (Some x) = Ret (path H n x @ drop (Suc n) v)"
proof (induction n arbitrary: x b v fuel)
  case 0
  have "pprev b = None" using wf_genesis [OF wf "0.prems"(1)] "0.prems"(2) by simp
  then show ?case using 0 by (cases v; cases fuel) auto
next
  case (Suc n)
  obtain f where f: "fuel = Suc f" using Suc.prems(4) by (cases fuel) auto
  obtain p pb where p: "pprev b = Some p" "H p = Some pb" "nHeight b = nHeight pb + 1"
    using Suc.prems wf by (elim wf_prev) auto
  have h: "nat (nHeight b) = Suc n" "\<not> nHeight b < 0" "\<not> int (length v) \<le> nHeight b"
    using Suc.prems(2,3) by simp_all
  show ?case
  proof (cases "v ! Suc n = Some x")
    case True
    then have lt: "Suc n < length old" and x: "old ! Suc n = Some x" using Suc.prems(5) by (auto split: if_splits)
    have "take (Suc (Suc n)) old = path H (Suc n) x" by (rule chain_ok_prefix) fact+
    moreover have "take (Suc (Suc n)) v = take (Suc (Suc n)) old"
      using Suc.prems(3,5) lt by (intro nth_equalityI) auto
    ultimately have "path H (Suc n) x @ drop (Suc (Suc n)) v = v" by (metis append_take_drop_id)
    moreover have "set_tip_loop fuel H v (Some x) = Ret v" using Suc.prems(1) h True by simp
    ultimately show ?thesis by (simp only:)
  next
    case False
    let ?v = "v[Suc n := Some x]"
    have "set_tip_loop f H ?v (Some p) = Ret (path H n p @ drop (Suc n) ?v)"
      using Suc.prems p f by (intro Suc.IH [of p pb]) auto
    moreover have "drop (Suc n) ?v = Some x # drop (Suc (Suc n)) v"
      using Suc.prems(3) by (simp add: drop_update_swap Cons_nth_drop_Suc [symmetric])
    moreover have "set_tip_loop fuel H v (Some x) = set_tip_loop f H ?v (Some p)"
      using Suc.prems(1) h False f p(1) by simp
    ultimately show ?thesis using Suc.prems(1) p(1) by simp
  qed
qed

lemma SetTip_path:
  assumes wf: "wf_index H" and old: "chain_ok H v" and a: "H a = Some b"
  shows "SetTip H v (Some a) = Ret (path H (nat (nHeight b)) a)"
proof -
  let ?n = "nat (nHeight b)"
  let ?v = "resize (nat (nHeight b + 1)) v"
  have n: "nHeight b = int ?n" using wf_height [OF wf a] by simp
  have e: "nat (nHeight b + 1) = Suc ?n" using wf_height [OF wf a] by (simp add: nat_add_distrib)
  then have len: "length ?v = Suc ?n" by (simp add: resize_def)
  have nth: "?v ! i = (if i < length v then v ! i else None)" if "i < Suc ?n" for i
    using that unfolding e by (simp add: resize_def nth_append)
  have "set_tip_loop (length ?v) H ?v (Some a) = Ret (path H ?n a @ drop (Suc ?n) ?v)"
    using a n
  proof (rule set_tip_loop_path [OF wf old])
    show "\<forall>i \<le> ?n. ?v ! i = (if i < length v then v ! i else None)" using nth by (simp add: less_Suc_eq_le)
  qed (simp_all add: len)
  then show ?thesis using a len by (simp add: SetTip_def Let_def del: set_tip_loop.simps)
qed

section \<open>Forks\<close>

text \<open>\<open>c\<close> is the ancestor of \<open>a\<close> at height \<open>h\<close>, and an entry of the chain.\<close>

definition shared :: "index \<Rightarrow> CChain \<Rightarrow> addr \<Rightarrow> int \<Rightarrow> addr \<Rightarrow> bool" where
  "shared H vChain a h c \<longleftrightarrow> GetAncestor H a h = Ret (Some c) \<and> chain_at vChain h = Some c"

lemma GetAncestor_self:
  "wf_index H \<Longrightarrow> H a = Some b \<Longrightarrow> GetAncestor H a (nHeight b) = Ret (Some a)"
  by (simp add: GetAncestor_back wf_height)

lemma GetAncestor_above:
  "wf_index H \<Longrightarrow> H a = Some b \<Longrightarrow> nHeight b < h \<Longrightarrow> GetAncestor H a h = Ret None"
  by (simp add: GetAncestor_back)

lemma GetAncestor_prev:
  assumes "wf_index H" and "H a = Some b" and "pprev b = Some p" and "h < nHeight b"
  shows "GetAncestor H a h = GetAncestor H p h"
proof -
  obtain pb where pb: "H p = Some pb" "nHeight b = nHeight pb + 1"
    using wf_pprev_Some [OF assms(1-3)] by blast
  have "nat (nHeight b - h) = Suc (nat (nHeight pb - h))" using assms(4) pb(2) by simp
  then show ?thesis using assms pb by (simp add: GetAncestor_back)
qed

lemma GetAncestor_Some:
  assumes "wf_index H" and "H a = Some b" and "GetAncestor H a h = Ret (Some c)"
  shows "\<exists>bc. H c = Some bc \<and> nHeight bc = h \<and> 0 \<le> h \<and> h \<le> nHeight b"
proof -
  have h: "0 \<le> h" "h \<le> nHeight b" "steps_back H (nat (nHeight b - h)) a = Some c"
    using assms(3) GetAncestor_back [OF assms(1,2)] by (auto split: if_splits)
  then show ?thesis using back_height [OF assms(1,2), of "nat (nHeight b - h)"] by auto
qed

lemma GetAncestor_trans:
  assumes "wf_index H" and "H a = Some b" and "GetAncestor H a h = Ret (Some c)" and "h' \<le> h"
  shows "GetAncestor H a h' = GetAncestor H c h'"
proof -
  obtain bc where c: "H c = Some bc" "nHeight bc = h" "0 \<le> h" "h \<le> nHeight b"
    using GetAncestor_Some [OF assms(1-3)] by blast
  have "steps_back H (nat (nHeight b - h)) a = Some c"
    using assms(3) c GetAncestor_back [OF assms(1,2)] by simp
  moreover have "nat (nHeight b - h') = nat (nHeight b - h) + nat (h - h')" using c assms(4) by simp
  ultimately show ?thesis using c assms by (simp add: GetAncestor_back steps_back_add)
qed

text \<open>The result of a fork search: the highest shared entry, or none.\<close>

definition highest_shared :: "index \<Rightarrow> CChain \<Rightarrow> addr \<Rightarrow> addr option \<Rightarrow> bool" where
  "highest_shared H vChain a r \<longleftrightarrow>
     (case r of
        None \<Rightarrow> \<forall>h c. \<not> shared H vChain a h c
      | Some c \<Rightarrow> \<exists>h. shared H vChain a h c \<and> (\<forall>h' c'. shared H vChain a h' c' \<longrightarrow> h' \<le> h))"

lemma fork_loop_shared:
  assumes wf: "wf_index H"
  shows "H a = Some b \<Longrightarrow> nHeight b < int fuel \<Longrightarrow>
    \<exists>r. fork_loop fuel H v (Some a) = Ret r \<and> highest_shared H v a r"
proof (induction fuel arbitrary: a b)
  case 0
  then show ?case using wf_height [OF wf] by fastforce
next
  case (Suc fuel)
  show ?case
  proof (cases "Contains v b a")
    case True
    then have "shared H v a (nHeight b) a"
      using Suc.prems(1) wf by (simp add: shared_def Contains_def GetAncestor_self)
    moreover have "h' \<le> nHeight b" if "shared H v a h' c'" for h' c'
      using that GetAncestor_Some [OF wf Suc.prems(1)] by (auto simp: shared_def)
    ultimately show ?thesis using True Suc.prems(1) by (auto simp: highest_shared_def)
  next
    case False
    then have not_top: "\<not> shared H v a (nHeight b) c" for c
      using Suc.prems(1) wf by (auto simp: shared_def Contains_def GetAncestor_self)
    show ?thesis
    proof (cases "pprev b")
      case None
      then have "nHeight b = 0" using wf_prev [OF wf Suc.prems(1)] wf_height [OF wf Suc.prems(1)] by fastforce
      then have "\<not> shared H v a h c" for h c
        using not_top [of c] GetAncestor_Some [OF wf Suc.prems(1), of h c] by (cases "h = 0") (auto simp: shared_def)
      then show ?thesis using False Suc.prems(1) None by (auto simp: highest_shared_def)
    next
      case (Some p)
      obtain pb where pb: "H p = Some pb" "nHeight b = nHeight pb + 1"
        using wf_pprev_Some [OF wf Suc.prems(1) Some] by blast
      then obtain r where r: "fork_loop fuel H v (Some p) = Ret r" "highest_shared H v p r"
        using Suc.IH [of p pb] Suc.prems(2) by auto
      have "shared H v a h c \<longleftrightarrow> shared H v p h c" for h c
      proof (cases "h < nHeight b")
        case True
        then show ?thesis using GetAncestor_prev [OF wf Suc.prems(1) Some] by (simp add: shared_def)
      next
        case F: False
        then have "\<not> shared H v a h c" using not_top [of c] GetAncestor_above [OF wf Suc.prems(1), of h]
          by (cases "h = nHeight b") (auto simp: shared_def)
        moreover have "\<not> shared H v p h c" using F pb GetAncestor_above [OF wf pb(1), of h] by (simp add: shared_def)
        ultimately show ?thesis by simp
      qed
      then have "highest_shared H v a r" using r(2) by (simp add: highest_shared_def cong: option.case_cong)
      then show ?thesis using r(1) False Suc.prems(1) Some by auto
    qed
  qed
qed


lemma shared_ancestor:
  assumes "wf_index H" and "H a = Some b" and "GetAncestor H a h = Ret (Some c)" and "Height v \<le> h"
  shows "shared H v a h' x \<longleftrightarrow> shared H v c h' x"
proof (cases "h' \<le> h")
  case True
  then show ?thesis using GetAncestor_trans [OF assms(1-3)] by (simp add: shared_def)
next
  case False
  then have "chain_at v h' = None" using assms(4) by (simp add: chain_at_def Height_def)
  then show ?thesis by (simp add: shared_def)
qed

lemma FindFork_highest:
  assumes wf: "wf_index H" and a: "H a = Some b"
  shows "\<exists>r. FindFork H v (Some a) = Ret r \<and> highest_shared H v a r"
proof (cases "nHeight b > Height v")
  case False
  then show ?thesis using fork_loop_shared [OF assms, of "nat (nHeight b) + 1" v] a
    by (simp add: FindFork_def del: fork_loop.simps)
next
  case True
  show ?thesis
  proof (cases "Height v < 0")
    case neg: True
    then have "v = []" by (simp add: Height_def)
    then show ?thesis using neg a True wf
      by (auto simp: FindFork_def GetAncestor_back highest_shared_def shared_def chain_at_def)
  next
    case False
    then obtain c bc where c: "GetAncestor H a (Height v) = Ret (Some c)" "H c = Some bc" "nHeight bc = Height v"
      using back_height [OF assms, of "nat (nHeight b - Height v)"] True by (auto simp: GetAncestor_back [OF assms])
    moreover have "nHeight bc < int (nat (nHeight b) + 1)" using c(3) True by simp
    ultimately obtain r where "fork_loop (nat (nHeight b) + 1) H v (Some c) = Ret r" "highest_shared H v c r"
      using fork_loop_shared [OF wf c(2)] by blast
    moreover have "highest_shared H v a r \<longleftrightarrow> highest_shared H v c r"
      using shared_ancestor [OF assms c(1), of v] by (simp add: highest_shared_def cong: option.case_cong)
    ultimately show ?thesis using a True c(1) by (auto simp: FindFork_def simp del: fork_loop.simps)
  qed
qed

section \<open>Median time\<close>

text \<open>The times read are those of the entry and its ancestors, as many as there are.\<close>

lemma past_times_back:
  assumes wf: "wf_index H"
  shows "H a = Some b \<Longrightarrow> \<exists>ts. past_times H n (Some a) = Ret ts \<and> length ts = min n (nat (nHeight b) + 1) \<and>
    (\<forall>i < length ts. map_option GetBlockTime (Option.bind (steps_back H i a) H) = Some (ts ! i))"
proof (induction n arbitrary: a b)
  case (Suc n)
  show ?case
  proof (cases "pprev b")
    case None
    then have "nHeight b = 0" using wf_prev [OF wf Suc.prems] wf_height [OF wf Suc.prems] by fastforce
    then show ?thesis using Suc.prems None by (cases n) auto
  next
    case (Some p)
    obtain pb where pb: "H p = Some pb" "nHeight b = nHeight pb + 1"
      using wf_pprev_Some [OF wf Suc.prems Some] by blast
    obtain ts where ts: "past_times H n (Some p) = Ret ts" "length ts = min n (nat (nHeight pb) + 1)"
      "\<forall>i < length ts. map_option GetBlockTime (Option.bind (steps_back H i p) H) = Some (ts ! i)"
      using Suc.IH [OF pb(1)] by blast
    have "nat (nHeight b) = Suc (nat (nHeight pb))" using pb(2) wf_height [OF wf pb(1)] by simp
    moreover have "map_option GetBlockTime (Option.bind (steps_back H i a) H) = Some ((GetBlockTime b # ts) ! i)"
      if "i < length (GetBlockTime b # ts)" for i
      using that ts(3) Suc.prems Some by (cases i) auto
    ultimately show ?thesis using ts(1,2) Suc.prems Some by auto
  qed
qed simp

lemma sorted_below:
  assumes "sorted xs" and "i < length xs"
  shows "length (filter (\<lambda>x. x < xs ! i) xs) \<le> i"
proof -
  have "filter (\<lambda>x. x < xs ! i) (drop i xs) = []"
    using assms by (auto simp: filter_empty_conv in_set_conv_nth not_less sorted_iff_nth_mono)
  then have "filter (\<lambda>x. x < xs ! i) xs = filter (\<lambda>x. x < xs ! i) (take i xs)"
    by (metis append_Nil2 append_take_drop_id filter_append)
  also have "length \<dots> \<le> length (take i xs)" by (rule length_filter_le)
  finally show ?thesis using assms(2) by simp
qed

lemma sorted_above:
  assumes "sorted xs" and "i < length xs"
  shows "length (filter (\<lambda>x. xs ! i < x) xs) \<le> length xs - Suc i"
proof -
  have "filter (\<lambda>x. xs ! i < x) (take (Suc i) xs) = []"
    using assms by (auto simp: filter_empty_conv in_set_conv_nth not_less sorted_iff_nth_mono)
  then have "filter (\<lambda>x. xs ! i < x) xs = filter (\<lambda>x. xs ! i < x) (drop (Suc i) xs)"
    by (metis append_Nil append_take_drop_id filter_append)
  also have "length \<dots> \<le> length (drop (Suc i) xs)" by (rule length_filter_le)
  finally show ?thesis by simp
qed

lemma median_split:
  fixes ts :: "int list"
  assumes "ts \<noteq> []"
  defines "m \<equiv> sort (rev ts) ! (length ts div 2)"
  shows "m \<in> set ts" and "2 * length (filter (\<lambda>t. t < m) ts) \<le> length ts"
    and "2 * length (filter (\<lambda>t. m < t) ts) \<le> length ts"
proof -
  let ?s = "sort (rev ts)"
  have i: "length ts div 2 < length ?s" using assms(1) by (cases ts) auto
  then have "m \<in> set ?s" unfolding m_def by (rule nth_mem)
  then show "m \<in> set ts" by simp
  have eq: "length (filter P ts) = length (filter P ?s)" for P
    by (metis mset_filter mset_rev mset_sort size_mset)
  have s: "sorted ?s" by simp
  show "2 * length (filter (\<lambda>t. t < m) ts) \<le> length ts"
    unfolding eq using sorted_below [OF s i] unfolding m_def by simp
  show "2 * length (filter (\<lambda>t. m < t) ts) \<le> length ts"
    unfolding eq using sorted_above [OF s i] unfolding m_def by simp
qed

section \<open>A sample index\<close>

text \<open>A root, two entries above it, and a fork at height one.\<close>

definition sample_entry :: "int \<Rightarrow> addr option \<Rightarrow> addr option \<Rightarrow> CBlockIndex" where
  "sample_entry h p s = BlockIndex_null\<lparr>nHeight := h, pprev := p, pskip := s, nTime := of_int (10 + h)\<rparr>"

definition sample_index :: index where
  "sample_index = [[0] \<mapsto> sample_entry 0 None None, [1] \<mapsto> sample_entry 1 (Some [0]) (Some [0]),
     [2] \<mapsto> sample_entry 2 (Some [1]) (Some [0]), [3] \<mapsto> sample_entry 1 (Some [0]) (Some [0])]"

lemma sample_entry_simps [simp]:
  "nHeight (sample_entry h p s) = h" "pprev (sample_entry h p s) = p" "pskip (sample_entry h p s) = s"
  "GetBlockTime (sample_entry h p s) = uint (of_int (10 + h) :: 32 word)"
  by (simp_all add: sample_entry_def GetBlockTime_def)

lemma sample_index_simps [simp]:
  "sample_index [0] = Some (sample_entry 0 None None)"
  "sample_index [1] = Some (sample_entry 1 (Some [0]) (Some [0]))"
  "sample_index [2] = Some (sample_entry 2 (Some [1]) (Some [0]))"
  "sample_index [3] = Some (sample_entry 1 (Some [0]) (Some [0]))"
  by (simp_all add: sample_index_def)

lemma wf_sample_index [simp]: "wf_index sample_index"
  unfolding wf_index_def
proof (intro allI impI)
  fix a b assume "sample_index a = Some b"
  then consider "a = [0] \<and> b = sample_entry 0 None None" | "a = [1] \<and> b = sample_entry 1 (Some [0]) (Some [0])"
    | "a = [2] \<and> b = sample_entry 2 (Some [1]) (Some [0])" | "a = [3] \<and> b = sample_entry 1 (Some [0]) (Some [0])"
    by (auto simp: sample_index_def split: if_splits)
  then show "wf_entry sample_index a b"
    by cases (auto simp: wf_entry_def GetSkipHeight_def InvertLowestOne_def numeral_2_eq_2)
qed

section \<open>Properties\<close>

text \<open>C15: The skip list walk of \<^const>\<open>GetAncestor\<close> on a well-formed index returns the entry found by going
  back one predecessor at a time, and null for a height that is negative or above the entry; it
  neither fails its assertion nor follows a dangling pointer.\<close>

theorem ancestor_walk:
  assumes "wf_index H" and "H a = Some b"
  shows "GetAncestor H a height =
    Ret (if 0 \<le> height \<and> height \<le> nHeight b then steps_back H (nat (nHeight b - height)) a else None)"
  using assms by (rule GetAncestor_back)

theorem ancestor_walk_witness: "GetAncestor sample_index [2] 0 = Ret (Some [0])"
  using ancestor_walk [of sample_index "[2]" "sample_entry 2 (Some [1]) (Some [0])" 0]
  by (simp add: numeral_2_eq_2)

text \<open>C16: \<^const>\<open>SetTip\<close> moves the active chain to any entry of the index, whatever branch it was on.  The
  result is the path to that entry, although only the part that differs is written: at every height
  it has the ancestor of the new tip, and null beyond.\<close>

theorem set_tip_chain:
  assumes "wf_index H" and "chain_ok H vChain" and "H a = Some b"
  shows "\<exists>v. SetTip H vChain (Some a) = Ret v \<and> chain_ok H v \<and> Tip v = Some a \<and> Height v = nHeight b \<and>
    (\<forall>h. Ret (chain_at v h) = GetAncestor H a h)"
proof -
  let ?n = "nat (nHeight b)"
  have n: "nHeight b = int ?n" using wf_height [OF assms(1,3)] by simp
  note p = path_height [OF assms(1,3) n]
  have "chain_at (path H ?n a) h =
      (if 0 \<le> h \<and> h \<le> nHeight b then steps_back H (nat (nHeight b - h)) a else None)" for h
  proof (cases "0 \<le> h \<and> h \<le> nHeight b")
    case True
    then have "nat h \<le> ?n" and "?n - nat h = nat (nHeight b - h)" by linarith+
    with p True show ?thesis by (simp add: chain_at_def)
  next
    case False
    then show ?thesis using p n by (auto simp: chain_at_def)
  qed
  then have "\<forall>h. Ret (chain_at (path H ?n a) h) = GetAncestor H a h" by (simp add: GetAncestor_back [OF assms(1,3)])
  moreover have "Height (path H ?n a) = nHeight b" using p n by (simp add: Height_def)
  ultimately show ?thesis
    using SetTip_path [OF assms] Tip_path [OF assms(1,3) n] by blast
qed

theorem set_tip_chain_witness:
  "\<exists>v. SetTip sample_index [Some [0], Some [3]] (Some [2]) = Ret v \<and> Tip v = Some [2] \<and> chain_at v 0 = Some [0]"
proof -
  have "chain_ok sample_index [Some [0], Some [3]]" by (simp add: chain_ok_def Tip_def)
  from set_tip_chain [OF wf_sample_index this, of "[2]" "sample_entry 2 (Some [1]) (Some [0])"]
  obtain v where v: "SetTip sample_index [Some [0], Some [3]] (Some [2]) = Ret v" "Tip v = Some [2]"
    "Ret (chain_at v 0) = GetAncestor sample_index [2] 0" by auto
  then show ?thesis by (simp add: GetAncestor_back [of _ "[2]" "sample_entry 2 (Some [1]) (Some [0])"] numeral_2_eq_2)
qed

text \<open>\<^const>\<open>FindFork\<close> returns the highest entry that the chain shares with the branch of the given
  entry, or null when they share none.\<close>

lemma find_fork_highest:
  assumes "wf_index H" and "H a = Some b"
  shows "\<exists>r. FindFork H vChain (Some a) = Ret r \<and> highest_shared H vChain a r"
  using assms by (rule FindFork_highest)

text \<open>The median time of an entry is the time of one of the last eleven blocks up to it, and at most half
  of them are earlier and at most half later, so a minority of miners cannot move it beyond the times
  of the others.\<close>

lemma median_time_past:
  assumes "wf_index H" and "H a = Some b"
  shows "\<exists>m ts. GetMedianTimePast H a = Ret m \<and> past_times H 11 (Some a) = Ret ts \<and>
    length ts = min 11 (nat (nHeight b) + 1) \<and> m \<in> set ts \<and>
    2 * length (filter (\<lambda>t. t < m) ts) \<le> length ts \<and> 2 * length (filter (\<lambda>t. m < t) ts) \<le> length ts"
proof -
  obtain ts where ts: "past_times H 11 (Some a) = Ret ts" "length ts = min 11 (nat (nHeight b) + 1)"
    using past_times_back [OF assms, of 11] by blast
  then have "ts \<noteq> []" by auto
  from median_split [OF this] ts show ?thesis by (simp add: GetMedianTimePast_def)
qed

end
