(* ===== verification/BlockTree.thy ===== *)
theory BlockTree
  imports ChainProps EvalProps
begin

text \<open>
  Growth of the block index: the work of a block (\<open>GetBlockProof\<close> of \<^verbatim>\<open>src/src/chain.cpp\<close>) and
  \<open>AddToBlockIndex\<close> of \<^verbatim>\<open>src/src/validation.cpp\<close>, with the invariant of the block manager it keeps.
\<close>

section \<open>The work of a block\<close>

lemma compact_not_max:
  assumes "SetCompact c = (t, neg, ovf)"
  shows "length t = WIDTH" and "limbs t + 1 < 2 ^ 256"
proof -
  let ?n = "unat c div 16777216" and ?m = "unat c mod 8388608"
  obtain r where r: "length r = WIDTH" "limbs r = compact_value ?n ?m mod 2 ^ 256" "t = r"
  proof (rule SetCompact_general [of c])
    fix r assume "length r = WIDTH" and "limbs r = compact_value ?n ?m mod 2 ^ 256"
      and "SetCompact c = (r, ((if ?n \<le> 3 then compact_value ?n ?m else ?m) \<noteq> 0 \<and>
          8388608 \<le> unat c mod 16777216), ((if ?n \<le> 3 then compact_value ?n ?m else ?m) \<noteq> 0 \<and>
          (34 < ?n \<or> 0xff < (if ?n \<le> 3 then compact_value ?n ?m else ?m) \<and> 33 < ?n \<or>
           0xffff < (if ?n \<le> 3 then compact_value ?n ?m else ?m) \<and> 32 < ?n)))"
    then show thesis using assms by (intro that [of r]) auto
  qed
  then show len: "length t = WIDTH" by simp
  show "limbs t + 1 < 2 ^ 256"
  proof (cases "?n \<le> 3")
    case True
    have "compact_value ?n ?m \<le> ?m" using True by (simp add: compact_value_def)
    also have "?m < 8388608" by simp
    finally have "compact_value ?n ?m < 8388608" .
    then show ?thesis using r by simp
  next
    case False
    then have "(256 :: nat) dvd 256 ^ (?n - 3)" by (intro dvd_power) simp
    then have "2 dvd compact_value ?n ?m" using False by (simp add: compact_value_def)
    then have "2 dvd limbs t" unfolding r(2,3) by (simp add: dvd_mod)
    moreover have "limbs t < 2 ^ 256" using len by (rule limbs_256)
    moreover have "limbs t \<noteq> 2 ^ 256 - 1"
    proof
      assume "limbs t = 2 ^ 256 - 1"
      with \<open>2 dvd limbs t\<close> have "2 dvd (2 ^ 256 - 1 :: nat)" by (simp only:)
      then show False by simp
    qed
    ultimately show ?thesis by linarith
  qed
qed

lemma GetBlockProof_limbs:
  assumes "SetCompact (nBits b) = (t, neg, ovf)"
  shows "\<exists>w. GetBlockProof b = Some w \<and> length w = WIDTH \<and>
    limbs w = (if neg \<or> ovf \<or> limbs t = 0 then 0 else 2 ^ 256 div (limbs t + 1))"
proof (cases "neg \<or> ovf \<or> limbs t = 0")
  case True
  then show ?thesis using assms compact_not_max(1) [OF assms]
    by (auto simp: GetBlockProof_def EqualTo_limbs limbs_base_uint_of)
next
  case False
  note t = compact_not_max [OF assms]
  let ?t1 = "bu_add t (base_uint_of 1)"
  have t1: "length ?t1 = WIDTH" "limbs ?t1 = limbs t + 1" using t by (simp_all add: limbs_bu_add limbs_base_uint_of)
  have "limbs (bu_not t) + limbs t + 1 = 2 ^ 256" using limbs_bu_not [of t] unfolding t(1) by simp
  then have nt: "length (bu_not t) = WIDTH" "limbs (bu_not t) = 2 ^ 256 - 1 - limbs t"
    using t(1) by (simp, linarith)
  have "limbs ?t1 \<noteq> 0" unfolding t1(2) by simp
  then have "bu_div (bu_not t) ?t1 \<noteq> None" by (simp only: bu_div_limbs(1) [OF nt(1) t1(1)] simp_thms)
  then obtain q where "bu_div (bu_not t) ?t1 = Some q" by auto
  with bu_div_limbs(2) [OF nt(1) t1(1)] have q: "bu_div (bu_not t) ?t1 = Some q" "length q = WIDTH"
    "limbs q = limbs (bu_not t) div limbs ?t1" by blast+
  have "(2 :: nat) ^ 256 = (2 ^ 256 - 1 - limbs t) + (limbs t + 1)" using t(2) by linarith
  moreover have "((2 ^ 256 - 1 - limbs t) + (limbs t + 1)) div (limbs t + 1) =
      (2 ^ 256 - 1 - limbs t) div (limbs t + 1) + 1"
    by (rule div_add_self2) simp
  ultimately have "2 ^ 256 div (limbs t + 1) = (2 ^ 256 - 1 - limbs t) div (limbs t + 1) + 1" by (simp only:)
  moreover have "2 ^ 256 div (limbs t + 1) < (2 :: nat) ^ 256" using False by (intro div_less_dividend) auto
  ultimately have "limbs q + 1 = 2 ^ 256 div (limbs t + 1)" and "limbs q + 1 < 2 ^ 256"
    unfolding q(3) nt(2) t1(2) by (simp_all only:)
  moreover from this(2) have "limbs (bu_add q (base_uint_of 1)) = limbs q + 1"
    using limbs_bu_add [OF q(2), of "base_uint_of 1"] by (simp add: limbs_base_uint_of)
  moreover have "GetBlockProof b = Some (bu_add q (base_uint_of 1))"
    using assms False q(1) t(1) by (simp add: GetBlockProof_def EqualTo_limbs)
  moreover have "length (bu_add q (base_uint_of 1)) = WIDTH" using q(2) by simp
  ultimately show ?thesis using False by (intro exI [of _ "bu_add q (base_uint_of 1)"]) (simp only: if_False simp_thms)
qed

section \<open>Adding a header to the index\<close>

record block_manager =
  mapBlockIndex :: index
  pindexBestHeader :: "addr option"
  setDirtyBlockIndex :: "addr set"

text \<open>The entry once it is linked to its predecessor: times, work and validity.  The exception of a
  division by zero in \<open>GetBlockProof\<close> and the assertion of \<open>RaiseValidity\<close> are \<open>AssertFail\<close>.\<close>

definition finish_entry :: "index \<Rightarrow> CBlockIndex \<Rightarrow> CBlockIndex outcome" where
  "finish_entry H b =
     (let prev = Option.bind (pprev b) H;
          b = b\<lparr>nTimeMax := (case prev of Some p \<Rightarrow> max (nTimeMax p) (nTime b) | None \<Rightarrow> nTime b)\<rparr>
      in case GetBlockProof b of
           None \<Rightarrow> AssertFail
         | Some w \<Rightarrow>
             (case RaiseValidity
                 (b\<lparr>nChainWork := bu_add (case prev of Some p \<Rightarrow> nChainWork p | None \<Rightarrow> base_uint_of 0) w\<rparr>)
                 BLOCK_VALID_TREE of
                None \<Rightarrow> AssertFail
              | Some (_, b) \<Rightarrow> Ret b))"

definition better_header :: "index \<Rightarrow> addr option \<Rightarrow> CBlockIndex \<Rightarrow> bool" where
  "better_header H best b =
     (case best of None \<Rightarrow> True
      | Some p \<Rightarrow> (case H p of None \<Rightarrow> False | Some pb \<Rightarrow> CompareTo (nChainWork pb) (nChainWork b) < 0))"

text \<open>The new entry in the map, linked to its predecessor when that one is known.\<close>

definition link_entry :: "index \<Rightarrow> addr \<Rightarrow> CBlockHeader \<Rightarrow> index outcome" where
  "link_entry H hash block =
     (let b = (BlockIndex_of block)\<lparr>nSequenceId := 0\<rparr>;
          H = H(hash \<mapsto> b)
      in case H (hashPrevBlock block) of
           None \<Rightarrow> Ret H
         | Some p \<Rightarrow>
             BuildSkip (H(hash \<mapsto> b\<lparr>pprev := Some (hashPrevBlock block), nHeight := nHeight p + 1\<rparr>)) hash)"

definition AddToBlockIndex :: "script_crypto \<Rightarrow> block_manager \<Rightarrow> CBlockHeader \<Rightarrow> (block_manager \<times> addr) outcome" where
  "AddToBlockIndex c st block =
     (let hash = GetHash c block
      in if mapBlockIndex st hash \<noteq> None then Ret (st, hash)
         else case link_entry (mapBlockIndex st) hash block of
           AssertFail \<Rightarrow> AssertFail
         | UndefinedBehaviour \<Rightarrow> UndefinedBehaviour
         | Ret H \<Rightarrow>
             (case H hash of
                None \<Rightarrow> UndefinedBehaviour
              | Some b \<Rightarrow>
                  (case finish_entry H b of
                     AssertFail \<Rightarrow> AssertFail
                   | UndefinedBehaviour \<Rightarrow> UndefinedBehaviour
                   | Ret b \<Rightarrow>
                       Ret (\<lparr>mapBlockIndex = H(hash \<mapsto> b),
                             pindexBestHeader = (if better_header H (pindexBestHeader st) b then Some hash
                               else pindexBestHeader st),
                             setDirtyBlockIndex = insert hash (setDirtyBlockIndex st)\<rparr>, hash))))"

section \<open>The tree stays well-formed\<close>

lemma steps_back_mono:
  assumes "\<And>x b. H x = Some b \<Longrightarrow> \<exists>b'. H' x = Some b' \<and> pprev b' = pprev b"
  shows "steps_back H n a = Some c \<Longrightarrow> steps_back H' n a = Some c"
proof (induction n arbitrary: a)
  case (Suc n)
  then obtain b p where b: "H a = Some b" "pprev b = Some p" "steps_back H n p = Some c"
    by (auto split: option.splits)
  with assms [of a b] Suc.IH [of p] show ?case by auto
qed simp

text \<open>An entry stays well-formed when the others keep their heights and predecessors.\<close>

lemma wf_entry_mono:
  assumes "wf_entry H x b"
    and same: "\<And>y c. H y = Some c \<Longrightarrow> \<exists>c'. H' y = Some c' \<and> pprev c' = pprev c \<and> nHeight c' = nHeight c"
  shows "wf_entry H' x b"
proof -
  have mono: "steps_back H n y = Some c \<Longrightarrow> steps_back H' n y = Some c" for n y c
    by (rule steps_back_mono [of H]) (auto dest: same)
  have "case pprev b of None \<Rightarrow> nHeight b = 0
      | Some p \<Rightarrow> (case H' p of None \<Rightarrow> False | Some pb \<Rightarrow> 0 \<le> nHeight pb \<and> nHeight b = nHeight pb + 1)"
  proof (cases "pprev b")
    case (Some p)
    then obtain pb where pb: "H p = Some pb" "0 \<le> nHeight pb" "nHeight b = nHeight pb + 1"
      using assms(1) by (auto simp: wf_entry_def split: option.splits)
    obtain pb' where "H' p = Some pb'" "nHeight pb' = nHeight pb" using same [OF pb(1)] by blast
    then show ?thesis using Some pb by simp
  qed (use assms(1) in \<open>simp add: wf_entry_def\<close>)
  moreover have "case pskip b of None \<Rightarrow> True
      | Some s \<Rightarrow> 0 < nHeight b \<and> steps_back H' (nat (nHeight b - GetSkipHeight (nHeight b))) x = Some s"
    using assms(1) mono by (cases "pskip b") (simp_all add: wf_entry_def)
  ultimately show ?thesis unfolding wf_entry_def by (rule conjI)
qed

text \<open>A new entry, without skip pointer, on top of an entry of the index or as a root.\<close>

lemma wf_index_new:
  assumes "wf_index H" and "H a = None" and "pskip b = None"
    and "case pprev b of None \<Rightarrow> nHeight b = 0
      | Some p \<Rightarrow> (case H p of None \<Rightarrow> False | Some pb \<Rightarrow> nHeight b = nHeight pb + 1)"
  shows "wf_index (H(a \<mapsto> b))"
  unfolding wf_index_def
proof (intro allI impI)
  fix x bx assume x: "(H(a \<mapsto> b)) x = Some bx"
  have keep: "\<exists>c'. (H(a \<mapsto> b)) y = Some c' \<and> pprev c' = pprev c \<and> nHeight c' = nHeight c" if "H y = Some c" for y c
    using that assms(2) by (cases "y = a") simp_all
  have "wf_entry H x bx"
  proof (cases "x = a")
    case True
    then have bx: "bx = b" using x by simp
    show ?thesis
    proof (cases "pprev b")
      case None
      then show ?thesis using assms(3,4) by (simp add: bx wf_entry_def)
    next
      case (Some p)
      then obtain pb where pb: "H p = Some pb" "nHeight b = nHeight pb + 1"
        using assms(4) by (auto split: option.splits)
      with Some assms(3) wf_height [OF assms(1) pb(1)] show ?thesis by (simp add: bx wf_entry_def)
    qed
  next
    case False
    then show ?thesis using x by (intro wf_indexD [OF assms(1)]) simp
  qed
  then show "wf_entry (H(a \<mapsto> b)) x bx" using keep by (rule wf_entry_mono)
qed

text \<open>An update of an entry that keeps its height and its predecessor.\<close>

lemma wf_index_update:
  assumes "wf_index H" and "H a = Some b" and "pprev b' = pprev b" and "nHeight b' = nHeight b"
    and "case pskip b' of None \<Rightarrow> True
      | Some s \<Rightarrow> 0 < nHeight b \<and> steps_back H (nat (nHeight b - GetSkipHeight (nHeight b))) a = Some s"
  shows "wf_index (H(a \<mapsto> b'))"
  unfolding wf_index_def
proof (intro allI impI)
  fix x bx assume x: "(H(a \<mapsto> b')) x = Some bx"
  have keep: "\<exists>c'. (H(a \<mapsto> b')) y = Some c' \<and> pprev c' = pprev c \<and> nHeight c' = nHeight c" if "H y = Some c" for y c
    using that assms(2-4) by (cases "y = a") simp_all
  have "wf_entry H x bx"
  proof (cases "x = a")
    case True
    have "wf_entry H a b" using assms(1,2) by (rule wf_indexD)
    then have "wf_entry H a b'" using assms(5) unfolding wf_entry_def assms(3,4) by (simp only: simp_thms)
    then show ?thesis using True x by simp
  next
    case False
    then show ?thesis using x by (intro wf_indexD [OF assms(1)]) simp
  qed
  then show "wf_entry (H(a \<mapsto> b')) x bx" using keep by (rule wf_entry_mono)
qed

lemma BuildSkip_wf:
  assumes "wf_index H" and "H a = Some b" and "pprev b = Some p" and "pskip b = None"
  shows "\<exists>s. BuildSkip H a = Ret (H(a \<mapsto> b\<lparr>pskip := s\<rparr>)) \<and> wf_index (H(a \<mapsto> b\<lparr>pskip := s\<rparr>))"
proof -
  let ?h = "GetSkipHeight (nHeight b)"
  obtain pb where pb: "H p = Some pb" "nHeight b = nHeight pb + 1"
    using wf_pprev_Some [OF assms(1-3)] by blast
  have pos: "0 < nHeight b" using pb wf_height [OF assms(1) pb(1)] by simp
  note h = GetSkipHeight_bounds [OF pos]
  have anc: "GetAncestor H p ?h = Ret (steps_back H (nat (nHeight pb - ?h)) p)"
    using GetAncestor_back [OF assms(1) pb(1)] h pb(2) by simp
  have "nat (nHeight b - ?h) = Suc (nat (nHeight pb - ?h))" using h pb(2) by linarith
  then have "steps_back H (nat (nHeight b - ?h)) a = steps_back H (nat (nHeight pb - ?h)) p"
    using assms(2,3) by simp
  then have "wf_index (H(a \<mapsto> b\<lparr>pskip := steps_back H (nat (nHeight pb - ?h)) p\<rparr>))"
    using assms pos by (intro wf_index_update) (auto split: option.splits)
  then show ?thesis using assms(2,3) anc by (auto simp: BuildSkip_def)
qed

section \<open>The invariant of the block manager\<close>

text \<open>Each entry accumulates the time and the work of its branch, and the best header has the most work.\<close>

definition wf_work :: "index \<Rightarrow> CBlockIndex \<Rightarrow> bool" where
  "wf_work H b \<longleftrightarrow>
     (let prev = Option.bind (pprev b) H
      in length (nChainWork b) = WIDTH \<and>
         nTimeMax b = (case prev of Some p \<Rightarrow> max (nTimeMax p) (nTime b) | None \<Rightarrow> nTime b) \<and>
         (case GetBlockProof b of None \<Rightarrow> False
          | Some w \<Rightarrow> limbs (nChainWork b) =
              ((case prev of Some p \<Rightarrow> limbs (nChainWork p) | None \<Rightarrow> 0) + limbs w) mod 2 ^ 256))"

definition wf_manager :: "block_manager \<Rightarrow> bool" where
  "wf_manager st \<longleftrightarrow> wf_index (mapBlockIndex st) \<and>
     (\<forall>a b. mapBlockIndex st a = Some b \<longrightarrow> wf_work (mapBlockIndex st) b) \<and>
     (case pindexBestHeader st of
        None \<Rightarrow> \<forall>a. mapBlockIndex st a = None
      | Some p \<Rightarrow> (case mapBlockIndex st p of None \<Rightarrow> False
          | Some pb \<Rightarrow> \<forall>a b. mapBlockIndex st a = Some b \<longrightarrow> limbs (nChainWork b) \<le> limbs (nChainWork pb))) \<and>
     (\<forall>a \<in> setDirtyBlockIndex st. mapBlockIndex st a \<noteq> None)"

lemma BlockIndex_of_simps [simp]:
  "pprev (BlockIndex_of block) = None" "pskip (BlockIndex_of block) = None" "nHeight (BlockIndex_of block) = 0"
  by (simp_all add: BlockIndex_of_def BlockIndex_null_def)

lemma link_entry_wf:
  assumes "wf_index H" and "H hash = None" and "hash \<noteq> hashPrevBlock block"
  shows "\<exists>b. link_entry H hash block = Ret (H(hash \<mapsto> b)) \<and> wf_index (H(hash \<mapsto> b)) \<and>
    (case pprev b of None \<Rightarrow> True | Some p \<Rightarrow> H p \<noteq> None)"
proof (cases "H (hashPrevBlock block)")
  case None
  let ?b = "(BlockIndex_of block)\<lparr>nSequenceId := 0\<rparr>"
  have "wf_index (H(hash \<mapsto> ?b))" using assms(1,2) by (rule wf_index_new) simp_all
  then show ?thesis using None assms(3) by (intro exI [of _ ?b]) (simp add: link_entry_def Let_def)
next
  case (Some p)
  let ?b = "(BlockIndex_of block)\<lparr>nSequenceId := 0, pprev := Some (hashPrevBlock block), nHeight := nHeight p + 1\<rparr>"
  have wf: "wf_index (H(hash \<mapsto> ?b))" using assms(1,2) by (rule wf_index_new) (simp_all add: Some)
  obtain s where s: "BuildSkip (H(hash \<mapsto> ?b)) hash = Ret (H(hash \<mapsto> ?b, hash \<mapsto> ?b\<lparr>pskip := s\<rparr>))"
    "wf_index (H(hash \<mapsto> ?b, hash \<mapsto> ?b\<lparr>pskip := s\<rparr>))"
    using BuildSkip_wf [OF wf, of hash ?b "hashPrevBlock block"] by auto
  then show ?thesis using Some assms(3)
    by (intro exI [of _ "?b\<lparr>pskip := s\<rparr>"]) (simp add: link_entry_def Let_def)
qed

lemma RaiseValidity_TREE:
  "\<exists>r b'. RaiseValidity b BLOCK_VALID_TREE = Some (r, b') \<and> b' = b\<lparr>nStatus := nStatus b'\<rparr>"
  by (auto simp: RaiseValidity_def)

lemma GetBlockProof_cong: "nBits b = nBits b' \<Longrightarrow> GetBlockProof b = GetBlockProof b'"
  by (simp add: GetBlockProof_def)

lemma finish_entry_work:
  assumes "\<And>p pb. pprev b = Some p \<Longrightarrow> H p = Some pb \<Longrightarrow> length (nChainWork pb) = WIDTH"
  shows "\<exists>b'. finish_entry H b = Ret b' \<and> pprev b' = pprev b \<and> pskip b' = pskip b \<and> nHeight b' = nHeight b \<and>
    wf_work H b'"
proof -
  let ?prev = "Option.bind (pprev b) H"
  let ?b = "b\<lparr>nTimeMax := (case ?prev of Some p \<Rightarrow> max (nTimeMax p) (nTime b) | None \<Rightarrow> nTime b)\<rparr>"
  obtain t neg ovf where "SetCompact (nBits ?b) = (t, neg, ovf)" using prod_cases3 by blast
  then obtain w where w: "GetBlockProof ?b = Some w" "length w = WIDTH" using GetBlockProof_limbs by blast
  let ?work = "case ?prev of Some p \<Rightarrow> nChainWork p | None \<Rightarrow> base_uint_of 0"
  have len: "length ?work = WIDTH" using assms by (auto split: option.splits simp: bind_eq_Some_conv)
  obtain r b' where r: "RaiseValidity (?b\<lparr>nChainWork := bu_add ?work w\<rparr>) BLOCK_VALID_TREE = Some (r, b')"
    and b': "b' = ?b\<lparr>nChainWork := bu_add ?work w, nStatus := nStatus b'\<rparr>"
    using RaiseValidity_TREE by blast
  have "finish_entry H b = Ret b'" using w(1) r by (simp add: finish_entry_def Let_def)
  moreover have keep: "pprev b' = pprev b" "pskip b' = pskip b" "nHeight b' = nHeight b" "nTime b' = nTime b"
    "nTimeMax b' = nTimeMax ?b" "nChainWork b' = bu_add ?work w" "nBits b' = nBits ?b"
    by (subst b', simp)+
  moreover have "limbs (bu_add ?work w) =
      ((case ?prev of Some p \<Rightarrow> limbs (nChainWork p) | None \<Rightarrow> 0) + limbs w) mod 2 ^ 256"
    unfolding limbs_bu_add [OF len w(2)] by (simp add: limbs_base_uint_of split: option.split)
  then have "wf_work H b'"
    unfolding wf_work_def Let_def keep GetBlockProof_cong [OF keep(7)] w(1)
    using len w(2) by simp
  ultimately show ?thesis by blast
qed

lemma wf_work_cong:
  assumes "wf_work H b" and "\<And>p. pprev b = Some p \<Longrightarrow> H' p = H p"
  shows "wf_work H' b"
proof -
  have "Option.bind (pprev b) H' = Option.bind (pprev b) H" using assms(2) by (cases "pprev b") simp_all
  with assms(1) show ?thesis by (simp only: wf_work_def)
qed

lemma wf_work_length: "wf_work H b \<Longrightarrow> length (nChainWork b) = WIDTH"
  by (simp add: wf_work_def Let_def)

text \<open>The choice of the best header.\<close>

lemma best_header_max:
  assumes best: "case best of None \<Rightarrow> \<forall>a. H a = None
      | Some p \<Rightarrow> (case H p of None \<Rightarrow> False
          | Some pb \<Rightarrow> \<forall>a b. H a = Some b \<longrightarrow> limbs (nChainWork b) \<le> limbs (nChainWork pb))"
    and len: "\<And>a b. H a = Some b \<Longrightarrow> length (nChainWork b) = WIDTH" "length (nChainWork new) = WIDTH"
    and hash: "H hash = None"
  defines "H' \<equiv> H(hash \<mapsto> new)"
  shows "case (if better_header H' best new then Some hash else best) of None \<Rightarrow> \<forall>a. H' a = None
      | Some p \<Rightarrow> (case H' p of None \<Rightarrow> False
          | Some pb \<Rightarrow> \<forall>a b. H' a = Some b \<longrightarrow> limbs (nChainWork b) \<le> limbs (nChainWork pb))"
proof (cases best)
  case None
  then show ?thesis using best by (auto simp: better_header_def H'_def)
next
  case (Some p)
  then obtain pb where pb: "H p = Some pb" "\<forall>a b. H a = Some b \<longrightarrow> limbs (nChainWork b) \<le> limbs (nChainWork pb)"
    using best by (auto split: option.splits)
  have ne: "p \<noteq> hash" using pb(1) hash by auto
  have better: "better_header H' best new \<longleftrightarrow> limbs (nChainWork pb) < limbs (nChainWork new)"
    using Some pb(1) ne len(1) [OF pb(1)] len(2) by (simp add: better_header_def H'_def CompareTo_limbs)
  show ?thesis
  proof (cases "better_header H' best new")
    case True
    then have "limbs (nChainWork b) \<le> limbs (nChainWork new)" if "H' a = Some b" for a b
      using that pb(2) better unfolding H'_def by (cases "a = hash") fastforce+
    then show ?thesis using True by (simp add: H'_def)
  next
    case False
    then have "limbs (nChainWork b) \<le> limbs (nChainWork pb)" if "H' a = Some b" for a b
      using that pb(2) better unfolding H'_def by (cases "a = hash") auto
    then show ?thesis using False Some ne pb(1) by (simp add: H'_def)
  qed
qed

section \<open>Properties\<close>


definition sample_manager :: block_manager where
  "sample_manager = \<lparr>mapBlockIndex = Map.empty, pindexBestHeader = None, setDirtyBlockIndex = {}\<rparr>"


text \<open>The work of a block is the expected number of hashes: \<^const>\<open>GetBlockProof\<close> is \<open>2 ^ 256\<close> divided by the
  target plus one, although that power is out of range of the type, and 0 for a target that is
  negative, too large or zero.  The division never fails.\<close>

lemma block_proof_work:
  "\<exists>w. GetBlockProof b = Some w \<and>
    (case SetCompact (nBits b) of (t, neg, ovf) \<Rightarrow>
       limbs w = (if neg \<or> ovf \<or> limbs t = 0 then 0 else 2 ^ 256 div (limbs t + 1)))"
proof -
  obtain t neg ovf where "SetCompact (nBits b) = (t, neg, ovf)" using prod_cases3 by blast
  with GetBlockProof_limbs [OF this] show ?thesis by auto
qed

end
