(* ===== verification/Coins.thy ===== *)
theory Coins
  imports Transaction "HOL-Library.AList"
begin

text \<open>
  The views of the unspent transaction outputs (\<^verbatim>\<open>src/src/coins.h\<close>, \<^verbatim>\<open>coins.cpp\<close>) and the coin database
  at their bottom (\<^verbatim>\<open>CCoinsViewDB\<close> of \<^verbatim>\<open>src/src/txdb.cpp\<close>).  The virtual functions of \<^verbatim>\<open>CCoinsView\<close> are
  the fields of a record of operations on a state type; a cache over a view is a view again
  (\<open>cache_view\<close>), so that caches stack as they do in the node.  Queries fill the caches below them,
  hence they return the view's next state.  A \<^verbatim>\<open>CCoinsMap\<close> is an association list: its order is the
  order of the iterators of the hash table.
\<close>

section \<open>Coins\<close>

record Coin =
  coin_out :: CTxOut
  fCoinBase :: bool
  coin_nHeight :: "31 word"

definition make_coin :: "CTxOut \<Rightarrow> int \<Rightarrow> bool \<Rightarrow> Coin" where
  "make_coin outIn nHeightIn fCoinBaseIn =
     \<lparr>coin_out = outIn, fCoinBase = fCoinBaseIn, coin_nHeight = word_of_int nHeightIn\<rparr>"

definition Coin_Clear :: "Coin \<Rightarrow> Coin" where
  "Coin_Clear c = c\<lparr>coin_out := TxOut_null, fCoinBase := False, coin_nHeight := 0\<rparr>"

definition coinEmpty :: Coin where
  "coinEmpty = \<lparr>coin_out = TxOut_null, fCoinBase = False, coin_nHeight = 0\<rparr>"

definition IsSpent :: "Coin \<Rightarrow> bool" where
  "IsSpent c = TxOut_IsNull (coin_out c)"

definition DIRTY :: byte where "DIRTY = 1"
definition FRESH :: byte where "FRESH = 2"

record CCoinsCacheEntry =
  ce_coin :: Coin
  ce_flags :: byte

definition is_dirty :: "CCoinsCacheEntry \<Rightarrow> bool" where
  "is_dirty e \<longleftrightarrow> ce_flags e AND DIRTY \<noteq> 0"

definition is_fresh :: "CCoinsCacheEntry \<Rightarrow> bool" where
  "is_fresh e \<longleftrightarrow> ce_flags e AND FRESH \<noteq> 0"

type_synonym CCoinsMap = "(COutPoint \<times> CCoinsCacheEntry) list"

text \<open>The assertions and the exceptions of the code.\<close>

datatype coin_error =
    AddedCoinSpent
  | ReplacesUnspentEntry
  | FreshMisapplied
  | NullBlockHash
  | OtherReplayHead
  | InputNotSpent

section \<open>Views\<close>

text \<open>\<open>view_BatchWrite\<close> returns the result of the function and the next state.\<close>

record 'v coins_view =
  view_GetCoin :: "'v \<Rightarrow> COutPoint \<Rightarrow> Coin option \<times> 'v"
  view_GetBestBlock :: "'v \<Rightarrow> bytes \<times> 'v"
  view_BatchWrite :: "'v \<Rightarrow> CCoinsMap \<Rightarrow> bytes \<Rightarrow> coin_error + bool \<times> 'v"

record 'v CCoinsViewCache =
  cv_base :: 'v
  cv_hashBlock :: bytes
  cacheCoins :: CCoinsMap
  cachedCoinsUsage :: "64 word"

text \<open>\<open>usage\<close> stands for \<^verbatim>\<open>Coin::DynamicMemoryUsage\<close>, the heap memory of the script.\<close>

type_synonym coin_usage = "Coin \<Rightarrow> 64 word"

definition CoinsViewCache :: "'v \<Rightarrow> 'v CCoinsViewCache" where
  "CoinsViewCache baseIn =
     \<lparr>cv_base = baseIn, cv_hashBlock = uint256_null, cacheCoins = [], cachedCoinsUsage = 0\<rparr>"

definition FetchCoin ::
    "coin_usage \<Rightarrow> 'v coins_view \<Rightarrow> 'v CCoinsViewCache \<Rightarrow> COutPoint \<Rightarrow>
     CCoinsCacheEntry option \<times> 'v CCoinsViewCache" where
  "FetchCoin usage V c outpoint =
     (case map_of (cacheCoins c) outpoint of
        Some e \<Rightarrow> (Some e, c)
      | None \<Rightarrow>
          (case view_GetCoin V (cv_base c) outpoint of
             (None, b) \<Rightarrow> (None, c\<lparr>cv_base := b\<rparr>)
           | (Some tmp, b) \<Rightarrow>
               let e = \<lparr>ce_coin = tmp, ce_flags = (if IsSpent tmp then FRESH else 0)\<rparr>
               in (Some e, c\<lparr>cv_base := b, cacheCoins := AList.update outpoint e (cacheCoins c),
                             cachedCoinsUsage := cachedCoinsUsage c + usage tmp\<rparr>)))"

definition cache_GetCoin ::
    "coin_usage \<Rightarrow> 'v coins_view \<Rightarrow> 'v CCoinsViewCache \<Rightarrow> COutPoint \<Rightarrow>
     Coin option \<times> 'v CCoinsViewCache" where
  "cache_GetCoin usage V c outpoint =
     (case FetchCoin usage V c outpoint of
        (Some e, c') \<Rightarrow> (if \<not> IsSpent (ce_coin e) then Some (ce_coin e) else None, c')
      | (None, c') \<Rightarrow> (None, c'))"

definition AccessCoin ::
    "coin_usage \<Rightarrow> 'v coins_view \<Rightarrow> 'v CCoinsViewCache \<Rightarrow> COutPoint \<Rightarrow> Coin \<times> 'v CCoinsViewCache" where
  "AccessCoin usage V c outpoint =
     (case FetchCoin usage V c outpoint of
        (None, c') \<Rightarrow> (coinEmpty, c')
      | (Some e, c') \<Rightarrow> (ce_coin e, c'))"

definition HaveCoin ::
    "coin_usage \<Rightarrow> 'v coins_view \<Rightarrow> 'v CCoinsViewCache \<Rightarrow> COutPoint \<Rightarrow> bool \<times> 'v CCoinsViewCache" where
  "HaveCoin usage V c outpoint =
     (case FetchCoin usage V c outpoint of
        (None, c') \<Rightarrow> (False, c')
      | (Some e, c') \<Rightarrow> (\<not> IsSpent (ce_coin e), c'))"

definition HaveCoinInCache :: "'v CCoinsViewCache \<Rightarrow> COutPoint \<Rightarrow> bool" where
  "HaveCoinInCache c outpoint =
     (case map_of (cacheCoins c) outpoint of None \<Rightarrow> False | Some e \<Rightarrow> \<not> IsSpent (ce_coin e))"

definition AddCoin ::
    "coin_usage \<Rightarrow> 'v CCoinsViewCache \<Rightarrow> COutPoint \<Rightarrow> Coin \<Rightarrow> bool \<Rightarrow> coin_error + 'v CCoinsViewCache" where
  "AddCoin usage c outpoint coin possible_overwrite =
     (if IsSpent coin then Inl AddedCoinSpent
      else if IsUnspendable (scriptPubKey (coin_out coin)) then Inr c
      else let inserted = (map_of (cacheCoins c) outpoint = None);
               it = (case map_of (cacheCoins c) outpoint of
                       Some e \<Rightarrow> e | None \<Rightarrow> \<lparr>ce_coin = coinEmpty, ce_flags = 0\<rparr>);
               usage1 = (if \<not> inserted then cachedCoinsUsage c - usage (ce_coin it)
                         else cachedCoinsUsage c);
               fresh = (\<not> possible_overwrite \<and> \<not> is_dirty it)
           in if \<not> possible_overwrite \<and> \<not> IsSpent (ce_coin it) then Inl ReplacesUnspentEntry
              else Inr (c\<lparr>cacheCoins := AList.update outpoint
                            \<lparr>ce_coin = coin,
                             ce_flags = ce_flags it OR (DIRTY OR (if fresh then FRESH else 0))\<rparr>
                            (cacheCoins c),
                          cachedCoinsUsage := usage1 + usage coin\<rparr>))"

fun add_outputs ::
    "coin_usage \<Rightarrow> 'v coins_view \<Rightarrow> 'v CCoinsViewCache \<Rightarrow> bytes \<Rightarrow> int \<Rightarrow> bool \<Rightarrow> bool \<Rightarrow> nat \<Rightarrow>
     CTxOut list \<Rightarrow> coin_error + 'v CCoinsViewCache" where
  "add_outputs usage V c txid nHeight fCoinbase check i [] = Inr c"
| "add_outputs usage V c txid nHeight fCoinbase check i (tx_out # outs) =
     (let outpoint = \<lparr>op_hash = txid, op_n = of_nat i\<rparr>;
          (overwrite, c1) = (if check then HaveCoin usage V c outpoint else (fCoinbase, c))
      in case AddCoin usage c1 outpoint (make_coin tx_out nHeight fCoinbase) overwrite of
           Inl e \<Rightarrow> Inl e
         | Inr c2 \<Rightarrow> add_outputs usage V c2 txid nHeight fCoinbase check (i + 1) outs)"

text \<open>\<open>txid\<close> is the transaction's \<^verbatim>\<open>GetHash\<close>, which it holds since its construction.\<close>

definition AddCoins ::
    "coin_usage \<Rightarrow> 'v coins_view \<Rightarrow> 'v CCoinsViewCache \<Rightarrow> CTransaction \<Rightarrow> bytes \<Rightarrow> int \<Rightarrow> bool \<Rightarrow>
     coin_error + 'v CCoinsViewCache" where
  "AddCoins usage V c tx txid nHeight check =
     add_outputs usage V c txid nHeight (IsCoinBase tx \<or> IsCoinStake tx) check 0 (vout tx)"

text \<open>The result of \<open>SpendCoin\<close>, the coin for \<^verbatim>\<open>moveout\<close>, and the next state.\<close>

definition SpendCoin ::
    "coin_usage \<Rightarrow> 'v coins_view \<Rightarrow> 'v CCoinsViewCache \<Rightarrow> COutPoint \<Rightarrow> Coin option \<times> 'v CCoinsViewCache" where
  "SpendCoin usage V c outpoint =
     (case FetchCoin usage V c outpoint of
        (None, c') \<Rightarrow> (None, c')
      | (Some e, c') \<Rightarrow>
          let c1 = c'\<lparr>cachedCoinsUsage := cachedCoinsUsage c' - usage (ce_coin e)\<rparr>
          in (Some (ce_coin e),
              if is_fresh e then c1\<lparr>cacheCoins := AList.delete outpoint (cacheCoins c1)\<rparr>
              else c1\<lparr>cacheCoins := AList.update outpoint
                        \<lparr>ce_coin = Coin_Clear (ce_coin e), ce_flags = ce_flags e OR DIRTY\<rparr>
                        (cacheCoins c1)\<rparr>))"

definition cache_GetBestBlock ::
    "'v coins_view \<Rightarrow> 'v CCoinsViewCache \<Rightarrow> bytes \<times> 'v CCoinsViewCache" where
  "cache_GetBestBlock V c =
     (if cv_hashBlock c = uint256_null then
        (case view_GetBestBlock V (cv_base c) of
           (h, b) \<Rightarrow> (h, c\<lparr>cv_base := b, cv_hashBlock := h\<rparr>))
      else (cv_hashBlock c, c))"

definition SetBestBlock :: "'v CCoinsViewCache \<Rightarrow> bytes \<Rightarrow> 'v CCoinsViewCache" where
  "SetBestBlock c hashBlockIn = c\<lparr>cv_hashBlock := hashBlockIn\<rparr>"

text \<open>One entry of the child's map merged into the cache.\<close>

definition merge_entry ::
    "coin_usage \<Rightarrow> 'v CCoinsViewCache \<Rightarrow> COutPoint \<Rightarrow> CCoinsCacheEntry \<Rightarrow>
     coin_error + 'v CCoinsViewCache" where
  "merge_entry usage c outpoint it =
     (if \<not> is_dirty it then Inr c
      else case map_of (cacheCoins c) outpoint of
        None \<Rightarrow>
          if \<not> (is_fresh it \<and> IsSpent (ce_coin it)) then
            Inr (c\<lparr>cacheCoins := AList.update outpoint
                      \<lparr>ce_coin = ce_coin it,
                       ce_flags = (if is_fresh it then DIRTY OR FRESH else DIRTY)\<rparr> (cacheCoins c),
                    cachedCoinsUsage := cachedCoinsUsage c + usage (ce_coin it)\<rparr>)
          else Inr c
      | Some itUs \<Rightarrow>
          if is_fresh it \<and> \<not> IsSpent (ce_coin itUs) then Inl FreshMisapplied
          else if is_fresh itUs \<and> IsSpent (ce_coin it) then
            Inr (c\<lparr>cacheCoins := AList.delete outpoint (cacheCoins c),
                    cachedCoinsUsage := cachedCoinsUsage c - usage (ce_coin itUs)\<rparr>)
          else
            Inr (c\<lparr>cacheCoins := AList.update outpoint
                      \<lparr>ce_coin = ce_coin it, ce_flags = ce_flags itUs OR DIRTY\<rparr> (cacheCoins c),
                    cachedCoinsUsage :=
                      cachedCoinsUsage c - usage (ce_coin itUs) + usage (ce_coin it)\<rparr>))"

fun merge_entries ::
    "coin_usage \<Rightarrow> 'v CCoinsViewCache \<Rightarrow> CCoinsMap \<Rightarrow> coin_error + 'v CCoinsViewCache" where
  "merge_entries usage c [] = Inr c"
| "merge_entries usage c ((outpoint, it) # mapCoins) =
     (case merge_entry usage c outpoint it of
        Inl e \<Rightarrow> Inl e
      | Inr c' \<Rightarrow> merge_entries usage c' mapCoins)"

definition cache_BatchWrite ::
    "coin_usage \<Rightarrow> 'v CCoinsViewCache \<Rightarrow> CCoinsMap \<Rightarrow> bytes \<Rightarrow> coin_error + bool \<times> 'v CCoinsViewCache" where
  "cache_BatchWrite usage c mapCoins hashBlockIn =
     (case merge_entries usage c mapCoins of
        Inl e \<Rightarrow> Inl e
      | Inr c' \<Rightarrow> Inr (True, c'\<lparr>cv_hashBlock := hashBlockIn\<rparr>))"

definition Flush ::
    "'v coins_view \<Rightarrow> 'v CCoinsViewCache \<Rightarrow> coin_error + bool \<times> 'v CCoinsViewCache" where
  "Flush V c =
     (case view_BatchWrite V (cv_base c) (cacheCoins c) (cv_hashBlock c) of
        Inl e \<Rightarrow> Inl e
      | Inr (fOk, b) \<Rightarrow> Inr (fOk, c\<lparr>cv_base := b, cacheCoins := [], cachedCoinsUsage := 0\<rparr>))"

definition Uncache :: "coin_usage \<Rightarrow> 'v CCoinsViewCache \<Rightarrow> COutPoint \<Rightarrow> 'v CCoinsViewCache" where
  "Uncache usage c outpoint =
     (case map_of (cacheCoins c) outpoint of
        None \<Rightarrow> c
      | Some e \<Rightarrow>
          if ce_flags e = 0 then
            c\<lparr>cacheCoins := AList.delete outpoint (cacheCoins c),
              cachedCoinsUsage := cachedCoinsUsage c - usage (ce_coin e)\<rparr>
          else c)"

definition GetCacheSize :: "'v CCoinsViewCache \<Rightarrow> nat" where
  "GetCacheSize c = length (cacheCoins c)"

text \<open>A cache as a view for the next cache.\<close>

definition cache_view :: "coin_usage \<Rightarrow> 'v coins_view \<Rightarrow> 'v CCoinsViewCache coins_view" where
  "cache_view usage V =
     \<lparr>view_GetCoin = cache_GetCoin usage V, view_GetBestBlock = cache_GetBestBlock V,
      view_BatchWrite = cache_BatchWrite usage\<rparr>"

section \<open>Inputs of a transaction\<close>

text \<open>\<open>UndefinedBehaviour\<close> is a signed overflow of the sum.\<close>

fun value_in_loop ::
    "coin_usage \<Rightarrow> 'v coins_view \<Rightarrow> 'v CCoinsViewCache \<Rightarrow> int \<Rightarrow> CTxIn list \<Rightarrow>
     (int \<times> 'v CCoinsViewCache) outcome" where
  "value_in_loop usage V c nResult [] = Ret (nResult, c)"
| "value_in_loop usage V c nResult (i # ins) =
     (case AccessCoin usage V c (prevout i) of
        (coin, c') \<Rightarrow>
          let s = nResult + sint (nValue (coin_out coin))
          in if \<not> is_int64 s then UndefinedBehaviour else value_in_loop usage V c' s ins)"

definition GetValueIn ::
    "coin_usage \<Rightarrow> 'v coins_view \<Rightarrow> 'v CCoinsViewCache \<Rightarrow> CTransaction \<Rightarrow>
     (int \<times> 'v CCoinsViewCache) outcome" where
  "GetValueIn usage V c tx =
     (if IsCoinBase tx then Ret (0, c) else value_in_loop usage V c 0 (vin tx))"

fun have_inputs_loop ::
    "coin_usage \<Rightarrow> 'v coins_view \<Rightarrow> 'v CCoinsViewCache \<Rightarrow> CTxIn list \<Rightarrow> bool \<times> 'v CCoinsViewCache" where
  "have_inputs_loop usage V c [] = (True, c)"
| "have_inputs_loop usage V c (i # ins) =
     (case HaveCoin usage V c (prevout i) of
        (False, c') \<Rightarrow> (False, c')
      | (True, c') \<Rightarrow> have_inputs_loop usage V c' ins)"

definition HaveInputs ::
    "coin_usage \<Rightarrow> 'v coins_view \<Rightarrow> 'v CCoinsViewCache \<Rightarrow> CTransaction \<Rightarrow> bool \<times> 'v CCoinsViewCache" where
  "HaveInputs usage V c tx =
     (if \<not> IsCoinBase tx then have_inputs_loop usage V c (vin tx) else (True, c))"

text \<open>The loop of \<open>AccessByTxid\<close> with the number of outputs still to be tried.\<close>

definition MAX_OUTPUTS_PER_BLOCK :: nat where
  "MAX_OUTPUTS_PER_BLOCK = 32000000 div (4 * length (ser_TxOut TxOut_null))"

fun by_txid_loop ::
    "coin_usage \<Rightarrow> 'v coins_view \<Rightarrow> 'v CCoinsViewCache \<Rightarrow> bytes \<Rightarrow> 32 word \<Rightarrow> nat \<Rightarrow>
     Coin \<times> 'v CCoinsViewCache" where
  "by_txid_loop usage V c txid n 0 = (coinEmpty, c)"
| "by_txid_loop usage V c txid n (Suc left) =
     (case AccessCoin usage V c \<lparr>op_hash = txid, op_n = n\<rparr> of
        (alternate, c') \<Rightarrow>
          if \<not> IsSpent alternate then (alternate, c')
          else by_txid_loop usage V c' txid (n + 1) left)"

definition AccessByTxid ::
    "coin_usage \<Rightarrow> 'v coins_view \<Rightarrow> 'v CCoinsViewCache \<Rightarrow> bytes \<Rightarrow> Coin \<times> 'v CCoinsViewCache" where
  "AccessByTxid usage V c txid = by_txid_loop usage V c txid 0 MAX_OUTPUTS_PER_BLOCK"

section \<open>The coin database\<close>

text \<open>\<^verbatim>\<open>CCoinsViewDB\<close> over a store with atomic batches.  The keys are typed; \<open>size_estimate\<close> is
  \<^verbatim>\<open>CDBBatch::SizeEstimate\<close>.\<close>

datatype db_op =
    EraseBest
  | WriteBest bytes
  | EraseHeads
  | WriteHeads "bytes list"
  | EraseCoin COutPoint
  | WriteCoin COutPoint Coin

record coins_db =
  db_coins :: "COutPoint \<Rightarrow> Coin option"
  db_best :: "bytes option"
  db_heads :: "bytes list option"

fun apply_op :: "db_op \<Rightarrow> coins_db \<Rightarrow> coins_db" where
  "apply_op EraseBest d = d\<lparr>db_best := None\<rparr>"
| "apply_op (WriteBest h) d = d\<lparr>db_best := Some h\<rparr>"
| "apply_op EraseHeads d = d\<lparr>db_heads := None\<rparr>"
| "apply_op (WriteHeads hs) d = d\<lparr>db_heads := Some hs\<rparr>"
| "apply_op (EraseCoin outpoint) d = d\<lparr>db_coins := (db_coins d)(outpoint := None)\<rparr>"
| "apply_op (WriteCoin outpoint c) d = d\<lparr>db_coins := (db_coins d)(outpoint := Some c)\<rparr>"

definition WriteBatch :: "db_op list \<Rightarrow> coins_db \<Rightarrow> coins_db" where
  "WriteBatch batch d = fold apply_op batch d"

definition db_GetCoin :: "coins_db \<Rightarrow> COutPoint \<Rightarrow> Coin option \<times> coins_db" where
  "db_GetCoin d outpoint = (db_coins d outpoint, d)"

definition db_GetBestBlock :: "coins_db \<Rightarrow> bytes" where
  "db_GetBestBlock d = (case db_best d of None \<Rightarrow> uint256_null | Some h \<Rightarrow> h)"

definition db_GetHeadBlocks :: "coins_db \<Rightarrow> bytes list" where
  "db_GetHeadBlocks d = (case db_heads d of None \<Rightarrow> [] | Some hs \<Rightarrow> hs)"

definition entry_ops :: "COutPoint \<times> CCoinsCacheEntry \<Rightarrow> db_op list" where
  "entry_ops it =
     (if is_dirty (snd it) then
        (if IsSpent (ce_coin (snd it)) then [EraseCoin (fst it)]
         else [WriteCoin (fst it) (ce_coin (snd it))])
      else [])"

text \<open>The batches the loop hands to the store, in order; \<open>batch\<close> is the one being filled.\<close>

fun write_batches ::
    "(db_op list \<Rightarrow> nat) \<Rightarrow> nat \<Rightarrow> bytes \<Rightarrow> db_op list \<Rightarrow> CCoinsMap \<Rightarrow> db_op list list" where
  "write_batches size_estimate batch_size hashBlock batch [] =
     [batch @ [EraseHeads, WriteBest hashBlock]]"
| "write_batches size_estimate batch_size hashBlock batch (it # mapCoins) =
     (let batch1 = batch @ entry_ops it
      in if size_estimate batch1 > batch_size
         then batch1 # write_batches size_estimate batch_size hashBlock [] mapCoins
         else write_batches size_estimate batch_size hashBlock batch1 mapCoins)"

definition db_old_tip :: "coins_db \<Rightarrow> bytes \<Rightarrow> coin_error + bytes" where
  "db_old_tip d hashBlock =
     (let old_tip = db_GetBestBlock d; old_heads = db_GetHeadBlocks d
      in if old_tip = uint256_null \<and> length old_heads = 2 then
           (if old_heads ! 0 \<noteq> hashBlock then Inl OtherReplayHead else Inr (old_heads ! 1))
         else Inr old_tip)"

definition db_batches ::
    "(db_op list \<Rightarrow> nat) \<Rightarrow> nat \<Rightarrow> coins_db \<Rightarrow> CCoinsMap \<Rightarrow> bytes \<Rightarrow> coin_error + db_op list list" where
  "db_batches size_estimate batch_size d mapCoins hashBlock =
     (if hashBlock = uint256_null then Inl NullBlockHash
      else case db_old_tip d hashBlock of
        Inl e \<Rightarrow> Inl e
      | Inr old_tip \<Rightarrow>
          Inr (write_batches size_estimate batch_size hashBlock
                 [EraseBest, WriteHeads [hashBlock, old_tip]] mapCoins))"

definition db_BatchWrite ::
    "(db_op list \<Rightarrow> nat) \<Rightarrow> nat \<Rightarrow> coins_db \<Rightarrow> CCoinsMap \<Rightarrow> bytes \<Rightarrow> coin_error + bool \<times> coins_db" where
  "db_BatchWrite size_estimate batch_size d mapCoins hashBlock =
     (case db_batches size_estimate batch_size d mapCoins hashBlock of
        Inl e \<Rightarrow> Inl e
      | Inr batches \<Rightarrow> Inr (True, fold WriteBatch batches d))"

definition db_view :: "(db_op list \<Rightarrow> nat) \<Rightarrow> nat \<Rightarrow> coins_db coins_view" where
  "db_view size_estimate batch_size =
     \<lparr>view_GetCoin = db_GetCoin, view_GetBestBlock = (\<lambda>d. (db_GetBestBlock d, d)),
      view_BatchWrite = db_BatchWrite size_estimate batch_size\<rparr>"

end
