(* ===== verification/CoinsProps.thy ===== *)
theory CoinsProps
  imports Coins
begin

text \<open>
  The contract of a coin view: a set of unspent coins and a best block, which queries keep and batches
  change as a map update.  The laws are a locale; a cache over a lawful view is lawful, which the
  interpretation \<open>cached\<close> shows for every view, and the coin database is lawful (\<open>coins_base\<close>).  Operations
  of a cache refine the map, whatever the flags of its entries.
\<close>

section \<open>Flags\<close>

lemma is_dirty_bit: "is_dirty e \<longleftrightarrow> bit (ce_flags e) 0"
proof -
  have "ce_flags e AND 2 ^ 0 = 0 \<longleftrightarrow> \<not> bit (ce_flags e) 0" by (rule and_exp_eq_0_iff_not_bit)
  then show ?thesis by (simp add: is_dirty_def DIRTY_def)
qed

lemma is_fresh_bit: "is_fresh e \<longleftrightarrow> bit (ce_flags e) 1"
proof -
  have "ce_flags e AND 2 ^ 1 = 0 \<longleftrightarrow> \<not> bit (ce_flags e) 1" by (rule and_exp_eq_0_iff_not_bit)
  then show ?thesis by (simp add: is_fresh_def FRESH_def)
qed

lemma bit_DIRTY: "bit DIRTY n \<longleftrightarrow> n = 0"
  by (auto simp: DIRTY_def bit_1_iff)

lemma bit_FRESH: "bit FRESH n \<longleftrightarrow> n = 1"
  unfolding FRESH_def by (auto simp: bit_2_iff possible_bit_def)

lemmas cache_flag_simps = is_dirty_bit is_fresh_bit bit_DIRTY bit_FRESH bit_or_iff

section \<open>The contract\<close>

text \<open>What an entry says of its outpoint, and a batch of entries applied to a set of coins.\<close>

definition entry_coin :: "CCoinsCacheEntry \<Rightarrow> Coin option" where
  "entry_coin e = (if IsSpent (ce_coin e) then None else Some (ce_coin e))"

definition apply_batch :: "CCoinsMap \<Rightarrow> (COutPoint \<Rightarrow> Coin option) \<Rightarrow> COutPoint \<Rightarrow> Coin option" where
  "apply_batch m C outpoint =
     (case map_of m outpoint of
        Some e \<Rightarrow> if is_dirty e then entry_coin e else C outpoint
      | None \<Rightarrow> C outpoint)"

definition batch_ok :: "(COutPoint \<Rightarrow> Coin option) \<Rightarrow> CCoinsMap \<Rightarrow> bool" where
  "batch_ok C m \<longleftrightarrow> distinct (map fst m) \<and>
     (\<forall>outpoint e. (outpoint, e) \<in> set m \<longrightarrow> is_dirty e \<longrightarrow> is_fresh e \<longrightarrow> C outpoint = None)"

locale lawful_view =
  fixes V :: "'v coins_view"
    and vinv :: "'v \<Rightarrow> bool"
    and coins :: "'v \<Rightarrow> COutPoint \<Rightarrow> Coin option"
    and best :: "'v \<Rightarrow> bytes"
  assumes get_coin: "vinv v \<Longrightarrow> view_GetCoin V v outpoint = (r, v') \<Longrightarrow>
      r = coins v outpoint \<and> vinv v' \<and> coins v' = coins v \<and> best v' = best v"
    and get_best: "vinv v \<Longrightarrow> view_GetBestBlock V v = (h, v') \<Longrightarrow>
      h = best v \<and> vinv v' \<and> coins v' = coins v \<and> best v' = best v"
    and unspent: "vinv v \<Longrightarrow> coins v outpoint = Some x \<Longrightarrow> \<not> IsSpent x"
    and batch_write: "vinv v \<Longrightarrow> batch_ok (coins v) m \<Longrightarrow> h \<noteq> uint256_null \<Longrightarrow>
      \<exists>v'. view_BatchWrite V v m h = Inr (True, v') \<and> vinv v' \<and>
        coins v' = apply_batch m (coins v) \<and> best v' = h"

section \<open>Caches\<close>

definition cache_coins ::
    "('v \<Rightarrow> COutPoint \<Rightarrow> Coin option) \<Rightarrow> 'v CCoinsViewCache \<Rightarrow> COutPoint \<Rightarrow> Coin option" where
  "cache_coins coins c outpoint =
     (case map_of (cacheCoins c) outpoint of
        Some e \<Rightarrow> entry_coin e
      | None \<Rightarrow> coins (cv_base c) outpoint)"

definition cache_best :: "('v \<Rightarrow> bytes) \<Rightarrow> 'v CCoinsViewCache \<Rightarrow> bytes" where
  "cache_best best c = (if cv_hashBlock c = uint256_null then best (cv_base c) else cv_hashBlock c)"

text \<open>An entry that is not dirty agrees with the view below; a fresh one is unknown below.\<close>

definition entry_ok :: "Coin option \<Rightarrow> CCoinsCacheEntry \<Rightarrow> bool" where
  "entry_ok below e \<longleftrightarrow> (\<not> is_dirty e \<longrightarrow> below = entry_coin e) \<and> (is_fresh e \<longrightarrow> below = None)"

definition cache_inv ::
    "('v \<Rightarrow> bool) \<Rightarrow> ('v \<Rightarrow> COutPoint \<Rightarrow> Coin option) \<Rightarrow> 'v CCoinsViewCache \<Rightarrow> bool" where
  "cache_inv vinv coins c \<longleftrightarrow> vinv (cv_base c) \<and> distinct (map fst (cacheCoins c)) \<and>
     (\<forall>outpoint e. map_of (cacheCoins c) outpoint = Some e \<longrightarrow>
        entry_ok (coins (cv_base c) outpoint) e)"

lemma map_of_update [simp]: "map_of (AList.update k v m) = (map_of m)(k \<mapsto> v)"
  by (rule update_conv')

lemma map_of_delete [simp]: "map_of (AList.delete k m) = (map_of m)(k := None)"
  by (rule delete_conv')

lemma distinct_update_keys [simp]:
  "distinct (map fst m) \<Longrightarrow> distinct (map fst (AList.update k v m))"
  by (rule distinct_update)

lemma distinct_delete_keys [simp]:
  "distinct (map fst m) \<Longrightarrow> distinct (map fst (AList.delete k m))"
  by (rule distinct_delete)

lemma IsSpent_simps [simp]: "IsSpent coinEmpty" "IsSpent (Coin_Clear x)"
  by (simp_all add: IsSpent_def coinEmpty_def Coin_Clear_def TxOut_IsNull_def TxOut_null_def)

lemma entry_coin_Some: "entry_coin e = Some x \<longleftrightarrow> \<not> IsSpent (ce_coin e) \<and> ce_coin e = x"
  by (auto simp: entry_coin_def)

lemma entry_coin_None: "entry_coin e = None \<longleftrightarrow> IsSpent (ce_coin e)"
  by (auto simp: entry_coin_def)

text \<open>The invariant after the entry of one outpoint was written or removed.\<close>

lemma cache_inv_update:
  assumes "cache_inv vinv coins c" and "entry_ok (coins (cv_base c) k) e"
  shows "cache_inv vinv coins (c\<lparr>cacheCoins := AList.update k e (cacheCoins c)\<rparr>)"
  using assms by (simp add: cache_inv_def)

lemma cache_inv_delete:
  "cache_inv vinv coins c \<Longrightarrow> cache_inv vinv coins (c\<lparr>cacheCoins := AList.delete k (cacheCoins c)\<rparr>)"
  by (simp add: cache_inv_def)

lemma cache_inv_usage [simp]:
  "cache_inv vinv coins (c\<lparr>cachedCoinsUsage := u\<rparr>) = cache_inv vinv coins c"
  "cache_inv vinv coins (c\<lparr>cv_hashBlock := h\<rparr>) = cache_inv vinv coins c"
  by (simp_all add: cache_inv_def)

lemma cache_coins_update:
  "cache_coins coins (c\<lparr>cacheCoins := AList.update k e (cacheCoins c)\<rparr>) =
   (cache_coins coins c)(k := entry_coin e)"
  by (rule ext) (simp add: cache_coins_def cong: option.case_cong)

lemma cache_coins_delete:
  "cache_coins coins (c\<lparr>cacheCoins := AList.delete k (cacheCoins c)\<rparr>) =
   (cache_coins coins c)(k := coins (cv_base c) k)"
  by (rule ext) (simp add: cache_coins_def cong: option.case_cong)

lemma cache_coins_usage [simp]:
  "cache_coins coins (c\<lparr>cachedCoinsUsage := u\<rparr>) = cache_coins coins c"
  "cache_coins coins (c\<lparr>cv_hashBlock := h\<rparr>) = cache_coins coins c"
  by (rule ext, simp add: cache_coins_def cong: option.case_cong)+

lemma cache_best_simps [simp]:
  "cache_best best (c\<lparr>cachedCoinsUsage := u\<rparr>) = cache_best best c"
  "cache_best best (c\<lparr>cacheCoins := m\<rparr>) = cache_best best c"
  by (simp_all add: cache_best_def)

lemma usage_last:
  "c\<lparr>cachedCoinsUsage := u, cacheCoins := m\<rparr> =
   (c :: 'v CCoinsViewCache)\<lparr>cacheCoins := m, cachedCoinsUsage := u\<rparr>"
  by simp

lemma cache_entry_ok:
  "cache_inv vinv coins c \<Longrightarrow> map_of (cacheCoins c) k = Some e \<Longrightarrow> entry_ok (coins (cv_base c) k) e"
  by (simp add: cache_inv_def)

lemma cache_inv_keys: "cache_inv vinv coins c \<Longrightarrow> distinct (map fst (cacheCoins c))"
  by (simp add: cache_inv_def)

text \<open>A new base with the same coins.\<close>

lemma cache_base_same:
  assumes "cache_inv vinv coins c" and "vinv b" and "coins b = coins (cv_base c)"
  shows "cache_inv vinv coins (c\<lparr>cv_base := b\<rparr>)"
    and "cache_coins coins (c\<lparr>cv_base := b\<rparr>) = cache_coins coins c"
  using assms by (simp_all add: cache_inv_def cache_coins_def fun_eq_iff cong: option.case_cong)

section \<open>Adding and merging entries\<close>

lemma AddCoin_cache:
  assumes "cache_inv vinv coins c" and "\<not> IsSpent x"
    and "overwrite \<or> cache_coins coins c k = None"
  shows "\<exists>c'. AddCoin usage c k x overwrite = Inr c' \<and> cache_inv vinv coins c' \<and>
    cache_coins coins c' =
      (if IsUnspendable (scriptPubKey (coin_out x)) then cache_coins coins c
       else (cache_coins coins c)(k \<mapsto> x)) \<and>
    cache_best best c' = cache_best best c"
proof (cases "IsUnspendable (scriptPubKey (coin_out x))")
  case True
  then show ?thesis using assms by (simp add: AddCoin_def)
next
  case False
  define it where "it = (case map_of (cacheCoins c) k of
      Some e \<Rightarrow> e | None \<Rightarrow> \<lparr>ce_coin = coinEmpty, ce_flags = 0\<rparr>)"
  define fresh where "fresh = (\<not> overwrite \<and> \<not> is_dirty it)"
  define e where "e = \<lparr>ce_coin = x, ce_flags = ce_flags it OR (DIRTY OR (if fresh then FRESH else 0))\<rparr>"
  have spent: "overwrite \<or> IsSpent (ce_coin it)"
    using assms(3) by (auto simp: it_def cache_coins_def entry_coin_None split: option.splits)
  have dirty: "is_dirty e" by (simp add: e_def cache_flag_simps)
  have below: "coins (cv_base c) k = None" if "is_fresh e"
  proof (cases "map_of (cacheCoins c) k")
    case None
    then have "\<not> is_fresh it" by (simp add: it_def cache_flag_simps)
    with that have "fresh" by (auto simp: e_def cache_flag_simps split: if_splits)
    then show ?thesis using None assms(3) by (simp add: fresh_def cache_coins_def)
  next
    case (Some e0)
    note ok = cache_entry_ok [OF assms(1) Some]
    from Some have "it = e0" by (simp add: it_def)
    then show ?thesis
      using that ok spent
      by (auto simp: e_def fresh_def cache_flag_simps entry_ok_def entry_coin_None split: if_splits)
  qed
  have "entry_ok (coins (cv_base c) k) e" using dirty below by (simp add: entry_ok_def)
  moreover have "entry_coin e = Some x" using assms(2) by (simp add: e_def entry_coin_def)
  moreover have "\<exists>u. AddCoin usage c k x overwrite =
      Inr (c\<lparr>cacheCoins := AList.update k e (cacheCoins c), cachedCoinsUsage := u\<rparr>)"
    using spent assms(2) False
    by (auto simp: AddCoin_def it_def [symmetric] fresh_def [symmetric] e_def [symmetric] Let_def)
  ultimately show ?thesis
    using cache_inv_update [OF assms(1), of k e] False
    by (auto simp: cache_coins_update simp del: fun_upd_apply)
qed

lemma merge_entry_cache:
  assumes vinv: "cache_inv vinv coins c"
    and fresh: "is_dirty it \<Longrightarrow> is_fresh it \<Longrightarrow> cache_coins coins c k = None"
  shows "\<exists>c'. merge_entry usage c k it = Inr c' \<and> cache_inv vinv coins c' \<and>
    cache_coins coins c' = (if is_dirty it then (cache_coins coins c)(k := entry_coin it)
                            else cache_coins coins c)"
proof (cases "is_dirty it")
  case True
  show ?thesis
  proof (cases "map_of (cacheCoins c) k")
    case None
    then have same: "cache_coins coins c k = coins (cv_base c) k" by (simp add: cache_coins_def)
    define e where "e = \<lparr>ce_coin = ce_coin it, ce_flags = (if is_fresh it then DIRTY OR FRESH else DIRTY)\<rparr>"
    have "entry_ok (coins (cv_base c) k) e" "entry_coin e = entry_coin it"
      using fresh True same by (auto simp: entry_ok_def e_def cache_flag_simps entry_coin_def)
    then show ?thesis
      using True None fresh same cache_inv_update [OF vinv, of k e] vinv
      by (auto simp: merge_entry_def e_def [symmetric] cache_coins_update entry_coin_def fun_upd_idem)
  next
    case (Some itUs)
    note ok = cache_entry_ok [OF vinv Some]
    have cc: "cache_coins coins c k = entry_coin itUs" using Some by (simp add: cache_coins_def)
    then have noerr: "\<not> (is_fresh it \<and> \<not> IsSpent (ce_coin itUs))"
      using fresh True by (auto simp: entry_coin_None)
    define e where "e = \<lparr>ce_coin = ce_coin it, ce_flags = ce_flags itUs OR DIRTY\<rparr>"
    have "entry_ok (coins (cv_base c) k) e" "entry_coin e = entry_coin it"
      using ok by (auto simp: entry_ok_def e_def cache_flag_simps entry_coin_def)
    moreover have "coins (cv_base c) k = entry_coin it" if "is_fresh itUs" "IsSpent (ce_coin it)"
      using that ok by (simp add: entry_ok_def entry_coin_def)
    ultimately show ?thesis
      using True Some noerr cache_inv_update [OF vinv, of k e] cache_inv_delete [OF vinv, of k]
      by (auto simp: merge_entry_def e_def [symmetric] cache_coins_update cache_coins_delete)
  qed
qed (use vinv in \<open>simp add: merge_entry_def\<close>)

lemma apply_batch_Cons:
  "k \<notin> fst ` set m \<Longrightarrow>
   apply_batch ((k, it) # m) C = apply_batch m (if is_dirty it then C(k := entry_coin it) else C)"
proof
  fix outpoint
  assume "k \<notin> fst ` set m"
  then have "map_of m k = None" by (simp add: map_of_eq_None_iff)
  then show "apply_batch ((k, it) # m) C outpoint =
      apply_batch m (if is_dirty it then C(k := entry_coin it) else C) outpoint"
    by (cases "outpoint = k") (simp_all add: apply_batch_def split: option.split)
qed

lemma batch_ok_Cons:
  "batch_ok C ((k, it) # m) \<Longrightarrow>
   k \<notin> fst ` set m \<and> (is_dirty it \<longrightarrow> is_fresh it \<longrightarrow> C k = None) \<and>
   batch_ok (if is_dirty it then C(k := entry_coin it) else C) m"
  by (auto simp: batch_ok_def) force+

lemma merge_entries_cache:
  assumes "cache_inv vinv coins c" and "batch_ok (cache_coins coins c) m"
  shows "\<exists>c'. merge_entries usage c m = Inr c' \<and> cache_inv vinv coins c' \<and>
    cache_coins coins c' = apply_batch m (cache_coins coins c)"
  using assms
proof (induction m arbitrary: c)
  case Nil
  then show ?case by (simp add: apply_batch_def)
next
  case (Cons a m)
  obtain k it where a: "a = (k, it)" by fastforce
  note ok = batch_ok_Cons [OF Cons.prems(2) [unfolded a]]
  from ok have "is_dirty it \<Longrightarrow> is_fresh it \<Longrightarrow> cache_coins coins c k = None" by simp
  from merge_entry_cache [OF Cons.prems(1) this, where usage = usage] obtain c1 where
    c1: "merge_entry usage c k it = Inr c1" "cache_inv vinv coins c1"
      "cache_coins coins c1 = (if is_dirty it then (cache_coins coins c)(k := entry_coin it)
                               else cache_coins coins c)" by blast
  have "batch_ok (cache_coins coins c1) m" using ok c1(3) by simp
  from Cons.IH [OF c1(2) this] show ?case
    using c1(1,3) ok by (simp add: a apply_batch_Cons)
qed

section \<open>Operations of a cache over a lawful view\<close>

context lawful_view
begin

lemma FetchCoin_spec:
  assumes "cache_inv vinv coins c" and "FetchCoin usage V c k = (r, c')"
  shows "cache_inv vinv coins c'" and "cache_coins coins c' = cache_coins coins c"
    and "cache_best best c' = cache_best best c" and "map_of (cacheCoins c') k = r"
    and "r = None \<Longrightarrow> cache_coins coins c k = None"
    and "r = Some e \<Longrightarrow> cache_coins coins c k = entry_coin e \<and> entry_ok (coins (cv_base c') k) e"
proof -
  have base: "vinv (cv_base c)" using assms(1) by (simp add: cache_inv_def)
  obtain q b where q: "view_GetCoin V (cv_base c) k = (q, b)" by fastforce
  note law = get_coin [OF base q]
  note same = cache_base_same [OF assms(1), of b]
  define e1 where "e1 x = \<lparr>ce_coin = x, ce_flags = (if IsSpent x then FRESH else 0)\<rparr>" for x
  have e1: "entry_ok (Some x) (e1 x)" "entry_coin (e1 x) = Some x" if "q = Some x" for x
    using unspent [OF base, of k x] law that
    by (auto simp: e1_def entry_ok_def entry_coin_def cache_flag_simps)
  have "cache_inv vinv coins c' \<and> cache_coins coins c' = cache_coins coins c \<and>
    cache_best best c' = cache_best best c \<and> map_of (cacheCoins c') k = r \<and>
    (r = None \<longrightarrow> cache_coins coins c k = None) \<and>
    (\<forall>e. r = Some e \<longrightarrow> cache_coins coins c k = entry_coin e)"
  proof (cases "map_of (cacheCoins c) k")
    case (Some e)
    then show ?thesis using assms by (auto simp: FetchCoin_def cache_coins_def)
  next
    case None
    then have below: "cache_coins coins c k = q" using law by (simp add: cache_coins_def)
    show ?thesis
    proof (cases q)
      case q_none: None
      then show ?thesis
        using assms(2) None q law same below by (auto simp: FetchCoin_def cache_best_def)
    next
      case (Some x)
      have "entry_ok (coins (cv_base (c\<lparr>cv_base := b\<rparr>)) k) (e1 x)"
        using law e1 [OF Some] Some by simp
      note upd = cache_inv_update [OF same(1) this]
      have "c' = c\<lparr>cv_base := b, cacheCoins := AList.update k (e1 x) (cacheCoins c),
          cachedCoinsUsage := cachedCoinsUsage c + usage x\<rparr>" "r = Some (e1 x)"
        using assms(2) None q Some by (auto simp: FetchCoin_def e1_def Let_def)
      moreover have "cache_coins coins (c\<lparr>cv_base := b, cacheCoins := AList.update k (e1 x) (cacheCoins c)\<rparr>)
          = cache_coins coins c"
        using cache_coins_update [where coins = coins and c = "c\<lparr>cv_base := b\<rparr>" and k = k and e = "e1 x"] same(2) law e1(2) [OF Some] below Some
        by (simp add: fun_upd_idem)
      ultimately show ?thesis
        using upd law same(2) e1(2) [OF Some] below Some by (simp add: cache_best_def)
    qed
  qed
  then show "cache_inv vinv coins c'" "cache_coins coins c' = cache_coins coins c"
    "cache_best best c' = cache_best best c" "map_of (cacheCoins c') k = r"
    "r = None \<Longrightarrow> cache_coins coins c k = None"
    "r = Some e \<Longrightarrow> cache_coins coins c k = entry_coin e \<and> entry_ok (coins (cv_base c') k) e"
    by (auto dest: cache_entry_ok)
qed

lemma cache_GetCoin_spec:
  assumes "cache_inv vinv coins c" and "cache_GetCoin usage V c k = (r, c')"
  shows "r = cache_coins coins c k \<and> cache_inv vinv coins c' \<and>
    cache_coins coins c' = cache_coins coins c \<and> cache_best best c' = cache_best best c"
proof -
  obtain q c1 where f: "FetchCoin usage V c k = (q, c1)" by fastforce
  note spec = FetchCoin_spec [OF assms(1) f]
  show ?thesis
    using assms(2) f spec by (cases q) (auto simp: cache_GetCoin_def entry_coin_def)
qed

lemma HaveCoin_spec:
  assumes "cache_inv vinv coins c" and "HaveCoin usage V c k = (r, c')"
  shows "r = (cache_coins coins c k \<noteq> None) \<and> cache_inv vinv coins c' \<and>
    cache_coins coins c' = cache_coins coins c \<and> cache_best best c' = cache_best best c"
proof -
  obtain q c1 where f: "FetchCoin usage V c k = (q, c1)" by fastforce
  note spec = FetchCoin_spec [OF assms(1) f]
  show ?thesis
    using assms(2) f spec by (cases q) (auto simp: HaveCoin_def entry_coin_def)
qed

lemma AccessCoin_spec:
  assumes "cache_inv vinv coins c" and "AccessCoin usage V c k = (x, c')"
  shows "(if IsSpent x then None else Some x) = cache_coins coins c k \<and> cache_inv vinv coins c' \<and>
    cache_coins coins c' = cache_coins coins c \<and> cache_best best c' = cache_best best c"
proof -
  obtain q c1 where f: "FetchCoin usage V c k = (q, c1)" by fastforce
  note spec = FetchCoin_spec [OF assms(1) f]
  show ?thesis
    using assms(2) f spec by (cases q) (auto simp: AccessCoin_def entry_coin_def)
qed

lemma SpendCoin_spec:
  assumes "cache_inv vinv coins c" and "SpendCoin usage V c k = (r, c')"
  shows "cache_inv vinv coins c' \<and> cache_coins coins c' = (cache_coins coins c)(k := None) \<and>
    cache_best best c' = cache_best best c \<and>
    (\<forall>x. cache_coins coins c k = Some x \<longrightarrow> r = Some x)"
proof -
  obtain q c1 where f: "FetchCoin usage V c k = (q, c1)" by fastforce
  note spec = FetchCoin_spec [OF assms(1) f]
  show ?thesis
  proof (cases q)
    case None
    then show ?thesis using assms(2) f spec by (auto simp: SpendCoin_def fun_upd_idem)
  next
    case (Some e)
    define e' where "e' = \<lparr>ce_coin = Coin_Clear (ce_coin e), ce_flags = ce_flags e OR DIRTY\<rparr>"
    note e = spec(6) [OF Some]
    have "entry_coin e' = None" by (simp add: e'_def entry_coin_def)
    moreover have "entry_ok (coins (cv_base c1) k) e'" if "\<not> is_fresh e"
      using that by (simp add: entry_ok_def e'_def cache_flag_simps)
    moreover have "coins (cv_base c1) k = None" if "is_fresh e"
      using e that by (simp add: entry_ok_def)
    ultimately show ?thesis
      using assms(2) f spec(1-3) Some e cache_inv_delete [OF spec(1)] cache_inv_update [OF spec(1)]
      by (auto simp: SpendCoin_def Let_def e'_def [symmetric] entry_coin_Some cache_coins_update
          cache_coins_delete usage_last)
  qed
qed

lemma cache_GetBestBlock_spec:
  assumes "cache_inv vinv coins c" and "cache_GetBestBlock V c = (h, c')"
  shows "h = cache_best best c \<and> cache_inv vinv coins c' \<and>
    cache_coins coins c' = cache_coins coins c \<and> cache_best best c' = cache_best best c"
proof (cases "cv_hashBlock c = uint256_null")
  case True
  have base: "vinv (cv_base c)" using assms(1) by (simp add: cache_inv_def)
  obtain h1 b where q: "view_GetBestBlock V (cv_base c) = (h1, b)" by fastforce
  note law = get_best [OF base q]
  show ?thesis
    using assms(2) True q law cache_base_same [OF assms(1), of b]
    by (auto simp: cache_GetBestBlock_def cache_best_def)
next
  case False
  then show ?thesis using assms by (auto simp: cache_GetBestBlock_def cache_best_def)
qed

lemma cache_batch_ok: "cache_inv vinv coins c \<Longrightarrow> batch_ok (coins (cv_base c)) (cacheCoins c)"
  by (auto simp: batch_ok_def cache_inv_def entry_ok_def)

lemma cache_coins_batch:
  assumes "cache_inv vinv coins c"
  shows "apply_batch (cacheCoins c) (coins (cv_base c)) = cache_coins coins c"
proof
  fix k
  show "apply_batch (cacheCoins c) (coins (cv_base c)) k = cache_coins coins c k"
  proof (cases "map_of (cacheCoins c) k")
    case (Some e)
    from cache_entry_ok [OF assms Some] Some show ?thesis
      by (simp add: apply_batch_def cache_coins_def entry_ok_def)
  qed (simp add: apply_batch_def cache_coins_def)
qed

text \<open>A flush moves the changes down and leaves an empty cache with the same coins.\<close>

lemma Flush_spec:
  assumes "cache_inv vinv coins c" and "cv_hashBlock c \<noteq> uint256_null"
  shows "\<exists>c'. Flush V c = Inr (True, c') \<and> cache_inv vinv coins c' \<and> cacheCoins c' = [] \<and>
    cache_coins coins c' = cache_coins coins c \<and> coins (cv_base c') = cache_coins coins c \<and>
    best (cv_base c') = cv_hashBlock c \<and> cache_best best c' = cache_best best c"
proof -
  have base: "vinv (cv_base c)" using assms(1) by (simp add: cache_inv_def)
  from batch_write [OF base cache_batch_ok [OF assms(1)] assms(2)] obtain b where
    b: "view_BatchWrite V (cv_base c) (cacheCoins c) (cv_hashBlock c) = Inr (True, b)" "vinv b"
      "coins b = apply_batch (cacheCoins c) (coins (cv_base c))" "best b = cv_hashBlock c" by blast
  then show ?thesis
    using cache_coins_batch [OF assms(1)] assms(2)
    by (auto simp: Flush_def cache_inv_def cache_best_def cache_coins_def fun_eq_iff)
qed

lemma Uncache_spec:
  assumes "cache_inv vinv coins c"
  shows "cache_inv vinv coins (Uncache usage c k) \<and>
    cache_coins coins (Uncache usage c k) = cache_coins coins c"
proof (cases "map_of (cacheCoins c) k")
  case (Some e)
  have "coins (cv_base c) k = cache_coins coins c k" if "ce_flags e = 0"
    using cache_entry_ok [OF assms Some] that Some
    by (simp add: entry_ok_def is_dirty_def cache_coins_def)
  then show ?thesis
    using assms Some cache_inv_delete [OF assms, of k]
    by (auto simp: Uncache_def cache_coins_delete fun_upd_idem)
qed (use assms in \<open>simp add: Uncache_def\<close>)

text \<open>A cache over the view keeps the contract.\<close>

lemma cache_lawful:
  "lawful_view (cache_view usage V) (cache_inv vinv coins) (cache_coins coins) (cache_best best)"
proof
  fix v r v' outpoint
  assume "cache_inv vinv coins v" "view_GetCoin (cache_view usage V) v outpoint = (r, v')"
  then show "r = cache_coins coins v outpoint \<and> cache_inv vinv coins v' \<and>
      cache_coins coins v' = cache_coins coins v \<and> cache_best best v' = cache_best best v"
    by (intro cache_GetCoin_spec) (simp_all add: cache_view_def)
next
  fix v h v'
  assume "cache_inv vinv coins v" "view_GetBestBlock (cache_view usage V) v = (h, v')"
  then show "h = cache_best best v \<and> cache_inv vinv coins v' \<and>
      cache_coins coins v' = cache_coins coins v \<and> cache_best best v' = cache_best best v"
    by (intro cache_GetBestBlock_spec) (simp_all add: cache_view_def)
next
  fix v outpoint x
  assume "cache_inv vinv coins v" "cache_coins coins v outpoint = Some x"
  then show "\<not> IsSpent x"
    using unspent by (auto simp: cache_coins_def cache_inv_def entry_coin_Some split: option.splits)
next
  fix v m and h :: bytes
  assume "cache_inv vinv coins v" "batch_ok (cache_coins coins v) m" "h \<noteq> uint256_null"
  then show "\<exists>v'. view_BatchWrite (cache_view usage V) v m h = Inr (True, v') \<and>
      cache_inv vinv coins v' \<and> cache_coins coins v' = apply_batch m (cache_coins coins v) \<and>
      cache_best best v' = h"
    using merge_entries_cache [of vinv coins v m usage]
    by (auto simp: cache_view_def cache_BatchWrite_def cache_best_def)
qed

end

section \<open>The memory counter\<close>

text \<open>\<^verbatim>\<open>cachedCoinsUsage\<close> is the sum over the entries (modulo the size of the counter), for a measure
  under which a cleared coin uses no memory.\<close>

definition map_usage :: "coin_usage \<Rightarrow> CCoinsMap \<Rightarrow> 64 word" where
  "map_usage usage m = sum_list (map (\<lambda>(k, e). usage (ce_coin e)) m)"

definition usage_ok :: "coin_usage \<Rightarrow> 'v CCoinsViewCache \<Rightarrow> bool" where
  "usage_ok usage c \<longleftrightarrow> cachedCoinsUsage c = map_usage usage (cacheCoins c)"

definition entry_usage :: "coin_usage \<Rightarrow> CCoinsMap \<Rightarrow> COutPoint \<Rightarrow> 64 word" where
  "entry_usage usage m k = (case map_of m k of None \<Rightarrow> 0 | Some e \<Rightarrow> usage (ce_coin e))"

lemma map_usage_update:
  "distinct (map fst m) \<Longrightarrow>
   map_usage usage (AList.update k e m) = map_usage usage m - entry_usage usage m k + usage (ce_coin e)"
  by (induction m) (auto simp: map_usage_def entry_usage_def)

lemma map_usage_delete:
  "distinct (map fst m) \<Longrightarrow>
   map_usage usage (AList.delete k m) = map_usage usage m - entry_usage usage m k"
proof (induction m)
  case (Cons a m)
  then show ?case
    by (cases "k \<in> fst ` set m")
       (auto simp: map_usage_def entry_usage_def map_of_eq_None_iff image_iff AList.delete_eq
          split: option.splits)
qed (simp add: map_usage_def entry_usage_def)

lemmas usage_simps = usage_ok_def map_usage_update map_usage_delete entry_usage_def

lemma AddCoin_usage:
  assumes "usage_ok usage c" and "distinct (map fst (cacheCoins c))"
    and "AddCoin usage c k x overwrite = Inr c'"
  shows "usage_ok usage c'"
  using assms by (auto simp: AddCoin_def usage_simps Let_def split: if_splits option.splits)

lemma merge_entry_usage:
  assumes "usage_ok usage c" and "distinct (map fst (cacheCoins c))" and "merge_entry usage c k it = Inr c'"
  shows "usage_ok usage c' \<and> distinct (map fst (cacheCoins c'))"
  using assms by (auto simp: merge_entry_def usage_simps split: if_splits option.splits)

lemma merge_entries_usage:
  assumes "usage_ok usage c" and "distinct (map fst (cacheCoins c))" and "merge_entries usage c m = Inr c'"
  shows "usage_ok usage c'"
  using assms
proof (induction m arbitrary: c)
  case (Cons a m)
  obtain k it where a: "a = (k, it)" by fastforce
  from Cons.prems(3) a obtain c1 where
    "merge_entry usage c k it = Inr c1" "merge_entries usage c1 m = Inr c'" by (auto split: sum.splits)
  with merge_entry_usage [OF Cons.prems(1,2) this(1)] Cons.IH show ?case by blast
qed simp

lemma FetchCoin_usage:
  assumes "usage_ok usage c" and "distinct (map fst (cacheCoins c))" and "FetchCoin usage V c k = (r, c')"
  shows "usage_ok usage c' \<and> distinct (map fst (cacheCoins c'))"
  using assms by (auto simp: FetchCoin_def usage_simps Let_def split: option.splits prod.splits)

lemma SpendCoin_usage:
  assumes "usage_ok usage c" and "distinct (map fst (cacheCoins c))"
    and "\<And>x. usage (Coin_Clear x) = 0" and "SpendCoin usage V c k = (r, c')"
  shows "usage_ok usage c'"
proof -
  obtain q c1 where f: "FetchCoin usage V c k = (q, c1)" by fastforce
  note u = FetchCoin_usage [OF assms(1,2) f]
  have q: "map_of (cacheCoins c1) k = q" using f by (auto simp: FetchCoin_def Let_def split: option.splits prod.splits)
  show ?thesis
    using assms(3,4) f u q by (cases q) (auto simp: SpendCoin_def usage_simps Let_def)
qed

lemma Flush_usage: "Flush V c = Inr (ok, c') \<Longrightarrow> usage_ok usage c'"
  by (auto simp: Flush_def usage_ok_def map_usage_def split: sum.splits)

lemma Uncache_usage:
  assumes "usage_ok usage c" and "distinct (map fst (cacheCoins c))"
  shows "usage_ok usage (Uncache usage c k)"
  using assms by (auto simp: Uncache_def usage_simps split: option.splits)

end
