(* ===== verification/CoinsDB.thy ===== *)
theory CoinsDB
  imports CoinsProps
begin

text \<open>
  The coin database is a lawful view, the views the node stacks on it are lawful, and a write of the
  database that stops between two batches can be repeated.  The counter of the memory a cache uses is
  the sum over its entries.
\<close>

section \<open>The database is a lawful view\<close>

definition db_inv :: "coins_db \<Rightarrow> bool" where
  "db_inv d \<longleftrightarrow> (\<forall>outpoint x. db_coins d outpoint = Some x \<longrightarrow> \<not> IsSpent x) \<and> db_heads d = None"

lemma fold_WriteBatch: "fold WriteBatch batches d = fold apply_op (concat batches) d"
  by (induction batches arbitrary: d) (simp_all add: WriteBatch_def)

lemma concat_write_batches:
  "concat (write_batches size_estimate batch_size h batch m) =
   batch @ concat (map entry_ops m) @ [EraseHeads, WriteBest h]"
  by (induction m arbitrary: batch) (simp_all add: Let_def)

lemma entry_ops_apply:
  "fold apply_op (entry_ops (k, it)) d =
   d\<lparr>db_coins := if is_dirty it then (db_coins d)(k := entry_coin it) else db_coins d\<rparr>"
  by (simp add: entry_ops_def entry_coin_def)

lemma entries_apply:
  "distinct (map fst m) \<Longrightarrow>
   fold apply_op (concat (map entry_ops m)) d = d\<lparr>db_coins := apply_batch m (db_coins d)\<rparr>"
proof (induction m arbitrary: d)
  case Nil
  have "apply_batch [] C = C" for C by (rule ext) (simp add: apply_batch_def)
  then show ?case by simp
next
  case (Cons a m)
  obtain k it where a: "a = (k, it)" by fastforce
  then have "k \<notin> fst ` set m" using Cons.prems by simp
  then show ?case using Cons.IH Cons.prems by (simp add: a entry_ops_apply apply_batch_Cons)
qed

lemma db_BatchWrite_result:
  assumes "h \<noteq> uint256_null" and "db_old_tip d h = Inr old_tip" and "distinct (map fst m)"
  shows "db_BatchWrite size_estimate batch_size d m h =
    Inr (True, d\<lparr>db_coins := apply_batch m (db_coins d), db_best := Some h, db_heads := None\<rparr>)"
  using assms
  by (simp add: db_BatchWrite_def db_batches_def fold_WriteBatch concat_write_batches entries_apply)

lemma db_old_tip_inv: "db_heads d = None \<Longrightarrow> db_old_tip d h = Inr (db_GetBestBlock d)"
  by (simp add: db_old_tip_def db_GetHeadBlocks_def)

interpretation coins_base: lawful_view "db_view size_estimate batch_size" db_inv db_coins db_GetBestBlock
  for size_estimate batch_size
proof
  fix v outpoint r v'
  assume "db_inv v" "view_GetCoin (db_view size_estimate batch_size) v outpoint = (r, v')"
  then show "r = db_coins v outpoint \<and> db_inv v' \<and> db_coins v' = db_coins v \<and>
      db_GetBestBlock v' = db_GetBestBlock v"
    by (auto simp: db_view_def db_GetCoin_def)
next
  fix v h v'
  assume "db_inv v" "view_GetBestBlock (db_view size_estimate batch_size) v = (h, v')"
  then show "h = db_GetBestBlock v \<and> db_inv v' \<and> db_coins v' = db_coins v \<and>
      db_GetBestBlock v' = db_GetBestBlock v"
    by (auto simp: db_view_def)
next
  fix v outpoint x
  assume "db_inv v" "db_coins v outpoint = Some x"
  then show "\<not> IsSpent x" by (simp add: db_inv_def)
next
  fix v m and h :: bytes
  assume a: "db_inv v" "batch_ok (db_coins v) m" "h \<noteq> uint256_null"
  then have "db_old_tip v h = Inr (db_GetBestBlock v)" "distinct (map fst m)"
    by (simp_all add: db_old_tip_inv db_inv_def batch_ok_def)
  note w = db_BatchWrite_result [OF a(3) this, of size_estimate batch_size]
  have "\<not> IsSpent x" if "apply_batch m (db_coins v) outpoint = Some x" for outpoint x
    using that a(1)
    by (auto simp: apply_batch_def db_inv_def entry_coin_Some split: option.splits if_splits)
  then show "\<exists>v'. view_BatchWrite (db_view size_estimate batch_size) v m h = Inr (True, v') \<and>
      db_inv v' \<and> db_coins v' = apply_batch m (db_coins v) \<and> db_GetBestBlock v' = h"
    using w by (auto simp: db_view_def db_inv_def db_GetBestBlock_def)
qed

text \<open>The cache of the chain state over the database, and the cache a block is connected in.\<close>

interpretation coins_tip: lawful_view "cache_view usage (db_view size_estimate batch_size)"
    "cache_inv db_inv db_coins" "cache_coins db_coins" "cache_best db_GetBestBlock"
  for usage size_estimate batch_size
  by (rule coins_base.cache_lawful)

interpretation coins_block: lawful_view
    "cache_view usage (cache_view usage (db_view size_estimate batch_size))"
    "cache_inv (cache_inv db_inv db_coins) (cache_coins db_coins)"
    "cache_coins (cache_coins db_coins)" "cache_best (cache_best db_GetBestBlock)"
  for usage size_estimate batch_size
  by (rule coins_tip.cache_lawful)

section \<open>Interrupted writes\<close>

lemma apply_batch_twice:
  assumes "distinct (map fst m)"
  shows "apply_batch m (apply_batch (take n m) C) = apply_batch m C"
proof
  fix k
  have "map_of m k = Some e" if "map_of (take n m) k = Some e" for e
    using that assms by (metis in_set_takeD map_of_SomeD map_of_eq_Some_iff)
  then show "apply_batch m (apply_batch (take n m) C) k = apply_batch m C k"
    by (cases "map_of (take n m) k") (simp_all add: apply_batch_def split: option.split)
qed

text \<open>The batches written before the last one hold a prefix of the entries.\<close>

lemma write_batches_prefix:
  assumes "n < length (write_batches size_estimate batch_size h batch m)"
  shows "n = 0 \<or> (\<exists>k. concat (take n (write_batches size_estimate batch_size h batch m)) =
    batch @ concat (map entry_ops (take k m)))"
  using assms
proof (induction m arbitrary: batch n)
  case (Cons it m)
  let ?b = "batch @ entry_ops it"
  show ?case
  proof (cases "size_estimate ?b > batch_size")
    case True
    show ?thesis
    proof (cases n)
      case (Suc n')
      have "n' < length (write_batches size_estimate batch_size h [] m)"
        using Cons.prems True Suc by (simp add: Let_def)
      from Cons.IH [OF this] have "\<exists>k. concat (take n' (write_batches size_estimate batch_size h [] m)) =
          concat (map entry_ops (take k m))"
        by (auto intro: exI [of _ 0])
      then obtain k where "concat (take n' (write_batches size_estimate batch_size h [] m)) =
          concat (map entry_ops (take k m))" by blast
      then show ?thesis using True Suc by (auto simp: Let_def intro!: exI [of _ "Suc k"])
    qed simp
  next
    case False
    then have "n < length (write_batches size_estimate batch_size h ?b m)"
      using Cons.prems by (simp add: Let_def)
    from Cons.IH [OF this] show ?thesis
      using False by (auto simp: Let_def intro: exI [of _ "Suc k" for k])
  qed
qed simp

lemma interrupted_write:
  assumes "db_batches size_estimate batch_size d m h = Inr batches" and "distinct (map fst m)"
    and "db_old_tip d h = Inr old_tip" and "0 < n" and "n < length batches"
  shows "\<exists>k. fold WriteBatch (take n batches) d =
    d\<lparr>db_coins := apply_batch (take k m) (db_coins d), db_best := None, db_heads := Some [h, old_tip]\<rparr>"
proof -
  have b: "batches = write_batches size_estimate batch_size h [EraseBest, WriteHeads [h, old_tip]] m"
    using assms(1,3) by (simp add: db_batches_def split: if_splits)
  from write_batches_prefix [of n size_estimate batch_size h "[EraseBest, WriteHeads [h, old_tip]]" m]
  obtain k where k: "concat (take n batches) =
      [EraseBest, WriteHeads [h, old_tip]] @ concat (map entry_ops (take k m))"
    using assms(4,5) b by auto
  have "distinct (map fst (take k m))" using assms(2) by (metis distinct_take take_map)
  then show ?thesis by (auto simp: fold_WriteBatch k entries_apply intro!: exI [of _ k])
qed

lemma write_repeated:
  assumes "db_batches size_estimate batch_size d m h = Inr batches" and "distinct (map fst m)"
    and "db_old_tip d h = Inr old_tip"
  shows "db_BatchWrite size_estimate' batch_size' (fold WriteBatch (take n batches) d) m h =
    db_BatchWrite size_estimate batch_size d m h"
proof -
  have h: "h \<noteq> uint256_null" using assms(1) by (auto simp: db_batches_def split: if_splits)
  let ?d = "fold WriteBatch (take n batches) d"
  note full = db_BatchWrite_result [OF h assms(3,2), of size_estimate batch_size]
  have "\<exists>k tip best heads. ?d = d\<lparr>db_coins := apply_batch (take k m) (db_coins d), db_best := best, db_heads := heads\<rparr>
      \<and> db_old_tip ?d h = Inr tip"
  proof (cases "n = 0")
    case True
    have "apply_batch [] C = C" for C by (rule ext) (simp add: apply_batch_def)
    then show ?thesis
      using True assms(3) by (intro exI [of _ 0] exI [of _ old_tip] exI [of _ "db_best d"] exI [of _ "db_heads d"]) simp
  next
    case False
    show ?thesis
    proof (cases "n < length batches")
      case True
      from interrupted_write [OF assms _ this] False obtain k where
        "?d = d\<lparr>db_coins := apply_batch (take k m) (db_coins d), db_best := None, db_heads := Some [h, old_tip]\<rparr>"
        by auto
      then show ?thesis by (auto simp: db_old_tip_def db_GetBestBlock_def db_GetHeadBlocks_def)
    next
      case False
      then have "?d = d\<lparr>db_coins := apply_batch m (db_coins d), db_best := Some h, db_heads := None\<rparr>"
        using full assms(1) by (simp add: db_BatchWrite_def)
      then show ?thesis using h
        by (intro exI [of _ "length m"] exI [of _ h] exI [of _ "Some h"] exI [of _ None])
           (simp add: db_old_tip_def db_GetBestBlock_def)
    qed
  qed
  then obtain k tip best heads where
    "?d = d\<lparr>db_coins := apply_batch (take k m) (db_coins d), db_best := best, db_heads := heads\<rparr>"
    "db_old_tip ?d h = Inr tip" by blast
  with db_BatchWrite_result [OF h this(2) assms(2), of size_estimate' batch_size'] full show ?thesis
    by (simp add: apply_batch_twice [OF assms(2)])
qed

text \<open>C12: a write of the coin database that stops after some of its batches leaves a database marked
  as being in transition from the old tip to the new one, and repeating the write, whatever the sizes
  of the batches are then, gives the database of an uninterrupted write.\<close>

theorem coin_write_crash_safe:
  assumes "db_batches size_estimate batch_size d m h = Inr batches" and "distinct (map fst m)"
    and "db_best d = Some old_tip" and "old_tip \<noteq> uint256_null" and "0 < n" and "n < length batches"
  shows "db_GetBestBlock (fold WriteBatch (take n batches) d) = uint256_null \<and>
    db_GetHeadBlocks (fold WriteBatch (take n batches) d) = [h, old_tip] \<and>
    db_BatchWrite size_estimate' batch_size' (fold WriteBatch (take n batches) d) m h =
      Inr (True, d\<lparr>db_coins := apply_batch m (db_coins d), db_best := Some h, db_heads := None\<rparr>)"
proof -
  have tip: "db_old_tip d h = Inr old_tip"
    using assms(3,4) by (simp add: db_old_tip_def db_GetBestBlock_def)
  have h: "h \<noteq> uint256_null" using assms(1) by (auto simp: db_batches_def split: if_splits)
  from interrupted_write [OF assms(1,2) tip assms(5,6)] write_repeated [OF assms(1,2) tip]
    db_BatchWrite_result [OF h tip assms(2)]
  show ?thesis by (auto simp: db_GetBestBlock_def db_GetHeadBlocks_def)
qed

text \<open>A database with one coin, and two changes of which each fills a batch.\<close>

definition sample_point :: "byte \<Rightarrow> COutPoint" where
  "sample_point x = \<lparr>op_hash = replicate 32 x, op_n = 0\<rparr>"

definition sample_coin :: "64 word \<Rightarrow> Coin" where
  "sample_coin v = \<lparr>coin_out = \<lparr>nValue = v, scriptPubKey = [0x51]\<rparr>, fCoinBase = False, coin_nHeight = 7\<rparr>"

definition sample_db :: coins_db where
  "sample_db = \<lparr>db_coins = (\<lambda>_. None)(sample_point 1 \<mapsto> sample_coin 50), db_best = Some (replicate 32 9),
     db_heads = None\<rparr>"

definition sample_changes :: CCoinsMap where
  "sample_changes =
     [(sample_point 1, \<lparr>ce_coin = coinEmpty, ce_flags = DIRTY\<rparr>),
      (sample_point 2, \<lparr>ce_coin = sample_coin 20, ce_flags = DIRTY OR FRESH\<rparr>)]"

theorem coin_write_crash_safe_witness:
  "length (write_batches length 0 (replicate 32 8) [EraseBest, WriteHeads [replicate 32 8, replicate 32 9]]
     sample_changes) = 3 \<and>
   db_BatchWrite length 100 (fold WriteBatch (take 1 (write_batches length 0 (replicate 32 8)
     [EraseBest, WriteHeads [replicate 32 8, replicate 32 9]] sample_changes)) sample_db)
     sample_changes (replicate 32 8) =
   Inr (True, sample_db\<lparr>db_coins := apply_batch sample_changes (db_coins sample_db),
     db_best := Some (replicate 32 8), db_heads := None\<rparr>)"
proof -
  let ?b = "write_batches length 0 (replicate 32 8)
      [EraseBest, WriteHeads [replicate 32 8, replicate 32 9]] sample_changes"
  have nz: "replicate 32 (8 :: byte) \<noteq> uint256_null" "replicate 32 (9 :: byte) \<noteq> uint256_null"
    by (simp_all add: uint256_null_def replicate_eq_replicate)
  have len: "length ?b = 3"
    by (simp add: sample_changes_def entry_ops_def cache_flag_simps sample_coin_def IsSpent_def TxOut_IsNull_def)
  have "db_batches length 0 sample_db sample_changes (replicate 32 8) = Inr ?b"
    using nz by (simp add: db_batches_def db_old_tip_def db_GetBestBlock_def sample_db_def)
  moreover have "distinct (map fst sample_changes)"
    by (simp add: sample_changes_def sample_point_def replicate_eq_replicate)
  moreover have "db_best sample_db = Some (replicate 32 9)" by (simp add: sample_db_def)
  ultimately have "db_BatchWrite length 100 (fold WriteBatch (take 1 ?b) sample_db) sample_changes
      (replicate 32 8) = Inr (True, sample_db\<lparr>db_coins := apply_batch sample_changes (db_coins sample_db),
      db_best := Some (replicate 32 8), db_heads := None\<rparr>)"
    using coin_write_crash_safe [of length 0 sample_db sample_changes "replicate 32 8" ?b
        "replicate 32 9" 1 length 100] nz(2) len by simp
  with len show ?thesis by blast
qed

section \<open>The stack of views\<close>

text \<open>The cache a block is connected in, over the cache of the chain state, over the database.\<close>

type_synonym block_view = "coins_db CCoinsViewCache CCoinsViewCache"

abbreviation tip_ops :: "coin_usage \<Rightarrow> (db_op list \<Rightarrow> nat) \<Rightarrow> nat \<Rightarrow> coins_db CCoinsViewCache coins_view" where
  "tip_ops usage size_estimate batch_size \<equiv> cache_view usage (db_view size_estimate batch_size)"

abbreviation block_view_ok :: "block_view \<Rightarrow> bool" where
  "block_view_ok \<equiv> cache_inv (cache_inv db_inv db_coins) (cache_coins db_coins)"

abbreviation block_view_coins :: "block_view \<Rightarrow> COutPoint \<Rightarrow> Coin option" where
  "block_view_coins \<equiv> cache_coins (cache_coins db_coins)"

text \<open>C11: on the view a block is connected in, looking a coin up, spending and adding one are the lookup
  and the updates of one map from outpoints to unspent coins, whatever the two caches hold, and each
  keeps the caches in order.\<close>

theorem coin_view_operations:
  assumes "block_view_ok view"
    and "\<not> IsSpent x" and "\<not> IsUnspendable (scriptPubKey (coin_out x))"
    and "overwrite \<or> block_view_coins view k = None"
    and "HaveCoin usage (tip_ops usage size_estimate batch_size) view k = (found, view1)"
    and "SpendCoin usage (tip_ops usage size_estimate batch_size) view k = (spent, view2)"
  shows "found = (block_view_coins view k \<noteq> None) \<and>
    block_view_ok view1 \<and> block_view_coins view1 = block_view_coins view \<and>
    block_view_ok view2 \<and> block_view_coins view2 = (block_view_coins view)(k := None) \<and>
    (\<exists>view3. AddCoin usage view k x overwrite = Inr view3 \<and>
      block_view_ok view3 \<and> block_view_coins view3 = (block_view_coins view)(k \<mapsto> x))"
  using coins_tip.HaveCoin_spec [OF assms(1,5)] coins_tip.SpendCoin_spec [OF assms(1,6)]
    AddCoin_cache [OF assms(1,2,4), of usage undefined] assms(3)
  by auto

lemma sample_coin_simps [simp]:
  "\<not> IsSpent (sample_coin 50)" "\<not> IsSpent (sample_coin 20)"
  "\<not> IsUnspendable (scriptPubKey (coin_out (sample_coin v)))"
  "sample_point 1 \<noteq> sample_point 2" "sample_point 2 \<noteq> sample_point 1"
  by (simp_all add: sample_coin_def IsSpent_def TxOut_IsNull_def IsUnspendable_def sample_point_def
      replicate_eq_replicate)

lemma sample_view_ok:
  "block_view_ok (SetBestBlock (CoinsViewCache (CoinsViewCache sample_db)) h)"
  by (auto simp: cache_inv_def SetBestBlock_def CoinsViewCache_def db_inv_def sample_db_def)

theorem coin_view_operations_witness:
  "\<exists>view3. AddCoin (\<lambda>_. 0) (SetBestBlock (CoinsViewCache (CoinsViewCache sample_db)) (replicate 32 8))
      (sample_point 2) (sample_coin 20) False = Inr view3 \<and>
    block_view_coins view3 = [sample_point 1 \<mapsto> sample_coin 50, sample_point 2 \<mapsto> sample_coin 20]"
proof -
  let ?v = "SetBestBlock (CoinsViewCache (CoinsViewCache sample_db)) (replicate 32 8)"
  let ?V = "tip_ops (\<lambda>_. 0) length 0"
  have c: "block_view_coins ?v = [sample_point 1 \<mapsto> sample_coin 50]"
    by (rule ext) (simp add: cache_coins_def SetBestBlock_def CoinsViewCache_def sample_db_def)
  have "False \<or> block_view_coins ?v (sample_point 2) = None" using c by simp
  from coin_view_operations [OF sample_view_ok sample_coin_simps(2,3) this prod.collapse [symmetric]
      prod.collapse [symmetric], of "\<lambda>_. 0" length 0] c
  show ?thesis by auto
qed

text \<open>C13: flushing the view of a block into the cache of the chain state and that one into the database
  succeeds, and the database then holds the coins and the best block of the view.\<close>

theorem coin_flush_reaches_database:
  assumes "block_view_ok view" and "cv_hashBlock view \<noteq> uint256_null"
  shows "\<exists>view' tip'. Flush (tip_ops usage size_estimate batch_size) view = Inr (True, view') \<and>
    Flush (db_view size_estimate batch_size) (cv_base view') = Inr (True, tip') \<and>
    db_coins (cv_base tip') = block_view_coins view \<and>
    db_best (cv_base tip') = Some (cv_hashBlock view)"
proof -
  from coins_tip.Flush_spec [OF assms, of usage size_estimate batch_size] obtain view' where
    v: "Flush (tip_ops usage size_estimate batch_size) view = Inr (True, view')" "block_view_ok view'"
      "cache_coins db_coins (cv_base view') = block_view_coins view" by blast
  have h: "cv_hashBlock (cv_base view') = cv_hashBlock view"
    using v(1) by (cases view) (auto simp: Flush_def cache_view_def cache_BatchWrite_def split: sum.splits)
  have "cache_inv db_inv db_coins (cv_base view')" using v(2) by (simp add: cache_inv_def)
  from coins_base.Flush_spec [OF this, of size_estimate batch_size] h assms(2) obtain tip' where
    t: "Flush (db_view size_estimate batch_size) (cv_base view') = Inr (True, tip')"
      "db_coins (cv_base tip') = cache_coins db_coins (cv_base view')"
      "db_GetBestBlock (cv_base tip') = cv_hashBlock view" by auto
  then have "db_best (cv_base tip') = Some (cv_hashBlock view)"
    using assms(2) by (auto simp: db_GetBestBlock_def split: option.splits)
  with v t show ?thesis by auto
qed

theorem coin_flush_reaches_database_witness:
  "\<exists>view' tip'. Flush (tip_ops (\<lambda>_. 0) length 0)
      (SetBestBlock (CoinsViewCache (CoinsViewCache sample_db)) (replicate 32 8)) = Inr (True, view') \<and>
    Flush (db_view length 0) (cv_base view') = Inr (True, tip') \<and>
    db_best (cv_base tip') = Some (replicate 32 8)"
proof -
  let ?v = "SetBestBlock (CoinsViewCache (CoinsViewCache sample_db)) (replicate 32 8)"
  have "cv_hashBlock ?v = replicate 32 8" "replicate 32 (8 :: byte) \<noteq> uint256_null"
    by (simp_all add: SetBestBlock_def uint256_null_def replicate_eq_replicate)
  then show ?thesis
    using coin_flush_reaches_database [OF sample_view_ok, of "replicate 32 8" "\<lambda>_. 0" length 0] by auto
qed

end
