(* ===== verification/UpdateCoins.thy ===== *)
theory UpdateCoins
  imports CoinsDB
begin

text \<open>
  The changes a block makes to the coins and their undoing (\<^verbatim>\<open>UpdateCoins\<close>, \<^verbatim>\<open>ApplyTxInUndo\<close>, the coin
  part of \<^verbatim>\<open>ConnectBlock\<close> and \<^verbatim>\<open>DisconnectBlock\<close> of \<^verbatim>\<open>src/src/validation.cpp\<close>).  A \<^verbatim>\<open>CTxUndo\<close> is its list
  \<^verbatim>\<open>vprevout\<close>.  Disconnecting a block from the view it was connected to gives the coins back.
\<close>

section \<open>Connecting\<close>

text \<open>The loop over the inputs, with the coins moved out of the view.\<close>

fun spend_inputs ::
    "coin_usage \<Rightarrow> 'v coins_view \<Rightarrow> 'v CCoinsViewCache \<Rightarrow> CTxIn list \<Rightarrow>
     coin_error + Coin list \<times> 'v CCoinsViewCache" where
  "spend_inputs usage V c [] = Inr ([], c)"
| "spend_inputs usage V c (txin # ins) =
     (case SpendCoin usage V c (prevout txin) of
        (None, c') \<Rightarrow> Inl InputNotSpent
      | (Some coin, c') \<Rightarrow>
          (case spend_inputs usage V c' ins of
             Inl e \<Rightarrow> Inl e
           | Inr (vprevout, c'') \<Rightarrow> Inr (coin # vprevout, c'')))"

definition UpdateCoins ::
    "coin_usage \<Rightarrow> 'v coins_view \<Rightarrow> CTransaction \<Rightarrow> bytes \<Rightarrow> 'v CCoinsViewCache \<Rightarrow> int \<Rightarrow>
     coin_error + Coin list \<times> 'v CCoinsViewCache" where
  "UpdateCoins usage V tx txid inputs nHeight =
     (case (if \<not> IsCoinBase tx then spend_inputs usage V inputs (vin tx) else Inr ([], inputs)) of
        Inl e \<Rightarrow> Inl e
      | Inr (vprevout, c) \<Rightarrow>
          (case AddCoins usage V c tx txid nHeight False of
             Inl e \<Rightarrow> Inl e
           | Inr c' \<Rightarrow> Inr (vprevout, c')))"

text \<open>The calls of \<open>UpdateCoins\<close> in \<^verbatim>\<open>ConnectBlock\<close>; the undo data of the first transaction is dropped.
  \<open>GetHash\<close> gives the identifier of a transaction.\<close>

fun connect_loop ::
    "coin_usage \<Rightarrow> 'v coins_view \<Rightarrow> (CTransaction \<Rightarrow> bytes) \<Rightarrow> int \<Rightarrow> nat \<Rightarrow> CTransaction list \<Rightarrow>
     Coin list list \<Rightarrow> 'v CCoinsViewCache \<Rightarrow> coin_error + Coin list list \<times> 'v CCoinsViewCache" where
  "connect_loop usage V GetHash nHeight i [] vtxundo view = Inr (vtxundo, view)"
| "connect_loop usage V GetHash nHeight i (tx # txs) vtxundo view =
     (case UpdateCoins usage V tx (GetHash tx) view nHeight of
        Inl e \<Rightarrow> Inl e
      | Inr (txundo, view') \<Rightarrow>
          connect_loop usage V GetHash nHeight (i + 1) txs
            (if i > 0 then vtxundo @ [txundo] else vtxundo) view')"

section \<open>Disconnecting\<close>

datatype DisconnectResult = DISCONNECT_OK | DISCONNECT_UNCLEAN | DISCONNECT_FAILED

definition ApplyTxInUndo ::
    "coin_usage \<Rightarrow> 'v coins_view \<Rightarrow> Coin \<Rightarrow> 'v CCoinsViewCache \<Rightarrow> COutPoint \<Rightarrow>
     coin_error + DisconnectResult \<times> 'v CCoinsViewCache" where
  "ApplyTxInUndo usage V undo view out =
     (let (have, view1) = HaveCoin usage V view out;
          fClean = (\<not> have);
          (undo', view2) =
            (if coin_nHeight undo = 0 then
               (case AccessByTxid usage V view1 (op_hash out) of
                  (alternate, view2) \<Rightarrow>
                    (if \<not> IsSpent alternate
                     then Some (undo\<lparr>coin_nHeight := coin_nHeight alternate,
                                     fCoinBase := fCoinBase alternate\<rparr>)
                     else None, view2))
             else (Some undo, view1))
      in case undo' of
           None \<Rightarrow> Inr (DISCONNECT_FAILED, view2)
         | Some undo'' \<Rightarrow>
             (case AddCoin usage view2 out undo'' (\<not> fClean) of
                Inl e \<Rightarrow> Inl e
              | Inr view3 \<Rightarrow> Inr (if fClean then DISCONNECT_OK else DISCONNECT_UNCLEAN, view3)))"

text \<open>The outputs of one transaction are spent and compared with those of the block.\<close>

fun undo_outputs ::
    "coin_usage \<Rightarrow> 'v coins_view \<Rightarrow> bytes \<Rightarrow> int \<Rightarrow> bool \<Rightarrow> bool \<Rightarrow> nat \<Rightarrow> CTxOut list \<Rightarrow>
     bool \<Rightarrow> 'v CCoinsViewCache \<Rightarrow> bool \<times> 'v CCoinsViewCache" where
  "undo_outputs usage V hash nHeight is_coinbase is_coinstake i [] fClean view = (fClean, view)"
| "undo_outputs usage V hash nHeight is_coinbase is_coinstake i (tx_out # outs) fClean view =
     (if \<not> IsUnspendable (scriptPubKey tx_out) then
        (case SpendCoin usage V view \<lparr>op_hash = hash, op_n = of_nat i\<rparr> of
           (spent, view') \<Rightarrow>
             let mismatch = (case spent of
                    None \<Rightarrow> True
                  | Some coin \<Rightarrow> tx_out \<noteq> coin_out coin \<or> nHeight \<noteq> int (unat (coin_nHeight coin)) \<or>
                      is_coinbase \<noteq> fCoinBase coin)
             in undo_outputs usage V hash nHeight is_coinbase is_coinstake (i + 1) outs
                  (if is_coinstake \<and> TxOut_IsEmpty tx_out then fClean
                   else fClean \<and> \<not> mismatch) view')
      else undo_outputs usage V hash nHeight is_coinbase is_coinstake (i + 1) outs fClean view)"

text \<open>The inputs from number \<open>j - 1\<close> down to the first one.\<close>

fun restore_inputs ::
    "coin_usage \<Rightarrow> 'v coins_view \<Rightarrow> CTxIn list \<Rightarrow> Coin list \<Rightarrow> nat \<Rightarrow> bool \<Rightarrow> 'v CCoinsViewCache \<Rightarrow>
     coin_error + bool option \<times> 'v CCoinsViewCache" where
  "restore_inputs usage V ins vprevout 0 fClean view = Inr (Some fClean, view)"
| "restore_inputs usage V ins vprevout (Suc j) fClean view =
     (case ApplyTxInUndo usage V (vprevout ! j) view (prevout (ins ! j)) of
        Inl e \<Rightarrow> Inl e
      | Inr (res, view') \<Rightarrow>
          if res = DISCONNECT_FAILED then Inr (None, view')
          else restore_inputs usage V ins vprevout j (fClean \<and> res \<noteq> DISCONNECT_UNCLEAN) view')"

text \<open>The transactions from number \<open>i - 1\<close> down to the first one; \<^const>\<open>None\<close> for
  \<^const>\<open>DISCONNECT_FAILED\<close>.\<close>

fun disconnect_loop ::
    "coin_usage \<Rightarrow> 'v coins_view \<Rightarrow> (CTransaction \<Rightarrow> bytes) \<Rightarrow> int \<Rightarrow> CTransaction list \<Rightarrow>
     Coin list list \<Rightarrow> nat \<Rightarrow> bool \<Rightarrow> 'v CCoinsViewCache \<Rightarrow>
     coin_error + bool option \<times> 'v CCoinsViewCache" where
  "disconnect_loop usage V GetHash nHeight vtx vtxundo 0 fClean view = Inr (Some fClean, view)"
| "disconnect_loop usage V GetHash nHeight vtx vtxundo (Suc i) fClean view =
     (let tx = vtx ! i;
          (fClean1, view1) =
            undo_outputs usage V (GetHash tx) nHeight (IsCoinBase tx \<or> IsCoinStake tx) (IsCoinStake tx)
              0 (vout tx) fClean view
      in if i > 0 then
           (let txundo = vtxundo ! (i - 1)
            in if length txundo \<noteq> length (vin tx) then Inr (None, view1)
               else case restore_inputs usage V (vin tx) txundo (length (vin tx)) fClean1 view1 of
                 Inl e \<Rightarrow> Inl e
               | Inr (None, view2) \<Rightarrow> Inr (None, view2)
               | Inr (Some fClean2, view2) \<Rightarrow>
                   disconnect_loop usage V GetHash nHeight vtx vtxundo i fClean2 view2)
         else disconnect_loop usage V GetHash nHeight vtx vtxundo i fClean1 view1)"

text \<open>\<open>blockUndo\<close> is what \<^verbatim>\<open>UndoReadFromDisk\<close> returns, \<open>prev_hash\<close> the hash of the predecessor, and
  \<open>contract_rollback\<close> whether the contract storage could be rolled back, which is asked of the storage
  from the height of the contracts on.\<close>

definition DisconnectBlock ::
    "coin_usage \<Rightarrow> 'v coins_view \<Rightarrow> (CTransaction \<Rightarrow> bytes) \<Rightarrow> int \<Rightarrow> bool \<Rightarrow> CTransaction list \<Rightarrow> int \<Rightarrow>
     bytes \<Rightarrow> Coin list list option \<Rightarrow> 'v CCoinsViewCache \<Rightarrow>
     coin_error + DisconnectResult \<times> 'v CCoinsViewCache" where
  "DisconnectBlock usage V GetHash contract_height contract_rollback vtx nHeight prev_hash blockUndo view =
     (case blockUndo of
        None \<Rightarrow> Inr (DISCONNECT_FAILED, view)
      | Some vtxundo \<Rightarrow>
          if length vtxundo + 1 \<noteq> length vtx then Inr (DISCONNECT_FAILED, view)
          else case disconnect_loop usage V GetHash nHeight vtx vtxundo (length vtx) True view of
            Inl e \<Rightarrow> Inl e
          | Inr (None, view1) \<Rightarrow> Inr (DISCONNECT_FAILED, view1)
          | Inr (Some fClean, view1) \<Rightarrow>
              let view2 = SetBestBlock view1 prev_hash
              in if nHeight \<ge> contract_height \<and> \<not> contract_rollback then Inr (DISCONNECT_FAILED, view2)
                 else Inr (if fClean then DISCONNECT_OK else DISCONNECT_UNCLEAN, view2))"

section \<open>The changes as functions on sets of coins\<close>

type_synonym coin_set = "COutPoint \<Rightarrow> Coin option"

definition remove_coins :: "COutPoint list \<Rightarrow> coin_set \<Rightarrow> coin_set" where
  "remove_coins ks C k = (if k \<in> set ks then None else C k)"

fun spec_outputs :: "bytes \<Rightarrow> int \<Rightarrow> bool \<Rightarrow> nat \<Rightarrow> CTxOut list \<Rightarrow> coin_set \<Rightarrow> coin_set" where
  "spec_outputs txid nHeight cb i [] C = C"
| "spec_outputs txid nHeight cb i (tx_out # outs) C =
     spec_outputs txid nHeight cb (i + 1) outs
       (if IsUnspendable (scriptPubKey tx_out) then C
        else C(\<lparr>op_hash = txid, op_n = of_nat i\<rparr> \<mapsto> make_coin tx_out nHeight cb))"

definition spec_update :: "(CTransaction \<Rightarrow> bytes) \<Rightarrow> int \<Rightarrow> CTransaction \<Rightarrow> coin_set \<Rightarrow> coin_set" where
  "spec_update GetHash nHeight tx C =
     spec_outputs (GetHash tx) nHeight (IsCoinBase tx \<or> IsCoinStake tx) 0 (vout tx)
       (if IsCoinBase tx then C else remove_coins (map prevout (vin tx)) C)"

text \<open>What the checks before \<open>UpdateCoins\<close> establish of a transaction: its inputs are distinct coins
  of the set, its outputs have an amount and new outpoints.\<close>

definition tx_connects :: "(CTransaction \<Rightarrow> bytes) \<Rightarrow> CTransaction \<Rightarrow> coin_set \<Rightarrow> bool" where
  "tx_connects GetHash tx C \<longleftrightarrow>
     (IsCoinBase tx \<or> distinct (map prevout (vin tx)) \<and> (\<forall>i \<in> set (vin tx). C (prevout i) \<noteq> None)) \<and>
     (\<forall>i < length (vout tx). C \<lparr>op_hash = GetHash tx, op_n = of_nat i\<rparr> = None) \<and>
     (\<forall>tx_out \<in> set (vout tx). \<not> TxOut_IsNull tx_out) \<and> length (vout tx) \<le> 2 ^ 32"

text \<open>Coins of unspendable scripts are never stored, and the outputs of block 0 are not.\<close>

definition coin_set_ok :: "coin_set \<Rightarrow> bool" where
  "coin_set_ok C \<longleftrightarrow> (\<forall>k x. C k = Some x \<longrightarrow>
     \<not> IsSpent x \<and> \<not> IsUnspendable (scriptPubKey (coin_out x)) \<and> coin_nHeight x \<noteq> 0)"

fun block_connects :: "(CTransaction \<Rightarrow> bytes) \<Rightarrow> int \<Rightarrow> CTransaction list \<Rightarrow> coin_set \<Rightarrow> bool" where
  "block_connects GetHash nHeight [] C = True"
| "block_connects GetHash nHeight (tx # txs) C \<longleftrightarrow>
     tx_connects GetHash tx C \<and> block_connects GetHash nHeight txs (spec_update GetHash nHeight tx C)"

text \<open>The coins and the undo data of a block.\<close>

definition spec_block :: "(CTransaction \<Rightarrow> bytes) \<Rightarrow> int \<Rightarrow> CTransaction list \<Rightarrow> coin_set \<Rightarrow> coin_set" where
  "spec_block GetHash nHeight txs C = fold (spec_update GetHash nHeight) txs C"

definition spec_undo :: "CTransaction \<Rightarrow> coin_set \<Rightarrow> Coin list" where
  "spec_undo tx C = (if IsCoinBase tx then [] else map (\<lambda>i. the (C (prevout i))) (vin tx))"

fun spec_undos :: "(CTransaction \<Rightarrow> bytes) \<Rightarrow> int \<Rightarrow> CTransaction list \<Rightarrow> coin_set \<Rightarrow> Coin list list" where
  "spec_undos GetHash nHeight [] C = []"
| "spec_undos GetHash nHeight (tx # txs) C =
     spec_undo tx C # spec_undos GetHash nHeight txs (spec_update GetHash nHeight tx C)"

section \<open>Sets of coins\<close>

lemma remove_coins_Nil [simp]: "remove_coins [] C = C"
  by (rule ext) (simp add: remove_coins_def)

lemma remove_coins_Cons: "remove_coins (k # ks) C = remove_coins ks (C(k := None))"
  by (rule ext) (simp add: remove_coins_def)

lemma outpoint_inj:
  "i < 4294967296 \<Longrightarrow> j < 4294967296 \<Longrightarrow>
   \<lparr>op_hash = txid, op_n = (of_nat i :: 32 word)\<rparr> = \<lparr>op_hash = txid, op_n = of_nat j\<rparr> \<longleftrightarrow> i = j"
  by (simp add: of_nat_inverse [where 'a = 32] word_unat_eq_iff unat_of_nat)

text \<open>The outpoints of the spendable outputs.\<close>

fun output_points :: "bytes \<Rightarrow> nat \<Rightarrow> CTxOut list \<Rightarrow> COutPoint list" where
  "output_points txid i [] = []"
| "output_points txid i (tx_out # outs) =
     (if IsUnspendable (scriptPubKey tx_out) then [] else [\<lparr>op_hash = txid, op_n = of_nat i\<rparr>]) @
     output_points txid (i + 1) outs"

lemma output_points_range:
  "k \<in> set (output_points txid i outs) \<Longrightarrow>
   \<exists>j. i \<le> j \<and> j < i + length outs \<and> k = \<lparr>op_hash = txid, op_n = of_nat j\<rparr>"
proof (induction outs arbitrary: i)
  case (Cons a outs)
  show ?case
  proof (cases "k \<in> set (output_points txid (i + 1) outs)")
    case True
    from Cons.IH [OF this] obtain j where
      "i + 1 \<le> j" "j < i + 1 + length outs" "k = \<lparr>op_hash = txid, op_n = of_nat j\<rparr>" by blast
    then show ?thesis by (intro exI [of _ j]) simp
  next
    case False
    then show ?thesis using Cons.prems by (auto split: if_splits intro: exI [of _ i])
  qed
qed simp

lemma outpoint_not_later:
  assumes "i + length outs < 4294967296"
  shows "\<lparr>op_hash = txid, op_n = of_nat i\<rparr> \<notin> set (output_points txid (i + 1) outs)"
proof
  assume "\<lparr>op_hash = txid, op_n = of_nat i\<rparr> \<in> set (output_points txid (i + 1) outs)"
  from output_points_range [OF this] obtain j where
    "i + 1 \<le> j" "j < i + 1 + length outs"
    "\<lparr>op_hash = txid, op_n = (of_nat i :: 32 word)\<rparr> = \<lparr>op_hash = txid, op_n = of_nat j\<rparr>" by auto
  then show False using assms outpoint_inj [of i j txid] by simp
qed

lemma spec_outputs_other:
  "k \<notin> set (output_points txid i outs) \<Longrightarrow> spec_outputs txid nHeight cb i outs C k = C k"
  by (induction outs arbitrary: i C) (auto split: if_splits)

lemma spec_outputs_update:
  "k \<notin> set (output_points txid i outs) \<Longrightarrow>
   spec_outputs txid nHeight cb i outs (C(k := v)) = (spec_outputs txid nHeight cb i outs C)(k := v)"
proof (induction outs arbitrary: i C)
  case (Cons a outs)
  let ?p = "\<lparr>op_hash = txid, op_n = of_nat i\<rparr>"
  have k: "k \<notin> set (output_points txid (i + 1) outs)"
    "\<not> IsUnspendable (scriptPubKey a) \<Longrightarrow> ?p \<noteq> k" using Cons.prems by auto
  show ?case
  proof (cases "IsUnspendable (scriptPubKey a)")
    case False
    then have "(C(k := v))(?p \<mapsto> make_coin a nHeight cb) = (C(?p \<mapsto> make_coin a nHeight cb))(k := v)"
      using k(2) by (simp add: fun_upd_twist)
    then show ?thesis unfolding spec_outputs.simps using False by (simp only: Cons.IH [OF k(1)] if_False)
  qed (simp only: spec_outputs.simps if_True Cons.IH [OF k(1)])
qed simp

lemma spec_outputs_ok:
  assumes "coin_set_ok C" and "\<forall>tx_out \<in> set outs. \<not> TxOut_IsNull tx_out"
    and "0 < nHeight" and "nHeight < 2 ^ 31"
  shows "coin_set_ok (spec_outputs txid nHeight cb i outs C)"
  using assms(1,2)
proof (induction outs arbitrary: i C)
  case (Cons a outs)
  have "(word_of_int nHeight :: 31 word) \<noteq> 0"
    using assms(3,4) by (simp add: word_of_int_eq_0_iff zdvd_not_zless)
  then have "coin_set_ok (if IsUnspendable (scriptPubKey a) then C
      else C(\<lparr>op_hash = txid, op_n = of_nat i\<rparr> \<mapsto> make_coin a nHeight cb))"
    using Cons.prems by (simp add: coin_set_ok_def make_coin_def IsSpent_def)
  from Cons.IH [OF this] Cons.prems(2) show ?case by simp
qed simp

lemma remove_coins_ok: "coin_set_ok C \<Longrightarrow> coin_set_ok (remove_coins ks C)"
  by (simp add: coin_set_ok_def remove_coins_def)

lemma spec_update_ok:
  "coin_set_ok C \<Longrightarrow> tx_connects GetHash tx C \<Longrightarrow> 0 < nHeight \<Longrightarrow> nHeight < 2 ^ 31 \<Longrightarrow>
   coin_set_ok (spec_update GetHash nHeight tx C)"
  by (simp add: spec_update_def tx_connects_def spec_outputs_ok remove_coins_ok)

lemma length_spec_undos [simp]: "length (spec_undos GetHash nHeight txs C) = length txs"
  by (induction txs arbitrary: C) simp_all

lemma spec_undos_nth:
  "n < length txs \<Longrightarrow> spec_undos GetHash nHeight txs C ! n =
     spec_undo (txs ! n) (spec_block GetHash nHeight (take n txs) C)"
proof (induction txs arbitrary: n C)
  case (Cons a txs)
  then show ?case by (cases n) (simp_all add: spec_block_def)
qed simp

lemma block_connects_nth:
  "block_connects GetHash nHeight txs C \<Longrightarrow> n < length txs \<Longrightarrow>
   tx_connects GetHash (txs ! n) (spec_block GetHash nHeight (take n txs) C)"
proof (induction txs arbitrary: n C)
  case (Cons a txs)
  then show ?case by (cases n) (simp_all add: spec_block_def)
qed simp

lemma spec_block_ok:
  "block_connects GetHash nHeight txs C \<Longrightarrow> coin_set_ok C \<Longrightarrow> 0 < nHeight \<Longrightarrow> nHeight < 2 ^ 31 \<Longrightarrow>
   coin_set_ok (spec_block GetHash nHeight (take n txs) C)"
proof (induction txs arbitrary: n C)
  case (Cons a txs)
  then have "coin_set_ok (spec_update GetHash nHeight a C)" by (intro spec_update_ok) simp_all
  with Cons show ?case by (cases n) (simp_all add: spec_block_def)
qed (simp add: spec_block_def)

lemma spec_block_take_Suc:
  "n < length txs \<Longrightarrow> spec_block GetHash nHeight (take (Suc n) txs) C =
     spec_update GetHash nHeight (txs ! n) (spec_block GetHash nHeight (take n txs) C)"
  by (simp add: spec_block_def take_Suc_conv_app_nth)

section \<open>The operations implement the functions\<close>

context lawful_view
begin

text \<open>A cache \<open>c\<close> in good order that stands for the set \<open>C\<close>.\<close>

definition holds :: "'v CCoinsViewCache \<Rightarrow> coin_set \<Rightarrow> bool" where
  "holds c C \<longleftrightarrow> cache_inv vinv coins c \<and> cache_coins coins c = C"

lemma SpendCoin_holds:
  assumes "holds c C" and "C k = Some x"
  shows "\<exists>c'. SpendCoin usage V c k = (Some x, c') \<and> holds c' (C(k := None))"
proof -
  obtain r c' where s: "SpendCoin usage V c k = (r, c')" by fastforce
  from assms(1) have "cache_inv vinv coins c" "cache_coins coins c = C" by (simp_all add: holds_def)
  with SpendCoin_spec [OF this(1) s] assms(2) s show ?thesis by (auto simp: holds_def)
qed

lemma AddCoin_holds:
  assumes "holds c C" and "\<not> IsSpent x" and "overwrite \<or> C k = None"
  shows "\<exists>c'. AddCoin usage c k x overwrite = Inr c' \<and>
    holds c' (if IsUnspendable (scriptPubKey (coin_out x)) then C else C(k \<mapsto> x))"
  using AddCoin_cache [of vinv coins c x overwrite k usage best] assms by (auto simp: holds_def)

lemma spend_inputs_holds:
  assumes "holds c C" and "distinct (map prevout ins)" and "\<forall>i \<in> set ins. C (prevout i) \<noteq> None"
  shows "\<exists>c'. spend_inputs usage V c ins = Inr (map (\<lambda>i. the (C (prevout i))) ins, c') \<and>
    holds c' (remove_coins (map prevout ins) C)"
  using assms
proof (induction ins arbitrary: c C)
  case (Cons a ins)
  from Cons.prems(3) obtain x where x: "C (prevout a) = Some x" by auto
  from SpendCoin_holds [OF Cons.prems(1) x] obtain c1 where
    c1: "SpendCoin usage V c (prevout a) = (Some x, c1)" "holds c1 (C(prevout a := None))" by blast
  have other: "prevout i \<noteq> prevout a" if "i \<in> set ins" for i
    using Cons.prems(2) that by (auto simp: image_iff)
  have "map (\<lambda>i. the ((C(prevout a := None)) (prevout i))) ins = map (\<lambda>i. the (C (prevout i))) ins"
    using other by simp
  moreover have "\<exists>c'. spend_inputs usage V c1 ins =
      Inr (map (\<lambda>i. the ((C(prevout a := None)) (prevout i))) ins, c') \<and>
      holds c' (remove_coins (map prevout ins) (C(prevout a := None)))"
    using Cons.prems other by (intro Cons.IH [OF c1(2)]) auto
  ultimately show ?case using c1(1) x by (auto simp: remove_coins_Cons)
qed simp

lemma add_outputs_holds:
  assumes "holds c C" and "\<forall>k \<in> set (output_points txid i outs). C k = None"
    and "\<forall>tx_out \<in> set outs. \<not> TxOut_IsNull tx_out" and "i + length outs \<le> 4294967296"
  shows "\<exists>c'. add_outputs usage V c txid nHeight cb False i outs = Inr c' \<and>
    holds c' (spec_outputs txid nHeight cb i outs C)"
  using assms
proof (induction outs arbitrary: i c C)
  case (Cons a outs)
  let ?p = "\<lparr>op_hash = txid, op_n = of_nat i\<rparr>"
  let ?C = "if IsUnspendable (scriptPubKey a) then C else C(?p \<mapsto> make_coin a nHeight cb)"
  have unspent: "\<not> IsSpent (make_coin a nHeight cb)"
    using Cons.prems(3) by (simp add: IsSpent_def make_coin_def)
  have coin: "coin_out (make_coin a nHeight cb) = a" by (simp add: make_coin_def)
  have "\<exists>c'. AddCoin usage c ?p (make_coin a nHeight cb) cb = Inr c' \<and> holds c' ?C"
  proof (cases "IsUnspendable (scriptPubKey a)")
    case True
    then show ?thesis using Cons.prems(1) unspent coin by (simp add: AddCoin_def)
  next
    case False
    then have "cb \<or> C ?p = None" using Cons.prems(2) by auto
    from AddCoin_holds [OF Cons.prems(1) unspent this] coin show ?thesis by simp
  qed
  then obtain c1 where c1: "AddCoin usage c ?p (make_coin a nHeight cb) cb = Inr c1" "holds c1 ?C"
    by blast
  have "\<exists>c'. add_outputs usage V c1 txid nHeight cb False (i + 1) outs = Inr c' \<and>
      holds c' (spec_outputs txid nHeight cb (i + 1) outs ?C)"
    using Cons.prems outpoint_not_later [of i outs txid] by (intro Cons.IH [OF c1(2)]) auto
  then show ?case using c1(1) by simp
qed simp

lemma output_points_fresh:
  "tx_connects GetHash tx C \<Longrightarrow> k \<in> set (output_points (GetHash tx) 0 (vout tx)) \<Longrightarrow> C k = None"
  using output_points_range [of k "GetHash tx" 0 "vout tx"] by (auto simp: tx_connects_def)

lemma UpdateCoins_holds:
  assumes "holds c C" and "tx_connects GetHash tx C"
  shows "\<exists>c'. UpdateCoins usage V tx (GetHash tx) c nHeight =
      Inr (if IsCoinBase tx then [] else map (\<lambda>i. the (C (prevout i))) (vin tx), c') \<and>
    holds c' (spec_update GetHash nHeight tx C)"
proof -
  let ?D = "if IsCoinBase tx then C else remove_coins (map prevout (vin tx)) C"
  let ?undo = "if IsCoinBase tx then [] else map (\<lambda>i. the (C (prevout i))) (vin tx)"
  have "\<exists>c1. (if \<not> IsCoinBase tx then spend_inputs usage V c (vin tx) else Inr ([], c)) = Inr (?undo, c1) \<and>
      holds c1 ?D"
    using spend_inputs_holds [OF assms(1), of "vin tx"] assms by (auto simp: tx_connects_def)
  then obtain c1 where c1: "(if \<not> IsCoinBase tx then spend_inputs usage V c (vin tx) else Inr ([], c)) =
      Inr (?undo, c1)" "holds c1 ?D" by blast
  have "\<forall>k \<in> set (output_points (GetHash tx) 0 (vout tx)). ?D k = None"
    using output_points_fresh [OF assms(2)] by (auto simp: remove_coins_def)
  moreover have "\<forall>tx_out \<in> set (vout tx). \<not> TxOut_IsNull tx_out" "0 + length (vout tx) \<le> 4294967296"
    using assms(2) by (simp_all add: tx_connects_def)
  ultimately obtain c2 where "AddCoins usage V c1 tx (GetHash tx) nHeight False = Inr c2"
      "holds c2 (spec_update GetHash nHeight tx C)"
    using add_outputs_holds [OF c1(2)] unfolding AddCoins_def spec_update_def by blast
  then show ?thesis using c1(1) unfolding UpdateCoins_def by simp
qed

lemma undo_outputs_holds:
  assumes "holds c (spec_outputs txid nHeight cb i outs C)"
    and "\<forall>k \<in> set (output_points txid i outs). C k = None"
    and "\<forall>tx_out \<in> set outs. \<not> TxOut_IsNull tx_out"
    and "i + length outs \<le> 4294967296" and "0 < nHeight" and "nHeight < 2 ^ 31"
  shows "\<exists>c'. undo_outputs usage V txid nHeight cb stake i outs fClean c = (fClean, c') \<and> holds c' C"
  using assms(1-4)
proof (induction outs arbitrary: i c C)
  case (Cons a outs)
  let ?p = "\<lparr>op_hash = txid, op_n = of_nat i\<rparr>"
  show ?case
  proof (cases "IsUnspendable (scriptPubKey a)")
    case True
    have "\<exists>c'. undo_outputs usage V txid nHeight cb stake (i + 1) outs fClean c = (fClean, c') \<and> holds c' C"
      using Cons.prems True by (intro Cons.IH) auto
    then show ?thesis using True by simp
  next
    case False
    let ?x = "make_coin a nHeight cb"
    have np: "?p \<notin> set (output_points txid (i + 1) outs)"
      using outpoint_not_later [of i outs txid] Cons.prems(4) by simp
    have "spec_outputs txid nHeight cb i (a # outs) C =
        (spec_outputs txid nHeight cb (i + 1) outs C)(?p \<mapsto> ?x)"
      using False by (simp only: spec_outputs.simps if_False spec_outputs_update [OF np])
    then have h: "holds c ((spec_outputs txid nHeight cb (i + 1) outs C)(?p \<mapsto> ?x))"
      using Cons.prems(1) by (simp only:)
    obtain c1 where c1: "SpendCoin usage V c ?p = (Some ?x, c1)"
        "holds c1 ((spec_outputs txid nHeight cb (i + 1) outs C)(?p \<mapsto> ?x, ?p := None))"
      using SpendCoin_holds [OF h, of ?p ?x usage] by auto
    have "spec_outputs txid nHeight cb (i + 1) outs C ?p = None"
      using spec_outputs_other [OF np] Cons.prems(2) False by simp
    then have "(spec_outputs txid nHeight cb (i + 1) outs C)(?p \<mapsto> ?x, ?p := None) =
        spec_outputs txid nHeight cb (i + 1) outs C" by (simp only: fun_upd_upd fun_upd_idem)
    with c1(2) have h1: "holds c1 (spec_outputs txid nHeight cb (i + 1) outs C)" by (simp only:)
    have "\<exists>c'. undo_outputs usage V txid nHeight cb stake (i + 1) outs fClean c1 = (fClean, c') \<and> holds c' C"
      using Cons.prems by (intro Cons.IH [OF h1]) auto
    moreover have "nHeight = int (unat (coin_nHeight ?x))"
      using assms(5,6) by (simp add: make_coin_def unat_eq_nat_uint uint_word_of_int)
    ultimately show ?thesis using c1(1) False by (cases stake) (simp_all add: make_coin_def)
  qed
qed simp

lemma ApplyTxInUndo_holds:
  assumes "holds c C" and "C k = None" and "\<not> IsSpent x" and "coin_nHeight x \<noteq> 0"
    and "\<not> IsUnspendable (scriptPubKey (coin_out x))"
  shows "\<exists>c'. ApplyTxInUndo usage V x c k = Inr (DISCONNECT_OK, c') \<and> holds c' (C(k \<mapsto> x))"
proof -
  obtain r c1 where h: "HaveCoin usage V c k = (r, c1)" by fastforce
  from assms(1) have c: "cache_inv vinv coins c" "cache_coins coins c = C" by (simp_all add: holds_def)
  with HaveCoin_spec [OF c(1) h] have "\<not> r" "holds c1 C" using assms(2) by (simp_all add: holds_def)
  moreover from AddCoin_holds [OF this(2) assms(3), of False k usage] obtain c2 where
    "AddCoin usage c1 k x False = Inr c2" "holds c2 (C(k \<mapsto> x))" using assms(2,5) by auto
  ultimately show ?thesis using h assms(4) by (simp add: ApplyTxInUndo_def)
qed

lemma restore_inputs_holds:
  assumes "holds c (remove_coins (take j (map prevout ins)) C)" and "j \<le> length ins"
    and "distinct (map prevout ins)" and "\<forall>i \<in> set ins. C (prevout i) \<noteq> None"
    and "coin_set_ok C"
  shows "\<exists>c'. restore_inputs usage V ins (map (\<lambda>i. the (C (prevout i))) ins) j fClean c =
      Inr (Some fClean, c') \<and> holds c' C"
  using assms(1,2)
proof (induction j arbitrary: c)
  case (Suc j)
  let ?k = "prevout (ins ! j)"
  let ?D = "remove_coins (take (Suc j) (map prevout ins)) C"
  from Suc.prems(2) have j: "j < length ins" by simp
  then have "ins ! j \<in> set ins" by simp
  with assms(4) obtain x where x: "C ?k = Some x" by auto
  have take: "take (Suc j) (map prevout ins) = take j (map prevout ins) @ [?k]"
    using j by (simp add: take_Suc_conv_app_nth)
  have notin: "?k \<notin> set (take j (map prevout ins))"
    using assms(3) j take by (metis distinct_append distinct_take not_distinct_conv_prefix)
  have "?D ?k = None" by (simp add: take remove_coins_def)
  from ApplyTxInUndo_holds [OF Suc.prems(1) this, of x usage] x assms(5) obtain c1 where
    c1: "ApplyTxInUndo usage V x c ?k = Inr (DISCONNECT_OK, c1)" "holds c1 (?D(?k \<mapsto> x))"
    unfolding coin_set_ok_def by blast
  have "?D(?k \<mapsto> x) = remove_coins (take j (map prevout ins)) C"
    using x notin by (auto simp: fun_eq_iff remove_coins_def take)
  with c1(2) have "holds c1 (remove_coins (take j (map prevout ins)) C)" by simp
  from Suc.IH [OF this] j c1(1) x show ?case by simp
qed simp

text \<open>One transaction undone.\<close>

lemma undo_tx_outputs:
  assumes "holds c (spec_update GetHash nHeight tx C)" and "tx_connects GetHash tx C"
    and "0 < nHeight" and "nHeight < 2 ^ 31"
  shows "\<exists>c'. undo_outputs usage V (GetHash tx) nHeight (IsCoinBase tx \<or> IsCoinStake tx) (IsCoinStake tx)
      0 (vout tx) fClean c = (fClean, c') \<and>
    holds c' (if IsCoinBase tx then C else remove_coins (map prevout (vin tx)) C)"
proof (rule undo_outputs_holds)
  show "holds c (spec_outputs (GetHash tx) nHeight (IsCoinBase tx \<or> IsCoinStake tx) 0 (vout tx)
      (if IsCoinBase tx then C else remove_coins (map prevout (vin tx)) C))"
    using assms(1) unfolding spec_update_def .
  show "\<forall>k \<in> set (output_points (GetHash tx) 0 (vout tx)).
      (if IsCoinBase tx then C else remove_coins (map prevout (vin tx)) C) k = None"
    using output_points_fresh [OF assms(2)] by (auto simp: remove_coins_def)
qed (use assms in \<open>simp_all add: tx_connects_def\<close>)

lemma connect_loop_holds:
  assumes "holds c C" and "block_connects GetHash nHeight txs C"
  shows "\<exists>c'. connect_loop usage V GetHash nHeight i txs vtxundo c =
      Inr (vtxundo @ (if i > 0 then spec_undos GetHash nHeight txs C
                      else tl (spec_undos GetHash nHeight txs C)), c') \<and>
    holds c' (spec_block GetHash nHeight txs C)"
  using assms
proof (induction txs arbitrary: i vtxundo c C)
  case (Cons a txs)
  then have "tx_connects GetHash a C" by simp
  from UpdateCoins_holds [OF Cons.prems(1) this, of usage nHeight] obtain c1 where
    c1: "UpdateCoins usage V a (GetHash a) c nHeight = Inr (spec_undo a C, c1)"
      "holds c1 (spec_update GetHash nHeight a C)"
    by (auto simp: spec_undo_def)
  from Cons.IH [OF c1(2), of "i + 1" "if i > 0 then vtxundo @ [spec_undo a C] else vtxundo"] Cons.prems(2)
  show ?case using c1(1) by (cases "i > 0") (auto simp: spec_block_def)
qed (simp add: spec_block_def)

lemma disconnect_loop_holds:
  assumes "holds c (spec_block GetHash nHeight (take n vtx) C)" and "n \<le> length vtx"
    and "block_connects GetHash nHeight vtx C" and "coin_set_ok C"
    and "0 < nHeight" and "nHeight < 2 ^ 31"
    and "\<forall>i < length vtx. IsCoinBase (vtx ! i) \<longleftrightarrow> i = 0"
  shows "\<exists>c'. disconnect_loop usage V GetHash nHeight vtx (tl (spec_undos GetHash nHeight vtx C)) n fClean c =
      Inr (Some fClean, c') \<and> holds c' C"
  using assms(1,2)
proof (induction n arbitrary: c)
  case 0
  then show ?case by (simp add: spec_block_def)
next
  case (Suc n)
  let ?tx = "vtx ! n"
  let ?C = "spec_block GetHash nHeight (take n vtx) C"
  from Suc.prems have n: "n < length vtx" by simp
  note tx = block_connects_nth [OF assms(3) n]
  have ok: "coin_set_ok ?C" by (rule spec_block_ok [OF assms(3-6)])
  have "holds c (spec_update GetHash nHeight ?tx ?C)"
    using Suc.prems(1) by (simp only: spec_block_take_Suc [OF n])
  from undo_tx_outputs [OF this tx assms(5,6), of usage fClean] obtain c1 where
    c1: "undo_outputs usage V (GetHash ?tx) nHeight (IsCoinBase ?tx \<or> IsCoinStake ?tx)
        (IsCoinStake ?tx) 0 (vout ?tx) fClean c = (fClean, c1)"
      "holds c1 (if IsCoinBase ?tx then ?C else remove_coins (map prevout (vin ?tx)) ?C)" by blast
  show ?case
  proof (cases "n = 0")
    case True
    then have "IsCoinBase ?tx" using assms(7) n by simp
    then show ?thesis using c1 True by (simp add: spec_block_def)
  next
    case False
    then have nb: "\<not> IsCoinBase ?tx" using assms(7) n by simp
    have undo: "tl (spec_undos GetHash nHeight vtx C) ! (n - 1) = map (\<lambda>i. the (?C (prevout i))) (vin ?tx)"
      using False n nb by (simp add: nth_tl spec_undos_nth spec_undo_def)
    have "holds c1 (remove_coins (take (length (vin ?tx)) (map prevout (vin ?tx))) ?C)"
      using c1(2) nb by simp
    moreover have "distinct (map prevout (vin ?tx))" "\<forall>i \<in> set (vin ?tx). ?C (prevout i) \<noteq> None"
      using tx nb by (simp_all add: tx_connects_def)
    ultimately obtain c2 where
      c2: "restore_inputs usage V (vin ?tx) (map (\<lambda>i. the (?C (prevout i))) (vin ?tx)) (length (vin ?tx))
          fClean c1 = Inr (Some fClean, c2)" "holds c2 ?C"
      using restore_inputs_holds [OF _ order_refl _ _ ok, of c1 "vin ?tx" usage fClean] by blast
    from Suc.IH [OF c2(2)] n obtain c3 where
      "disconnect_loop usage V GetHash nHeight vtx (tl (spec_undos GetHash nHeight vtx C)) n fClean c2 =
        Inr (Some fClean, c3)" "holds c3 C" by auto
    then show ?thesis using False c1(1) c2(1) undo by (simp add: Let_def)
  qed
qed

lemma SetBestBlock_holds: "holds c C \<Longrightarrow> holds (SetBestBlock c h) C"
  by (simp add: holds_def SetBestBlock_def)

lemma connect_disconnect:
  assumes "holds c C" and "block_connects GetHash nHeight vtx C" and "coin_set_ok C"
    and "0 < nHeight" and "nHeight < 2 ^ 31" and "vtx \<noteq> []"
    and "\<forall>i < length vtx. IsCoinBase (vtx ! i) \<longleftrightarrow> i = 0"
    and "nHeight < contract_height \<or> contract_rollback"
  shows "\<exists>undo c1 c2. connect_loop usage V GetHash nHeight 0 vtx [] c = Inr (undo, c1) \<and>
    holds c1 (spec_block GetHash nHeight vtx C) \<and>
    DisconnectBlock usage V GetHash contract_height contract_rollback vtx nHeight prev_hash (Some undo) c1 =
      Inr (DISCONNECT_OK, c2) \<and>
    holds c2 C \<and> cv_hashBlock c2 = prev_hash"
proof -
  let ?undo = "tl (spec_undos GetHash nHeight vtx C)"
  from connect_loop_holds [OF assms(1,2), of usage 0 "[]"] obtain c1 where
    c1: "connect_loop usage V GetHash nHeight 0 vtx [] c = Inr (?undo, c1)"
      "holds c1 (spec_block GetHash nHeight vtx C)" by auto
  then have "holds c1 (spec_block GetHash nHeight (take (length vtx) vtx) C)" by simp
  from disconnect_loop_holds [OF this order_refl assms(2-5,7), of usage True] obtain c2 where
    c2: "disconnect_loop usage V GetHash nHeight vtx ?undo (length vtx) True c1 = Inr (Some True, c2)"
      "holds c2 C" by blast
  have "length ?undo + 1 = length vtx" using assms(6) by (cases vtx) simp_all
  then have "DisconnectBlock usage V GetHash contract_height contract_rollback vtx nHeight prev_hash
      (Some ?undo) c1 = Inr (DISCONNECT_OK, SetBestBlock c2 prev_hash)"
    using c2(1) assms(8) by (auto simp: DisconnectBlock_def Let_def)
  then show ?thesis using c1 SetBestBlock_holds [OF c2(2)] by (auto simp: SetBestBlock_def)
qed

end

section \<open>Blocks on the view of the chain state\<close>

text \<open>C10: connecting the transactions of a block to the view spends their inputs and adds their
  outputs, and disconnecting the block with the undo data this produced reports no mismatch and
  restores the coins, with the best block set back.\<close>

theorem disconnect_undoes_connect:
  assumes "block_view_ok view" and "coin_set_ok (block_view_coins view)"
    and "block_connects GetHash nHeight vtx (block_view_coins view)"
    and "0 < nHeight" and "nHeight < 2 ^ 31" and "vtx \<noteq> []"
    and "\<forall>i < length vtx. IsCoinBase (vtx ! i) \<longleftrightarrow> i = 0"
    and "nHeight < contract_height \<or> contract_rollback"
  shows "\<exists>undo view1 view2.
    connect_loop usage (tip_ops usage size_estimate batch_size) GetHash nHeight 0 vtx [] view =
      Inr (undo, view1) \<and>
    block_view_coins view1 = spec_block GetHash nHeight vtx (block_view_coins view) \<and>
    DisconnectBlock usage (tip_ops usage size_estimate batch_size) GetHash contract_height
      contract_rollback vtx nHeight prev_hash (Some undo) view1 = Inr (DISCONNECT_OK, view2) \<and>
    block_view_ok view2 \<and> block_view_coins view2 = block_view_coins view \<and>
    cv_hashBlock view2 = prev_hash"
proof -
  have "coins_tip.holds view (block_view_coins view)" using assms(1) by (simp add: coins_tip.holds_def)
  from coins_tip.connect_disconnect [OF this assms(3,2,4-8), of usage usage size_estimate batch_size prev_hash]
  show ?thesis by (simp add: coins_tip.holds_def) blast
qed

text \<open>A block that spends the coin of the sample database into a new output and a data carrier.\<close>

definition sample_coinbase :: CTransaction where
  "sample_coinbase = \<lparr>vin = [\<lparr>prevout = OutPoint_null, scriptSig = [], nSequence = 0, scriptWitness = []\<rparr>],
     vout = [\<lparr>nValue = 5, scriptPubKey = [0x51]\<rparr>], nVersion = 1, nLockTime = 0\<rparr>"

definition sample_spend :: CTransaction where
  "sample_spend = \<lparr>vin = [\<lparr>prevout = sample_point 1, scriptSig = [], nSequence = 0, scriptWitness = []\<rparr>],
     vout = [\<lparr>nValue = 49, scriptPubKey = [0x51]\<rparr>, \<lparr>nValue = 0, scriptPubKey = [0x6a]\<rparr>],
     nVersion = 1, nLockTime = 0\<rparr>"

definition sample_hash :: "CTransaction \<Rightarrow> bytes" where
  "sample_hash tx = (if IsCoinBase tx then replicate 32 3 else replicate 32 4)"

lemma sample_coinbase_test: "IsCoinBase sample_coinbase" "\<not> IsCoinBase sample_spend"
  by (simp_all add: IsCoinBase_def sample_coinbase_def sample_spend_def OutPoint_IsNull_def
      OutPoint_null_def sample_point_def)

lemma sample_block_connects:
  "block_connects sample_hash 8 [sample_coinbase, sample_spend] [sample_point 1 \<mapsto> sample_coin 50]"
proof -
  have a: "tx_connects sample_hash sample_coinbase [sample_point 1 \<mapsto> sample_coin 50]"
    using sample_coinbase_test
    by (simp add: tx_connects_def sample_hash_def sample_point_def replicate_eq_replicate)
       (simp add: sample_coinbase_def TxOut_IsNull_def)
  have b: "spec_update sample_hash 8 sample_coinbase [sample_point 1 \<mapsto> sample_coin 50] k =
      (if k = sample_point 3 then Some (make_coin \<lparr>nValue = 5, scriptPubKey = [0x51]\<rparr> 8 True)
       else [sample_point 1 \<mapsto> sample_coin 50] k)" for k
    using sample_coinbase_test
    by (simp add: spec_update_def sample_hash_def)
       (simp add: sample_coinbase_def IsUnspendable_def sample_point_def)
  have c: "tx_connects sample_hash sample_spend C" if "C (sample_point 1) \<noteq> None"
    and "\<And>n. C \<lparr>op_hash = replicate 32 4, op_n = n\<rparr> = None" for C
    using sample_coinbase_test that
    by (simp add: tx_connects_def sample_hash_def)
       (simp add: sample_spend_def TxOut_IsNull_def)
  show ?thesis
    using a b by (auto intro!: c simp: sample_point_def replicate_eq_replicate)
qed

theorem disconnect_undoes_connect_witness:
  "\<exists>undo view1 view2.
    connect_loop (\<lambda>_. 0) (tip_ops (\<lambda>_. 0) length 0) sample_hash 8 0 [sample_coinbase, sample_spend] []
      (SetBestBlock (CoinsViewCache (CoinsViewCache sample_db)) (replicate 32 9)) = Inr (undo, view1) \<and>
    DisconnectBlock (\<lambda>_. 0) (tip_ops (\<lambda>_. 0) length 0) sample_hash 100 False
      [sample_coinbase, sample_spend] 8 (replicate 32 7) (Some undo) view1 = Inr (DISCONNECT_OK, view2) \<and>
    block_view_coins view2 = [sample_point 1 \<mapsto> sample_coin 50]"
proof -
  let ?v = "SetBestBlock (CoinsViewCache (CoinsViewCache sample_db)) (replicate 32 9)"
  let ?vtx = "[sample_coinbase, sample_spend]"
  have c: "block_view_coins ?v = [sample_point 1 \<mapsto> sample_coin 50]"
    by (rule ext) (simp add: cache_coins_def SetBestBlock_def CoinsViewCache_def sample_db_def)
  have "coin_set_ok [sample_point 1 \<mapsto> sample_coin 50]"
    by (auto simp: coin_set_ok_def split: if_splits) (simp add: sample_coin_def)
  moreover have "\<forall>i < length ?vtx. IsCoinBase (?vtx ! i) \<longleftrightarrow> i = 0"
    using sample_coinbase_test by (auto simp: less_Suc_eq)
  ultimately show ?thesis
    using disconnect_undoes_connect [OF sample_view_ok, of "replicate 32 9" sample_hash 8 ?vtx 100 False
        "\<lambda>_. 0" length 0 "replicate 32 7"] sample_block_connects
    unfolding c by auto
qed

end
