(* ===== verification/ContractTx.thy ===== *)
theory ContractTx
  imports Transaction
begin

text \<open>
  Contract transactions: how the operands of contract opcodes are read from the outputs of a
  transaction (\<^verbatim>\<open>ContractTxConverter\<close> of \<^verbatim>\<open>src/src/validation.cpp\<close>), the checks on gas and fees, the ledger of
  balance changes (\<^verbatim>\<open>src/src/contract_engine/pending_state.cpp\<close>) and its comparison with the withdrawals
  a transaction declares.  A \<^verbatim>\<open>std::string\<close> is its bytes; unsigned 64 bit amounts are words.  What the
  converter asks of the rest of the node are the fields of \<open>contract_host\<close>.
\<close>

section \<open>Data\<close>

text \<open>\<open>code\<close> is empty until bytecode is loaded.\<close>

record 'code ContractTransactionParams =
  gasLimit :: "64 word"
  gasPrice :: "64 word"
  code :: "'code option"
  is_native :: bool
  template_name :: bytes
  caller_address :: bytes
  contract_address :: bytes
  api_name :: bytes
  api_arg :: bytes
  contract_name :: bytes
  contract_desc :: bytes
  deposit_amount :: "64 word"
  deposit_memo :: bytes
  cp_version :: "32 word"
  withdraw_amount :: "64 word"
  withdraw_from_contract_address :: bytes

record 'code ContractTransaction =
  ct_opcode :: nat
  ct_tx_id :: bytes
  ct_params :: "'code ContractTransactionParams"

record ContractWithdrawInfo =
  from_contract_address :: bytes
  wi_amount :: "64 word"

record 'code ExtractContractTX =
  ext_txs :: "'code ContractTransaction list"
  contract_withdraw_infos :: "ContractWithdrawInfo list"

text \<open>The address tests, the address of the first input (or the error the look-up reports), the
  loader of bytecode and the registry of native contracts.\<close>

record 'code contract_host =
  IsValidDestinationString :: "bytes \<Rightarrow> bool"
  GetSenderAddress :: "CTransaction \<Rightarrow> string + bytes"
  load_contract_from_gpc_data :: "bytes \<Rightarrow> string + 'code"
  has_native_contract_with_key :: "bytes \<Rightarrow> bool"
  is_valid_contract_address_format :: "bytes \<Rightarrow> bool"
  generate_contract_address :: "bytes \<Rightarrow> CTransaction \<Rightarrow> nat \<Rightarrow> bytes"

abbreviation (input) DEPOSIT_TO_CONTRACT_MEMO_MAX_LENGTH :: nat where
  "DEPOSIT_TO_CONTRACT_MEMO_MAX_LENGTH \<equiv> 128"
abbreviation (input) DEFAULT_MIN_GAS_PRICE :: "64 word" where "DEFAULT_MIN_GAS_PRICE \<equiv> 10"
abbreviation (input) DEFAULT_BLOCK_GAS_LIMIT :: "64 word" where "DEFAULT_BLOCK_GAS_LIMIT \<equiv> 40000000"

section \<open>Formats of names\<close>

definition is_alpha :: "byte \<Rightarrow> bool" where
  "is_alpha b \<longleftrightarrow> 65 \<le> b \<and> b \<le> 90 \<or> 97 \<le> b \<and> b \<le> 122"

definition is_digit :: "byte \<Rightarrow> bool" where
  "is_digit b \<longleftrightarrow> 48 \<le> b \<and> b \<le> 57"

definition is_valid_contract_name_format :: "bytes \<Rightarrow> bool" where
  "is_valid_contract_name_format name =
     (if length name < 2 \<or> length name > 30 then False
      else if \<not> (is_alpha (name ! 0) \<or> name ! 0 = 95) then False
      else list_all (\<lambda>b. is_alpha b \<or> b = 95 \<or> is_digit b) (drop 1 name))"

definition is_valid_contract_desc_format :: "bytes \<Rightarrow> bool" where
  "is_valid_contract_desc_format desc =
     (if length desc > 100 then False
      else list_all (\<lambda>b. is_alpha b \<or> b = 95 \<or> is_digit b \<or> b = 32 \<or> b = 10 \<or> b = 13) desc)"

definition is_valid_deposit_memo_format :: "bytes \<Rightarrow> bool" where
  "is_valid_deposit_memo_format memo = (if length memo > 100 then False else True)"

section \<open>Reading the operands\<close>

text \<open>A parser takes operands from the top of the stack; it fails with a message (\<^const>\<open>Inl\<close>), and
  \<^verbatim>\<open>stack.back()\<close> of an empty stack is undefined behaviour.\<close>

type_synonym 'a operand_parser = "valtype list \<Rightarrow> (string + 'a \<times> valtype list) outcome"

definition parse_bind :: "'a operand_parser \<Rightarrow> ('a \<Rightarrow> 'b operand_parser) \<Rightarrow> 'b operand_parser" where
  "parse_bind m f stack =
     (case m stack of
        Ret (Inr (x, stack')) \<Rightarrow> f x stack'
      | Ret (Inl e) \<Rightarrow> Ret (Inl e)
      | AssertFail \<Rightarrow> AssertFail
      | UndefinedBehaviour \<Rightarrow> UndefinedBehaviour)"

definition parse_return :: "'a \<Rightarrow> 'a operand_parser" where
  "parse_return x stack = Ret (Inr (x, stack))"

definition parse_require :: "bool \<Rightarrow> string \<Rightarrow> unit operand_parser" where
  "parse_require b e stack = (if b then Ret (Inr ((), stack)) else Ret (Inl e))"

definition pop_vch :: "valtype operand_parser" where
  "pop_vch stack = (case stack of [] \<Rightarrow> UndefinedBehaviour | v # s \<Rightarrow> Ret (Inr (v, s)))"

definition scriptnum_what :: "scriptnum_error \<Rightarrow> string" where
  "scriptnum_what e =
     (case e of
        script_number_overflow \<Rightarrow> ''script number overflow''
      | non_minimally_encoded \<Rightarrow> ''non-minimally encoded script number''
      | negative_gas_value \<Rightarrow> ''Negative gas value.'')"

definition pop_uint64 :: "64 word operand_parser" where
  "pop_uint64 = parse_bind pop_vch (\<lambda>v stack.
     case vch_to_uint64 v of
       Inl e \<Rightarrow> Ret (Inl (scriptnum_what e))
     | Inr n \<Rightarrow> Ret (Inr (of_nat n, stack)))"

text \<open>The local variables of \<^verbatim>\<open>parseContractTXParams\<close> that the opcodes fill.\<close>

record operands =
  o_gasLimit :: "64 word"
  o_gasPrice :: "64 word"
  o_apiArg :: valtype
  o_api_name :: valtype
  o_caller_address :: valtype
  o_bytecode :: valtype
  o_template_name :: valtype
  o_contract_address :: valtype
  o_contract_name :: valtype
  o_contract_desc :: valtype
  o_withdraw_from :: valtype
  o_deposit_memo :: valtype
  o_deposit_amount :: "64 word"
  o_withdraw_amount :: "64 word"
  o_version :: "32 word"
  o_is_create :: bool

definition no_operands :: operands where
  "no_operands =
     \<lparr>o_gasLimit = 0, o_gasPrice = 0, o_apiArg = [], o_api_name = [], o_caller_address = [],
      o_bytecode = [], o_template_name = [], o_contract_address = [], o_contract_name = [],
      o_contract_desc = [], o_withdraw_from = [], o_deposit_memo = [], o_deposit_amount = 0,
      o_withdraw_amount = 0, o_version = 0, o_is_create = False\<rparr>"

text \<open>Gas price, gas limit and caller start the operands of every opcode but \<^verbatim>\<open>OP_SPEND\<close>.\<close>

definition parse_gas :: "operands operand_parser" where
  "parse_gas =
     parse_bind pop_uint64 (\<lambda>price.
     parse_bind pop_uint64 (\<lambda>limit.
     parse_bind (parse_require (limit \<noteq> 0) ''gas limit invalid'') (\<lambda>_.
     parse_bind pop_vch (\<lambda>caller.
     parse_return (no_operands\<lparr>o_gasPrice := price, o_gasLimit := limit, o_caller_address := caller\<rparr>)))))"

definition parse_version :: "operands \<Rightarrow> operands operand_parser" where
  "parse_version ops =
     parse_bind pop_uint64 (\<lambda>v. parse_return (ops\<lparr>o_version := ucast v\<rparr>))"

definition parse_CREATE :: "operands operand_parser" where
  "parse_CREATE =
     parse_bind parse_gas (\<lambda>ops.
     parse_bind pop_vch (\<lambda>bytecode.
     parse_version (ops\<lparr>o_bytecode := bytecode, o_is_create := True\<rparr>)))"

definition parse_CREATE_NATIVE :: "operands operand_parser" where
  "parse_CREATE_NATIVE =
     parse_bind parse_gas (\<lambda>ops.
     parse_bind pop_vch (\<lambda>template.
     parse_version (ops\<lparr>o_template_name := template, o_is_create := True\<rparr>)))"

definition parse_CALL :: "operands operand_parser" where
  "parse_CALL =
     parse_bind parse_gas (\<lambda>ops.
     parse_bind pop_vch (\<lambda>address.
     parse_bind pop_vch (\<lambda>api.
     parse_bind pop_vch (\<lambda>arg.
     parse_version (ops\<lparr>o_contract_address := address, o_api_name := api, o_apiArg := arg\<rparr>)))))"

definition parse_UPGRADE :: "operands operand_parser" where
  "parse_UPGRADE =
     parse_bind parse_gas (\<lambda>ops.
     parse_bind pop_vch (\<lambda>address.
     parse_bind pop_vch (\<lambda>name.
     parse_bind pop_vch (\<lambda>desc.
     parse_version (ops\<lparr>o_contract_address := address, o_contract_name := name, o_contract_desc := desc\<rparr>)))))"

definition parse_DEPOSIT :: "operands operand_parser" where
  "parse_DEPOSIT =
     parse_bind parse_gas (\<lambda>ops.
     parse_bind pop_vch (\<lambda>address.
     parse_bind pop_uint64 (\<lambda>amount.
     parse_bind pop_vch (\<lambda>memo.
     parse_bind (parse_version (ops\<lparr>o_contract_address := address, o_deposit_amount := amount,
                                   o_deposit_memo := memo\<rparr>)) (\<lambda>ops'.
     parse_bind (parse_require (length memo \<le> DEPOSIT_TO_CONTRACT_MEMO_MAX_LENGTH)
                   ''memo length exceed 128 bytes'') (\<lambda>_.
     parse_return ops'))))))"

definition parse_SPEND :: "operands operand_parser" where
  "parse_SPEND =
     parse_bind pop_vch (\<lambda>address.
     parse_bind pop_uint64 (\<lambda>amount.
     parse_bind (parse_require (amount \<noteq> 0) ''invalid withdraw amount'') (\<lambda>_.
     parse_bind (parse_require (address \<noteq> []) ''invalid withdraw from contract address'') (\<lambda>_.
     parse_return (no_operands\<lparr>o_withdraw_from := address, o_withdraw_amount := amount\<rparr>)))))"

definition parse_operands :: "nat \<Rightarrow> operands operand_parser" where
  "parse_operands opcode =
     (if opcode = OP_CREATE then parse_CREATE
      else if opcode = OP_CREATE_NATIVE then parse_CREATE_NATIVE
      else if opcode = OP_CALL then parse_CALL
      else if opcode = OP_UPGRADE then parse_UPGRADE
      else if opcode = OP_DEPOSIT_TO_CONTRACT then parse_DEPOSIT
      else if opcode = OP_SPEND then parse_SPEND
      else (\<lambda>stack. Ret (Inl ''invalid contract opcode'')))"

section \<open>The parameters of a contract call\<close>

definition params_of :: "nat \<Rightarrow> operands \<Rightarrow> 'code ContractTransactionParams" where
  "params_of opcode ops =
     \<lparr>gasLimit = o_gasLimit ops, gasPrice = o_gasPrice ops, code = None, is_native = False,
      template_name = [], caller_address = o_caller_address ops, contract_address = [],
      api_name = o_api_name ops, api_arg = o_apiArg ops, contract_name = [], contract_desc = [],
      deposit_amount = o_deposit_amount ops, deposit_memo = o_deposit_memo ops,
      cp_version = o_version ops,
      withdraw_amount = (if opcode = OP_SPEND then o_withdraw_amount ops else 0),
      withdraw_from_contract_address = (if opcode = OP_SPEND then o_withdraw_from ops else [])\<rparr>"

text \<open>The caller must be the owner of the first input, unless the check is switched off.\<close>

definition check_sender :: "'code contract_host \<Rightarrow> CTransaction \<Rightarrow> bool \<Rightarrow> bytes \<Rightarrow> string option" where
  "check_sender host tx ignore_sender_check caller =
     (if vin tx = [] then Some ''''
      else if ignore_sender_check then None
      else case GetSenderAddress host tx of
        Inl e \<Rightarrow> Some e
      | Inr sender \<Rightarrow>
          if sender \<noteq> caller then Some ''first vin address not match with contract caller_address''
          else None)"

definition check_deposit :: "nat \<Rightarrow> operands \<Rightarrow> string option" where
  "check_deposit opcode ops =
     (if opcode = OP_DEPOSIT_TO_CONTRACT then
        (if o_deposit_amount ops = 0 then Some ''invalid deposit amount''
         else if \<not> is_valid_deposit_memo_format (o_deposit_memo ops) then Some ''invalid deposit memo format''
         else None)
      else None)"

definition load_code ::
    "'code contract_host \<Rightarrow> operands \<Rightarrow> 'code ContractTransactionParams \<Rightarrow>
     string + 'code ContractTransactionParams" where
  "load_code host ops params =
     (if o_bytecode ops \<noteq> [] \<and> o_is_create ops then
        (case load_contract_from_gpc_data host (o_bytecode ops) of
           Inl e \<Rightarrow> Inl e
         | Inr c \<Rightarrow> Inr (params\<lparr>code := Some c\<rparr>))
      else if o_template_name ops \<noteq> [] \<and> o_is_create ops then
        (if \<not> has_native_contract_with_key host (o_template_name ops) then Inl ''invalid contract template''
         else Inr (params\<lparr>is_native := True, template_name := o_template_name ops\<rparr>))
      else if o_is_create ops then Inl ''empty contract data''
      else Inr params)"

definition set_address ::
    "'code contract_host \<Rightarrow> CTransaction \<Rightarrow> nat \<Rightarrow> nat \<Rightarrow> operands \<Rightarrow> 'code ContractTransactionParams \<Rightarrow>
     string + 'code ContractTransactionParams" where
  "set_address host tx vout_index opcode ops params =
     (if opcode = OP_SPEND then Inr params
      else if \<not> o_is_create ops then
        (if \<not> is_valid_contract_address_format host (o_contract_address ops)
         then Inl ''invalid contract address format''
         else Inr (params\<lparr>contract_address := o_contract_address ops\<rparr>))
      else Inr (params\<lparr>contract_address :=
                  generate_contract_address host (caller_address params) tx vout_index\<rparr>))"

definition set_names ::
    "nat \<Rightarrow> operands \<Rightarrow> 'code ContractTransactionParams \<Rightarrow> string + 'code ContractTransactionParams" where
  "set_names opcode ops params =
     (if opcode = OP_UPGRADE then
        (if \<not> is_valid_contract_name_format (o_contract_name ops) then Inl ''invalid contract name format''
         else if \<not> is_valid_contract_desc_format (o_contract_desc ops)
           then Inl ''invalid contract description format''
         else Inr (params\<lparr>contract_name := o_contract_name ops, contract_desc := o_contract_desc ops\<rparr>))
      else Inr params)"

text \<open>The checks after the operands, in the order of the code.\<close>

definition finish_params ::
    "'code contract_host \<Rightarrow> CTransaction \<Rightarrow> nat \<Rightarrow> nat \<Rightarrow> bool \<Rightarrow> operands \<Rightarrow>
     string + 'code ContractTransactionParams" where
  "finish_params host tx vout_index opcode ignore_sender_check ops =
     (let params = params_of opcode ops
      in if gasPrice params = 0 \<and> opcode \<noteq> OP_SPEND then Inl ''invalid gas price''
         else if opcode \<noteq> OP_SPEND \<and> \<not> IsValidDestinationString host (caller_address params)
           then Inl ''invalid caller_address format''
         else case check_sender host tx ignore_sender_check (caller_address params) of
           Some e \<Rightarrow> Inl e
         | None \<Rightarrow>
         (case check_deposit opcode ops of
            Some e \<Rightarrow> Inl e
          | None \<Rightarrow>
         (case load_code host ops params of
            Inl e \<Rightarrow> Inl e
          | Inr params1 \<Rightarrow>
         (case set_address host tx vout_index opcode ops params1 of
            Inl e \<Rightarrow> Inl e
          | Inr params2 \<Rightarrow> set_names opcode ops params2))))"

section \<open>The converter\<close>

text \<open>The fields of \<^verbatim>\<open>ContractTxConverter\<close> that change: the stack and the flag live through all
  outputs.\<close>

record converter =
  cv_stack :: "valtype list"
  cv_opcode :: nat
  cv_ignore_sender_check :: bool

definition enough_operands :: "nat \<Rightarrow> nat \<Rightarrow> bool" where
  "enough_operands opcode n \<longleftrightarrow> \<not>
     ((opcode = OP_CREATE \<and> n < 5) \<or> (opcode = OP_CREATE_NATIVE \<and> n < 5) \<or>
      (opcode = OP_CALL \<and> n < 7) \<or> (opcode = OP_UPGRADE \<and> n < 7) \<or> (opcode = OP_DESTROY \<and> n < 5) \<or>
      (opcode = OP_DEPOSIT_TO_CONTRACT \<and> n < 6) \<or> (opcode = OP_SPEND \<and> n < 2))"

definition receiveStack ::
    "script_crypto \<Rightarrow> chain_ctx \<Rightarrow> bytes \<Rightarrow> converter \<Rightarrow> (bool \<times> converter) outcome" where
  "receiveStack c ctx script conv =
     (case EvalScript (contract_env c ctx) (cv_stack conv) script of
        Ret (_, _, stack) \<Rightarrow>
          (case stack of
             [] \<Rightarrow> Ret (False, conv\<lparr>cv_stack := []\<rparr>)
           | scriptRest # stack' \<Rightarrow>
               (case scriptRest of
                  [] \<Rightarrow> UndefinedBehaviour
                | op # _ \<Rightarrow>
                    if \<not> enough_operands (unat op) (length stack')
                    then Ret (False, conv\<lparr>cv_stack := [], cv_opcode := unat op\<rparr>)
                    else Ret (True, conv\<lparr>cv_stack := stack', cv_opcode := unat op\<rparr>)))
      | AssertFail \<Rightarrow> AssertFail
      | UndefinedBehaviour \<Rightarrow> UndefinedBehaviour)"

definition parseContractTXParams ::
    "'code contract_host \<Rightarrow> CTransaction \<Rightarrow> nat \<Rightarrow> converter \<Rightarrow>
     (string + 'code ContractTransactionParams \<times> converter) outcome" where
  "parseContractTXParams host tx vout_index conv =
     (case parse_operands (cv_opcode conv) (cv_stack conv) of
        Ret (Inr (ops, stack)) \<Rightarrow>
          let conv' = conv\<lparr>cv_stack := stack,
                cv_ignore_sender_check := cv_ignore_sender_check conv \<or> cv_opcode conv = OP_SPEND\<rparr>
          in Ret (case finish_params host tx vout_index (cv_opcode conv)
                    (cv_ignore_sender_check conv') ops of
                Inl e \<Rightarrow> Inl e
              | Inr params \<Rightarrow> Inr (params, conv'))
      | Ret (Inl e) \<Rightarrow> Ret (Inl e)
      | AssertFail \<Rightarrow> AssertFail
      | UndefinedBehaviour \<Rightarrow> UndefinedBehaviour)"

definition createContractTX ::
    "script_crypto \<Rightarrow> CTransaction \<Rightarrow> converter \<Rightarrow> 'code ContractTransactionParams \<Rightarrow>
     'code ContractTransaction" where
  "createContractTX c tx conv params =
     \<lparr>ct_opcode = cv_opcode conv, ct_tx_id = ComputeHash c tx, ct_params = params\<rparr>"

text \<open>An output that carries a contract opcode must be worth nothing; its parameters.\<close>

definition convert_output ::
    "script_crypto \<Rightarrow> chain_ctx \<Rightarrow> 'code contract_host \<Rightarrow> CTransaction \<Rightarrow> nat \<Rightarrow> CTxOut \<Rightarrow> string \<Rightarrow>
     converter \<Rightarrow> (string + 'code ContractTransactionParams \<times> converter) outcome" where
  "convert_output c ctx host tx i tx_out value_error conv =
     (if nValue tx_out \<noteq> 0 then Ret (Inl value_error)
      else case receiveStack c ctx (scriptPubKey tx_out) conv of
        Ret (True, conv') \<Rightarrow> parseContractTXParams host tx i conv'
      | Ret (False, conv') \<Rightarrow> Ret (Inl '''')
      | AssertFail \<Rightarrow> AssertFail
      | UndefinedBehaviour \<Rightarrow> UndefinedBehaviour)"

fun extract_loop ::
    "script_crypto \<Rightarrow> chain_ctx \<Rightarrow> 'code contract_host \<Rightarrow> CTransaction \<Rightarrow> nat \<Rightarrow> CTxOut list \<Rightarrow>
     converter \<Rightarrow> 'code ContractTransaction list \<Rightarrow> ContractWithdrawInfo list \<Rightarrow>
     (string + 'code ContractTransaction list \<times> ContractWithdrawInfo list) outcome" where
  "extract_loop c ctx host tx i [] conv txs infos = Ret (Inr (txs, infos))"
| "extract_loop c ctx host tx i (tx_out # outs) conv txs infos =
     (case HasContractOp c ctx (scriptPubKey tx_out) of
        Ret True \<Rightarrow>
          (case convert_output c ctx host tx i tx_out ''contract vout's value must be 0'' conv of
             Ret (Inr (params, conv')) \<Rightarrow>
               extract_loop c ctx host tx (i + 1) outs conv' (txs @ [createContractTX c tx conv' params])
                 infos
           | Ret (Inl e) \<Rightarrow> Ret (Inl e)
           | AssertFail \<Rightarrow> AssertFail
           | UndefinedBehaviour \<Rightarrow> UndefinedBehaviour)
      | Ret False \<Rightarrow>
          (case HasOpSpend c ctx (scriptPubKey tx_out) of
             Ret True \<Rightarrow>
               (case convert_output c ctx host tx i tx_out '''' conv of
                  Ret (Inr (params, conv')) \<Rightarrow>
                    let info = \<lparr>from_contract_address = withdraw_from_contract_address params,
                                wi_amount = withdraw_amount params\<rparr>
                    in if from_contract_address info \<in> from_contract_address ` set infos then Ret (Inl '''')
                       else extract_loop c ctx host tx (i + 1) outs conv' txs (infos @ [info])
                | Ret (Inl e) \<Rightarrow> Ret (Inl e)
                | AssertFail \<Rightarrow> AssertFail
                | UndefinedBehaviour \<Rightarrow> UndefinedBehaviour)
           | Ret False \<Rightarrow> extract_loop c ctx host tx (i + 1) outs conv txs infos
           | AssertFail \<Rightarrow> AssertFail
           | UndefinedBehaviour \<Rightarrow> UndefinedBehaviour)
      | AssertFail \<Rightarrow> AssertFail
      | UndefinedBehaviour \<Rightarrow> UndefinedBehaviour)"

text \<open>At least one output must carry a contract opcode other than \<^verbatim>\<open>OP_SPEND\<close>.\<close>

definition extractionContractTransactions ::
    "script_crypto \<Rightarrow> chain_ctx \<Rightarrow> 'code contract_host \<Rightarrow> bool \<Rightarrow> CTransaction \<Rightarrow>
     (string + 'code ExtractContractTX) outcome" where
  "extractionContractTransactions c ctx host ignore_sender_check tx =
     (case extract_loop c ctx host tx 0 (vout tx)
             \<lparr>cv_stack = [], cv_opcode = 0, cv_ignore_sender_check = ignore_sender_check\<rparr> [] [] of
        Ret (Inr (txs, infos)) \<Rightarrow>
          if length txs < 1 then Ret (Inl '''')
          else Ret (Inr \<lparr>ext_txs = txs, contract_withdraw_infos = infos\<rparr>)
      | Ret (Inl e) \<Rightarrow> Ret (Inl e)
      | AssertFail \<Rightarrow> AssertFail
      | UndefinedBehaviour \<Rightarrow> UndefinedBehaviour)"

section \<open>Gas and fees\<close>

text \<open>\<open>get_contract_info\<close> asks the contract storage for the creator and the name of a contract.\<close>

definition check_upgrade_contract_caller ::
    "(bytes \<Rightarrow> (bytes \<times> bytes) option) \<Rightarrow> nat \<Rightarrow> 'code ContractTransactionParams \<Rightarrow> bool" where
  "check_upgrade_contract_caller get_contract_info opcode params =
     (if opcode \<noteq> OP_UPGRADE then True
      else case get_contract_info (contract_address params) of
        None \<Rightarrow> False
      | Some (creator_address, name) \<Rightarrow>
          if creator_address \<noteq> caller_address params then False
          else if name \<noteq> [] then False
          else True)"

text \<open>\<^verbatim>\<open>CAmount\<close> operands are converted to unsigned before they are compared with or added to unsigned
  ones.  The result is the error text.\<close>

definition is_params_valid ::
    "(bytes \<Rightarrow> (bytes \<times> bytes) option) \<Rightarrow> 64 word \<Rightarrow> 64 word \<Rightarrow> 64 word \<Rightarrow> 64 word \<Rightarrow>
     'code ContractTransaction \<Rightarrow> string option" where
  "is_params_valid get_contract_info nTxFeeRemaining sumGasCoin gasCountOfAllTxsInBlock blockGasLimit ct =
     (let params = ct_params ct;
          sumGasCoinRemaining = sumGasCoin + gasLimit params * gasPrice params
      in if 0 \<le> sint nTxFeeRemaining \<and> deposit_amount params \<ge> nTxFeeRemaining
           then Some ''bad-txns-fee-notenough''
         else if sumGasCoinRemaining > -1 then Some ''bad-tx-gas-stipend-overflow''
         else if 0 \<le> sint nTxFeeRemaining \<and> sumGasCoinRemaining > nTxFeeRemaining - deposit_amount params
           then Some ''bad-txns-fee-notenough''
         else if gasLimit params > DEFAULT_BLOCK_GAS_LIMIT then Some ''bad-tx-too-much-gas''
         else if gasCountOfAllTxsInBlock + gasLimit params > blockGasLimit
           then Some ''bad-txns-gas-exceeds-blockgaslimit''
         else if gasPrice params < DEFAULT_MIN_GAS_PRICE then Some ''bad-tx-low-gas-price''
         else if \<not> check_upgrade_contract_caller get_contract_info (ct_opcode ct) params
           then Some ''bad-contract-upgrader''
         else None)"

section \<open>The ledger of balance changes\<close>

record ContractResultTransferInfo =
  ti_address :: bytes
  ti_add :: bool
  ti_is_contract :: bool
  ti_amount :: "64 word"

fun add_balance_change ::
    "ContractResultTransferInfo list \<Rightarrow> bytes \<Rightarrow> bool \<Rightarrow> bool \<Rightarrow> 64 word \<Rightarrow>
     ContractResultTransferInfo list" where
  "add_balance_change [] address is_contract add amount =
     [\<lparr>ti_address = address, ti_add = add, ti_is_contract = is_contract, ti_amount = amount\<rparr>]"
| "add_balance_change (t # ts) address is_contract add amount =
     (if ti_address t = address \<and> ti_is_contract t = is_contract then
        (if ti_add t = add then t\<lparr>ti_amount := ti_amount t + amount\<rparr> # ts
         else if ti_amount t > amount then t\<lparr>ti_amount := ti_amount t - amount\<rparr> # ts
         else if ti_amount t < amount
           then t\<lparr>ti_add := \<not> ti_add t, ti_amount := amount - ti_amount t\<rparr> # ts
         else ts)
      else t # add_balance_change ts address is_contract add amount)"

text \<open>\<open>balances\<close> are the pairs of asset and amount the storage holds for the address.\<close>

fun stored_balance :: "(nat \<times> 64 word) list \<Rightarrow> 64 word" where
  "stored_balance [] = 0"
| "stored_balance ((asset_id, amount) # ps) = (if asset_id = 0 then amount else stored_balance ps)"

fun apply_changes :: "bytes \<Rightarrow> 64 word \<Rightarrow> ContractResultTransferInfo list \<Rightarrow> 64 word" where
  "apply_changes address balance [] = balance"
| "apply_changes address balance (t # ts) =
     (if ti_is_contract t \<and> ti_address t = address then
        (if ti_add t then apply_changes address (balance + ti_amount t) ts
         else if balance < ti_amount t then 0
         else apply_changes address (balance - ti_amount t) ts)
      else apply_changes address balance ts)"

definition get_contract_balance ::
    "(bytes \<Rightarrow> (nat \<times> 64 word) list) \<Rightarrow> ContractResultTransferInfo list \<Rightarrow> bytes \<Rightarrow> 64 word" where
  "get_contract_balance get_contract_balances changes address =
     apply_changes address (stored_balance (get_contract_balances address)) changes"

section \<open>Declared withdrawals\<close>

text \<open>The first declared withdrawal of an address, and the loop over the changes with its counter.\<close>

fun match_loop ::
    "ContractWithdrawInfo list \<Rightarrow> ContractResultTransferInfo list \<Rightarrow> 32 word \<Rightarrow> 32 word option" where
  "match_loop infos [] n = Some n"
| "match_loop infos (t # ts) n =
     (if ti_is_contract t \<and> \<not> ti_add t then
        (case find (\<lambda>w. from_contract_address w = ti_address t) infos of
           None \<Rightarrow> None
         | Some w \<Rightarrow> if wi_amount w \<noteq> ti_amount t then None else match_loop infos ts (n + 1))
      else match_loop infos ts n)"

definition match_contract_withdraw_infos ::
    "ContractResultTransferInfo list \<Rightarrow> ContractWithdrawInfo list \<Rightarrow> bool" where
  "match_contract_withdraw_infos balance_changes withdraw_infos =
     (case match_loop withdraw_infos balance_changes 0 of
        None \<Rightarrow> False
      | Some n \<Rightarrow> unat n = length withdraw_infos)"

end
