(* ===== verification/ContractProps.thy ===== *)
theory ContractProps
  imports ContractTx EvalStd
begin

text \<open>
  Properties of contract transactions: the ledger of balance changes adds up, the withdrawals that a
  transaction declares are exactly the ones the ledger shows, and three defects of the converter and of
  the gas check.
\<close>

section \<open>The ledger\<close>

text \<open>The signed sum of the changes of an account, and at most one entry per account.\<close>

definition signed_amount :: "bool \<Rightarrow> 64 word \<Rightarrow> 64 word" where
  "signed_amount add x = (if add then x else - x)"

fun net_change :: "bytes \<Rightarrow> bool \<Rightarrow> ContractResultTransferInfo list \<Rightarrow> 64 word" where
  "net_change address is_contract [] = 0"
| "net_change address is_contract (t # ts) =
     (if ti_address t = address \<and> ti_is_contract t = is_contract
      then signed_amount (ti_add t) (ti_amount t) else 0) +
     net_change address is_contract ts"

definition account :: "ContractResultTransferInfo \<Rightarrow> bytes \<times> bool" where
  "account t = (ti_address t, ti_is_contract t)"

definition ledger_ok :: "ContractResultTransferInfo list \<Rightarrow> bool" where
  "ledger_ok ts \<longleftrightarrow> distinct (map account ts)"

lemma add_balance_change_accounts:
  "account ` set (add_balance_change ts address is_contract add amount) \<subseteq>
   insert (address, is_contract) (account ` set ts)"
  by (induction ts) (auto simp: account_def split: if_splits)

lemma add_balance_change_ledger:
  "ledger_ok ts \<Longrightarrow> ledger_ok (add_balance_change ts address is_contract add amount)"
proof (induction ts)
  case (Cons t ts)
  show ?case
  proof (cases "account t = (address, is_contract)")
    case True
    then show ?thesis using Cons.prems by (auto simp: ledger_ok_def account_def)
  next
    case False
    then have "account t \<notin> account ` set (add_balance_change ts address is_contract add amount)"
      using Cons.prems add_balance_change_accounts [of ts address is_contract add amount]
      by (auto simp: ledger_ok_def)
    then show ?thesis using Cons False by (auto simp: ledger_ok_def account_def)
  qed
qed (simp add: ledger_ok_def)

lemma signed_amount_merge:
  "signed_amount add (x + y) = signed_amount add x + signed_amount add y"
  "signed_amount (\<not> add) (x - y) = signed_amount (\<not> add) x + signed_amount add y"
  "signed_amount add (y - x) = signed_amount (\<not> add) x + signed_amount add y"
  "signed_amount (\<not> add) x + signed_amount add x = 0"
  by (cases add; simp add: signed_amount_def)+

lemma add_balance_change_net:
  "net_change a b (add_balance_change ts address is_contract add amount) =
   net_change a b ts + (if a = address \<and> b = is_contract then signed_amount add amount else 0)"
proof (induction ts)
  case (Cons t ts)
  obtain a0 s x c where t: "t = \<lparr>ti_address = a0, ti_add = s, ti_is_contract = c, ti_amount = x\<rparr>"
    by (cases t)
  let ?me = "a = address \<and> b = is_contract"
  show ?case
  proof (cases "a0 = address \<and> c = is_contract")
    case hit: True
    have net: "net_change a b (\<lparr>ti_address = a0, ti_add = s', ti_is_contract = c, ti_amount = x'\<rparr> # ts) =
        (if ?me then signed_amount s' x' else 0) + net_change a b ts" for s' x'
      using hit by auto
    consider "s = add" | "s = (\<not> add)" "amount < x" | "s = (\<not> add)" "x < amount" | "s = (\<not> add)" "x = amount"
      using less_linear [of x amount] by blast
    then show ?thesis
    proof cases
      case 1
      then have "add_balance_change (t # ts) address is_contract add amount =
          \<lparr>ti_address = a0, ti_add = add, ti_is_contract = c, ti_amount = x + amount\<rparr> # ts"
        using hit by (simp add: t)
      then show ?thesis using 1 by (simp only: t net) (simp add: signed_amount_merge(1))
    next
      case 2
      then have "add_balance_change (t # ts) address is_contract add amount =
          \<lparr>ti_address = a0, ti_add = (\<not> add), ti_is_contract = c, ti_amount = x - amount\<rparr> # ts"
        using hit by (simp add: t)
      then show ?thesis using 2 by (simp only: t net) (simp add: signed_amount_merge(2))
    next
      case 3
      then have "add_balance_change (t # ts) address is_contract add amount =
          \<lparr>ti_address = a0, ti_add = add, ti_is_contract = c, ti_amount = amount - x\<rparr> # ts"
        using hit by (simp add: t not_less_iff_gr_or_eq)
      then show ?thesis using 3 by (simp only: t net) (simp add: signed_amount_merge(3))
    next
      case 4
      then have "add_balance_change (t # ts) address is_contract add amount = ts"
        using hit by (simp add: t)
      then show ?thesis
        using 4 signed_amount_merge(4) [of add amount] by (simp only: t net) (simp add: add.commute)
    qed
  next
    case False
    then have "add_balance_change (t # ts) address is_contract add amount =
        t # add_balance_change ts address is_contract add amount" by (auto simp: t)
    then show ?thesis by (simp only: net_change.simps Cons add.assoc)
  qed
qed simp

text \<open>C34: adding a change to the ledger of a pending contract call keeps at most one entry per account,
  adds the signed amount to the sum of that account, modulo the size of the counter, and leaves
  every other account alone.\<close>

theorem balance_ledger_adds_up:
  assumes "ledger_ok ts"
  shows "ledger_ok (add_balance_change ts address is_contract add amount) \<and>
    net_change a b (add_balance_change ts address is_contract add amount) =
      net_change a b ts + (if a = address \<and> b = is_contract then signed_amount add amount else 0)"
  using assms by (simp add: add_balance_change_ledger add_balance_change_net)

theorem balance_ledger_adds_up_witness:
  "ledger_ok (add_balance_change [\<lparr>ti_address = [1], ti_add = True, ti_is_contract = True, ti_amount = 5\<rparr>]
     [1] True False 7) \<and>
   net_change [1] True (add_balance_change
     [\<lparr>ti_address = [1], ti_add = True, ti_is_contract = True, ti_amount = 5\<rparr>] [1] True False 7) = - 2"
  using balance_ledger_adds_up [of "[\<lparr>ti_address = [1], ti_add = True, ti_is_contract = True, ti_amount = 5\<rparr>]"
      "[1]" True False 7 "[1]" True]
  by (simp add: ledger_ok_def signed_amount_def)

section \<open>Declared withdrawals\<close>

definition withdrawals :: "ContractResultTransferInfo list \<Rightarrow> (bytes \<times> 64 word) list" where
  "withdrawals ts = map (\<lambda>t. (ti_address t, ti_amount t)) (filter (\<lambda>t. ti_is_contract t \<and> \<not> ti_add t) ts)"

definition declared :: "ContractWithdrawInfo list \<Rightarrow> (bytes \<times> 64 word) list" where
  "declared infos = map (\<lambda>w. (from_contract_address w, wi_amount w)) infos"

lemma find_declared:
  assumes "distinct (map from_contract_address infos)"
  shows "(case find (\<lambda>w. from_contract_address w = a) infos of None \<Rightarrow> False | Some w \<Rightarrow> wi_amount w = x) \<longleftrightarrow>
    (a, x) \<in> set (declared infos)"
  using assms by (induction infos) (auto simp: declared_def image_iff)

lemma match_loop_iff:
  assumes "distinct (map from_contract_address infos)"
  shows "match_loop infos ts n =
    (if set (withdrawals ts) \<subseteq> set (declared infos) then Some (n + of_nat (length (withdrawals ts))) else None)"
proof (induction ts arbitrary: n)
  case (Cons t ts)
  show ?case
  proof (cases "ti_is_contract t \<and> \<not> ti_add t")
    case True
    let ?p = "(ti_address t, ti_amount t)"
    have w: "withdrawals (t # ts) = ?p # withdrawals ts" using True by (simp add: withdrawals_def)
    note d = find_declared [OF assms, where a = "ti_address t" and x = "ti_amount t"]
    show ?thesis
    proof (cases "?p \<in> set (declared infos)")
      case in_d: True
      with d obtain i where "find (\<lambda>w. from_contract_address w = ti_address t) infos = Some i"
          "wi_amount i = ti_amount t" by (auto split: option.splits)
      with True have "match_loop infos (t # ts) n = match_loop infos ts (n + 1)" by simp
      then show ?thesis using in_d by (simp add: w Cons add.assoc)
    next
      case False
      with d True have "match_loop infos (t # ts) n = None" by (auto split: option.splits)
      then show ?thesis using False by (simp add: w)
    qed
  next
    case False
    then have "withdrawals (t # ts) = withdrawals ts" "match_loop infos (t # ts) n = match_loop infos ts n"
      by (auto simp: withdrawals_def)
    then show ?thesis using Cons [of n] by (simp only:)
  qed
qed (simp add: withdrawals_def)

lemma withdrawals_distinct: "ledger_ok ts \<Longrightarrow> distinct (map fst (withdrawals ts))"
  by (induction ts) (auto simp: ledger_ok_def withdrawals_def account_def)

text \<open>On a ledger with one entry per account, the declared withdrawals of a transaction match
  exactly when they are the withdrawals of the ledger, each with its amount.\<close>

lemma withdrawals_match_iff:
  assumes "ledger_ok ts" and "distinct (map from_contract_address infos)" and "length infos < 2 ^ 32"
  shows "match_contract_withdraw_infos ts infos \<longleftrightarrow> set (withdrawals ts) = set (declared infos)"
proof -
  have dw: "distinct (withdrawals ts)" using withdrawals_distinct [OF assms(1)] by (simp add: distinct_map)
  have "distinct (map fst (declared infos))" using assms(2) by (simp add: declared_def comp_def)
  then have di: "distinct (declared infos)" by (simp add: distinct_map)
  have len: "length (declared infos) = length infos" by (simp add: declared_def)
  show ?thesis
  proof (cases "set (withdrawals ts) \<subseteq> set (declared infos)")
    case True
    then have "length (withdrawals ts) \<le> length infos"
      using card_mono [of "set (declared infos)" "set (withdrawals ts)"] dw di len
      by (simp add: distinct_card)
    then have "unat (of_nat (length (withdrawals ts)) :: 32 word) = length (withdrawals ts)"
      using assms(3) by (simp add: unat_of_nat)
    then have "match_contract_withdraw_infos ts infos \<longleftrightarrow> length (withdrawals ts) = length infos"
      using True by (simp add: match_contract_withdraw_infos_def match_loop_iff [OF assms(2)])
    also have "\<dots> \<longleftrightarrow> card (set (withdrawals ts)) = card (set (declared infos))"
      using dw di len by (simp add: distinct_card)
    also have "\<dots> \<longleftrightarrow> set (withdrawals ts) = set (declared infos)"
      using True by (metis List.finite_set card_subset_eq)
    finally show ?thesis .
  next
    case False
    then show ?thesis
      by (auto simp: match_contract_withdraw_infos_def match_loop_iff [OF assms(2)])
  qed
qed

section \<open>Outputs that carry a contract opcode\<close>

text \<open>A script of pushed operands and a contract opcode, small enough to run.\<close>

definition call_script :: "nat \<Rightarrow> valtype list \<Rightarrow> bytes" where
  "call_script op bs = concat (map push_vch bs) @ [of_nat op]"

definition call_script_ok :: "nat \<Rightarrow> valtype list \<Rightarrow> bool" where
  "call_script_ok op bs \<longleftrightarrow> is_contract_op op \<and> list_all (\<lambda>x. length x \<le> MAX_SCRIPT_ELEMENT_SIZE) bs \<and>
     length (call_script op bs) \<le> MAX_SCRIPT_SIZE \<and> length bs \<le> 100"

lemma EvalScript_call:
  assumes "call_script_ok op bs" and "length stack \<le> 100"
  shows "EvalScript (contract_env c ctx) stack (call_script op bs) =
    Ret (True, SCRIPT_ERR_UNKNOWN_ERROR, [of_nat op] # rev bs @ stack)"
  unfolding call_script_def using assms
  by (intro EvalScript_contract)
     (simp_all add: call_script_ok_def call_script_def contract_env_def fRequireMinimal_def has_flag_def list_all_iff)

lemma contract_op_less: "is_contract_op op \<Longrightarrow> op < 256"
  unfolding is_contract_op_def by (elim disjE) simp_all

lemma last_opcode_call:
  assumes "call_script_ok op bs"
  shows "last_opcode c ctx (call_script op bs) = Ret (Some op)"
proof -
  have "length (call_script op bs) \<noteq> 0" by (simp add: call_script_def)
  moreover have "op < 256" using assms contract_op_less by (simp add: call_script_ok_def)
  ultimately show ?thesis using EvalScript_call [OF assms, of "[]"] by (simp add: last_opcode_def)
qed

lemma contract_tests_call:
  assumes "call_script_ok op bs"
  shows "HasContractOp c ctx (call_script op bs) = Ret (op \<noteq> OP_SPEND)"
    and "HasOpSpend c ctx (call_script op bs) = Ret (op = OP_SPEND)"
proof -
  have "is_contract_op op" using assms by (simp add: call_script_ok_def)
  then show "HasContractOp c ctx (call_script op bs) = Ret (op \<noteq> OP_SPEND)"
    "HasOpSpend c ctx (call_script op bs) = Ret (op = OP_SPEND)"
    using last_opcode_call [OF assms]
    by (auto simp: HasContractOp_def HasOpSpend_def is_contract_op_def)
qed

lemma receiveStack_call:
  assumes "call_script_ok op bs" and "length (cv_stack conv) \<le> 100"
    and "enough_operands op (length bs + length (cv_stack conv))"
  shows "receiveStack c ctx (call_script op bs) conv =
    Ret (True, conv\<lparr>cv_stack := rev bs @ cv_stack conv, cv_opcode := op\<rparr>)"
proof -
  have "op < 256" using assms(1) contract_op_less by (simp add: call_script_ok_def)
  then show ?thesis
    using EvalScript_call [OF assms(1,2)] assms(3) by (simp add: receiveStack_def)
qed

lemma convert_call:
  assumes "call_script_ok op bs" and "length (cv_stack conv) \<le> 100"
    and "enough_operands op (length bs + length (cv_stack conv))"
  shows "convert_output c ctx host tx i \<lparr>nValue = 0, scriptPubKey = call_script op bs\<rparr> e conv =
    parseContractTXParams host tx i (conv\<lparr>cv_stack := rev bs @ cv_stack conv, cv_opcode := op\<rparr>)"
  by (simp add: convert_output_def receiveStack_call [OF assms])

lemmas parser_simps =
  parse_operands_def parse_gas_def parse_version_def parse_bind_def parse_return_def parse_require_def
  pop_vch_def pop_uint64_def

text \<open>C35: \<^verbatim>\<open>receiveStack\<close> lets a deposit with six operands pass although the parser takes seven from the
  stack: such an output makes the node take the last element of an empty vector.\<close>

theorem deposit_operand_underflow:
  assumes "call_script_ok OP_DEPOSIT_TO_CONTRACT [memo, amount, address, caller, limit, price]"
    and "vch_to_uint64 price = Inr p" and "vch_to_uint64 limit = Inr l" and "(of_nat l :: 64 word) \<noteq> 0"
    and "vch_to_uint64 amount = Inr a"
    and "vout tx = [\<lparr>nValue = 0, scriptPubKey =
      call_script OP_DEPOSIT_TO_CONTRACT [memo, amount, address, caller, limit, price]\<rparr>]"
  shows "extractionContractTransactions c ctx host ignore tx = UndefinedBehaviour"
proof -
  let ?conv = "\<lparr>cv_stack = [], cv_opcode = 0, cv_ignore_sender_check = ignore\<rparr>"
  have "parseContractTXParams host tx i (?conv\<lparr>cv_stack := [price, limit, caller, address, amount, memo],
      cv_opcode := OP_DEPOSIT_TO_CONTRACT\<rparr>) = UndefinedBehaviour" for i
    using assms(2-5) by (simp add: parseContractTXParams_def parse_DEPOSIT_def parser_simps)
  then have "convert_output c ctx host tx i \<lparr>nValue = 0, scriptPubKey =
      call_script OP_DEPOSIT_TO_CONTRACT [memo, amount, address, caller, limit, price]\<rparr> e ?conv =
      UndefinedBehaviour" for i e
    using convert_call [OF assms(1), of ?conv c ctx host] by (simp add: enough_operands_def)
  then show ?thesis
    using contract_tests_call [OF assms(1)] assms(6) by (simp add: extractionContractTransactions_def)
qed

definition sample_host :: "unit contract_host" where
  "sample_host = \<lparr>IsValidDestinationString = (\<lambda>_. True), GetSenderAddress = (\<lambda>_. Inr [7]),
     load_contract_from_gpc_data = (\<lambda>_. Inr ()), has_native_contract_with_key = (\<lambda>_. False),
     is_valid_contract_address_format = (\<lambda>_. True), generate_contract_address = (\<lambda>_ _ _. [9])\<rparr>"

definition sample_call_tx :: "CTxOut list \<Rightarrow> CTransaction" where
  "sample_call_tx outs =
     \<lparr>vin = [\<lparr>prevout = OutPoint_null, scriptSig = [], nSequence = 0, scriptWitness = []\<rparr>],
      vout = outs, nVersion = 1, nLockTime = 0\<rparr>"

theorem deposit_operand_underflow_witness:
  "extractionContractTransactions sample_crypto sample_chain sample_host False (sample_call_tx
     [\<lparr>nValue = 0, scriptPubKey = call_script OP_DEPOSIT_TO_CONTRACT [[], [5], [9], [7], [1], [10]]\<rparr>]) =
   UndefinedBehaviour"
proof (rule deposit_operand_underflow)
  show "call_script_ok OP_DEPOSIT_TO_CONTRACT [[], [5], [9], [7], [1], [10]]"
    by (simp add: call_script_ok_def call_script_def is_contract_op_def push_vch_def push_size_def)
  show "vch_to_uint64 [10] = Inr 10" "vch_to_uint64 [1] = Inr 1" "vch_to_uint64 [5] = Inr 5"
    by (simp_all add: vch_to_uint64_def)
qed (simp_all add: sample_call_tx_def)

text \<open>C36: a withdrawal output switches the check of the caller off for the outputs after it: a call in
  the name of an address that does not own the first input is refused on its own, and accepted when
  a withdrawal stands before it.\<close>

theorem spend_disables_sender_check:
  assumes "call_script_ok OP_CALL [version, arg, api, address, caller, limit, price]"
    and "call_script_ok OP_SPEND [amount, source]"
    and "vch_to_uint64 price = Inr p" and "(of_nat p :: 64 word) \<noteq> 0"
    and "vch_to_uint64 limit = Inr l" and "(of_nat l :: 64 word) \<noteq> 0"
    and "vch_to_uint64 version = Inr v"
    and "vch_to_uint64 amount = Inr a" and "(of_nat a :: 64 word) \<noteq> 0" and "source \<noteq> []"
    and "IsValidDestinationString host caller" and "is_valid_contract_address_format host address"
    and "\<And>t. GetSenderAddress host t = Inr sender" and "sender \<noteq> caller" and "ins \<noteq> []"
  defines "call_out \<equiv> \<lparr>nValue = 0, scriptPubKey =
      call_script OP_CALL [version, arg, api, address, caller, limit, price]\<rparr>"
    and "spend_out \<equiv> \<lparr>nValue = 0, scriptPubKey = call_script OP_SPEND [amount, source]\<rparr>"
  shows "extractionContractTransactions c ctx host False
      \<lparr>vin = ins, vout = [call_out], nVersion = n, nLockTime = k\<rparr> =
      Ret (Inl ''first vin address not match with contract caller_address'') \<and>
    (\<exists>r. extractionContractTransactions c ctx host False
      \<lparr>vin = ins, vout = [spend_out, call_out], nVersion = n, nLockTime = k\<rparr> = Ret (Inr r) \<and>
      map (caller_address \<circ> ct_params) (ext_txs r) = [caller])"
proof -
  let ?conv = "\<lparr>cv_stack = [], cv_opcode = 0, cv_ignore_sender_check = False\<rparr>"
  let ?call = "\<lambda>ignore. \<lparr>cv_stack = [price, limit, caller, address, api, arg, version], cv_opcode = OP_CALL,
      cv_ignore_sender_check = ignore\<rparr>"
  let ?spend = "\<lparr>cv_stack = [source, amount], cv_opcode = OP_SPEND, cv_ignore_sender_check = False\<rparr>"
  have call: "convert_output c ctx host tx i call_out e \<lparr>cv_stack = [], cv_opcode = o1, cv_ignore_sender_check = ignore\<rparr> =
      parseContractTXParams host tx i (?call ignore)" for tx i e o1 ignore
    using convert_call [OF assms(1), of "\<lparr>cv_stack = [], cv_opcode = o1, cv_ignore_sender_check = ignore\<rparr>" c ctx host]
    by (simp add: call_out_def enough_operands_def)
  have spend: "convert_output c ctx host tx i spend_out e ?conv = parseContractTXParams host tx i ?spend" for tx i e
    using convert_call [OF assms(2), of ?conv c ctx host] by (simp add: spend_out_def enough_operands_def)
  have refused: "parseContractTXParams host tx i (?call False) =
      Ret (Inl ''first vin address not match with contract caller_address'')" if "vin tx \<noteq> []" for tx i
    using that assms(3-7,11-14)
    by (simp add: parseContractTXParams_def parse_CALL_def parser_simps finish_params_def params_of_def
        check_sender_def no_operands_def)
  have accepted: "\<exists>params. parseContractTXParams host tx i (?call True) =
      Ret (Inr (params, \<lparr>cv_stack = [], cv_opcode = OP_CALL, cv_ignore_sender_check = True\<rparr>)) \<and>
      caller_address params = caller" if "vin tx \<noteq> []" for tx i
    using that assms(3-7,11-14)
    by (simp add: parseContractTXParams_def parse_CALL_def parser_simps finish_params_def params_of_def
        check_sender_def no_operands_def check_deposit_def load_code_def set_address_def set_names_def)
  have withdrawn: "\<exists>params. parseContractTXParams host tx i ?spend =
      Ret (Inr (params, \<lparr>cv_stack = [], cv_opcode = OP_SPEND, cv_ignore_sender_check = True\<rparr>))"
    if "vin tx \<noteq> []" for tx i
    using that assms(8-10)
    by (simp add: parseContractTXParams_def parse_SPEND_def parser_simps finish_params_def params_of_def
        check_sender_def no_operands_def check_deposit_def load_code_def set_address_def set_names_def)
  have tests: "HasContractOp c ctx (scriptPubKey call_out) = Ret True"
    "HasContractOp c ctx (scriptPubKey spend_out) = Ret False" "HasOpSpend c ctx (scriptPubKey spend_out) = Ret True"
    using contract_tests_call [OF assms(1)] contract_tests_call [OF assms(2)]
    by (simp_all add: call_out_def spend_out_def)
  let ?tx = "\<lambda>outs. \<lparr>vin = ins, vout = outs, nVersion = n, nLockTime = k\<rparr>"
  from withdrawn [of "?tx [spend_out, call_out]" 0] accepted [of "?tx [spend_out, call_out]" 1] assms(15)
  show ?thesis
    by (auto simp: extractionContractTransactions_def tests call spend refused Let_def createContractTX_def
        assms(15))
qed

theorem spend_disables_sender_check_witness:
  "extractionContractTransactions sample_crypto sample_chain sample_host False (sample_call_tx
     [\<lparr>nValue = 0, scriptPubKey = call_script OP_CALL [[1], [], [2], [9], [8], [1], [10]]\<rparr>]) =
   Ret (Inl ''first vin address not match with contract caller_address'') \<and>
   (\<exists>r. extractionContractTransactions sample_crypto sample_chain sample_host False (sample_call_tx
     [\<lparr>nValue = 0, scriptPubKey = call_script OP_SPEND [[5], [9]]\<rparr>,
      \<lparr>nValue = 0, scriptPubKey = call_script OP_CALL [[1], [], [2], [9], [8], [1], [10]]\<rparr>]) = Ret (Inr r) \<and>
     map (caller_address \<circ> ct_params) (ext_txs r) = [[8]])"
  unfolding sample_call_tx_def
  by (rule spend_disables_sender_check [where p = 10 and l = 1 and v = 1 and a = 5 and sender = "[7]"])
     (simp_all add: call_script_ok_def call_script_def is_contract_op_def push_vch_def push_size_def
      vch_to_uint64_def sample_host_def)

text \<open>The product of gas limit and gas price wraps: gas worth \<open>2 ^ 64\<close> passes the fee check of a
  transaction that pays a fee of one, since the test for an overflow compares an unsigned number with
  the largest one.\<close>

lemma gas_cost_wraps:
  assumes "gasLimit params = 2097152" and "gasPrice params = 8796093022208" and "deposit_amount params = 0"
    and "opcode \<noteq> OP_UPGRADE"
  shows "is_params_valid get_contract_info 1 0 0 (-1)
      \<lparr>ct_opcode = opcode, ct_tx_id = txid, ct_params = params\<rparr> = None \<and>
    unat (gasLimit params) * unat (gasPrice params) = 2 ^ 64"
proof -
  have "\<not> (1 :: 64 word) < 18446744073709551616" by code_simp
  then show ?thesis
    using assms by (simp add: is_params_valid_def check_upgrade_contract_caller_def)
qed

end
