(* ===== verification/ConsensusParams.thy ===== *)
theory ConsensusParams
  imports Transaction ArithCompact "HOL-Library.Signed_Division"
begin

text \<open>
  Parameters that influence consensus (\<^verbatim>\<open>src/src/consensus/params.h\<close>, \<^verbatim>\<open>src/src/consensus/consensus.h\<close>) and the
  state of a validation (\<^verbatim>\<open>src/src/consensus/validation.h\<close>).  The globals set by the chain parameters are the
  record \<open>fork_nums\<close>.
\<close>

section \<open>Parameters\<close>

datatype DeploymentPos = DEPLOYMENT_TESTDUMMY | DEPLOYMENT_CSV | DEPLOYMENT_SEGWIT

record BIP9Deployment =
  dep_bit :: nat
  nStartTime :: int
  nTimeout :: int

abbreviation (input) ALWAYS_ACTIVE :: int where "ALWAYS_ACTIVE \<equiv> -1"

record Params =
  is_regtest_net :: bool
  p_UBCHeight :: int
  p_UBCInitBlockCount :: int
  p_ForkV1Height :: int
  p_ForkV2Height :: int
  p_ForkV4Height :: int
  p_UBCONTRACT_Height :: int
  nRuleChangeActivationThreshold :: "32 word"
  nMinerConfirmationWindow :: "32 word"
  vDeployments :: "DeploymentPos \<Rightarrow> BIP9Deployment"
  powLimit :: bytes
  fPowAllowMinDifficultyBlocks :: bool
  fPowNoRetargeting :: bool
  nPowTargetSpacing :: int
  nPowTargetTimespan :: int
  posLimit :: bytes

text \<open>The quotient rounds towards zero; dividing by zero is undefined and excluded where it is used.\<close>

definition DifficultyAdjustmentInterval :: "Params \<Rightarrow> int" where
  "DifficultyAdjustmentInterval params = nPowTargetTimespan params sdiv nPowTargetSpacing params"

definition UpdateDifficultyAdjustmentIntervalForkV1 :: "Params \<Rightarrow> Params" where
  "UpdateDifficultyAdjustmentIntervalForkV1 params =
     params\<lparr>nPowTargetTimespan := 10 * 1 * 60, nPowTargetSpacing := 1 * 60,
            nRuleChangeActivationThreshold := 190, nMinerConfirmationWindow := 200\<rparr>"

definition UpdateDifficultyAdjustmentIntervalForkV2 :: "Params \<Rightarrow> Params" where
  "UpdateDifficultyAdjustmentIntervalForkV2 params =
     params\<lparr>nPowTargetTimespan := 10 * 2 * 60, nPowTargetSpacing := 2 * 60,
            nRuleChangeActivationThreshold := 190, nMinerConfirmationWindow := 200\<rparr>"

definition UpdateDifficultyAdjustmentInterval :: "Params \<Rightarrow> Params" where
  "UpdateDifficultyAdjustmentInterval params =
     params\<lparr>nPowTargetTimespan := 200 * 10 * 60,
            nRuleChangeActivationThreshold := 190, nMinerConfirmationWindow := 200\<rparr>"

definition UpdateOldDifficultyAdjustmentInterval :: "Params \<Rightarrow> Params" where
  "UpdateOldDifficultyAdjustmentInterval params =
     params\<lparr>nPowTargetTimespan := 14 * 24 * 60 * 60,
            nRuleChangeActivationThreshold := 1916, nMinerConfirmationWindow := 2016\<rparr>"

record fork_nums =
  UB_FORK_BLOCK_NUM :: "64 word"
  UB_FORK1_BLOCK_NUM :: "64 word"
  UB_FORK2_BLOCK_NUM :: "64 word"
  UB_FORK4_BLOCK_NUM :: "64 word"
  COINBASE_MATURITY_FORKV1 :: int
  COINBASE_MATURITY_FORKV2 :: int

definition MaxBlockSize :: "fork_nums \<Rightarrow> 64 word \<Rightarrow> nat" where
  "MaxBlockSize forks nblock =
     (if nblock < UB_FORK_BLOCK_NUM forks then 4000 * 1000 else 32 * 1000 * 1000)"

definition MaxBlockSigops :: "fork_nums \<Rightarrow> 64 word \<Rightarrow> nat" where
  "MaxBlockSigops forks nblock = MaxBlockSize forks nblock div 50"

abbreviation (input) COINBASE_MATURITY :: int where "COINBASE_MATURITY \<equiv> 100"
abbreviation (input) COINBASE_MATURITY_INVALID :: int where "COINBASE_MATURITY_INVALID \<equiv> 999999"
abbreviation (input) WITNESS_SCALE_FACTOR :: nat where "WITNESS_SCALE_FACTOR \<equiv> 4"
abbreviation (input) LOCKTIME_VERIFY_SEQUENCE :: "32 word" where "LOCKTIME_VERIFY_SEQUENCE \<equiv> 1"

text \<open>The heights are converted to the unsigned type of the globals.\<close>

definition getCoinBaseMaturity :: "fork_nums \<Rightarrow> int \<Rightarrow> int" where
  "getCoinBaseMaturity forks coinBaseHeight =
     (if coinBaseHeight < 0 then COINBASE_MATURITY_INVALID
      else if word_of_int coinBaseHeight < UB_FORK1_BLOCK_NUM forks then COINBASE_MATURITY
      else if word_of_int coinBaseHeight \<ge> UB_FORK1_BLOCK_NUM forks \<and>
          word_of_int coinBaseHeight < UB_FORK2_BLOCK_NUM forks then COINBASE_MATURITY_FORKV1 forks
      else COINBASE_MATURITY_FORKV2 forks)"

section \<open>The state of a validation\<close>

datatype mode_state = MODE_VALID | MODE_INVALID | MODE_ERROR

text \<open>The debug message is not kept.\<close>

record CValidationState =
  vs_mode :: mode_state
  nDoS :: int
  strRejectReason :: string
  chRejectCode :: nat
  corruptionPossible :: bool

abbreviation (input) REJECT_INVALID :: nat where "REJECT_INVALID \<equiv> 0x10"

definition ValidationState :: CValidationState where
  "ValidationState =
     \<lparr>vs_mode = MODE_VALID, nDoS = 0, strRejectReason = '''', chRejectCode = 0, corruptionPossible = False\<rparr>"

definition DoS :: "int \<Rightarrow> nat \<Rightarrow> string \<Rightarrow> bool \<Rightarrow> CValidationState \<Rightarrow> CValidationState" where
  "DoS level chRejectCodeIn strRejectReasonIn corruptionIn state =
     (let state1 = state\<lparr>chRejectCode := chRejectCodeIn, strRejectReason := strRejectReasonIn,
                         corruptionPossible := corruptionIn\<rparr>
      in if vs_mode state1 = MODE_ERROR then state1
         else state1\<lparr>nDoS := nDoS state1 + level, vs_mode := MODE_INVALID\<rparr>)"

definition Invalid :: "nat \<Rightarrow> string \<Rightarrow> CValidationState \<Rightarrow> CValidationState" where
  "Invalid code reason state = DoS 0 code reason False state"

definition state_Error :: "string \<Rightarrow> CValidationState \<Rightarrow> CValidationState" where
  "state_Error reason state =
     (let state1 = (if vs_mode state = MODE_VALID then state\<lparr>strRejectReason := reason\<rparr> else state)
      in state1\<lparr>vs_mode := MODE_ERROR\<rparr>)"

definition state_IsValid :: "CValidationState \<Rightarrow> bool" where
  "state_IsValid state \<longleftrightarrow> vs_mode state = MODE_VALID"

definition state_IsInvalid :: "CValidationState \<Rightarrow> int option" where
  "state_IsInvalid state = (if vs_mode state = MODE_INVALID then Some (nDoS state) else None)"

definition SetCorruptionPossible :: "CValidationState \<Rightarrow> CValidationState" where
  "SetCorruptionPossible state = state\<lparr>corruptionPossible := True\<rparr>"

end
