(* ===== verification/TxVerify.thy ===== *)
theory TxVerify
  imports ConsensusParams UpdateCoins ContractTx ChainProps Sighash
begin

text \<open>
  Consensus rules on transactions (\<^verbatim>\<open>src/src/consensus/tx_verify.cpp\<close>): finality, relative lock times, signature
  operation costs, the context free checks and the checks of the inputs against the coins.
\<close>

section \<open>Lock times\<close>

fun all_final :: "CTxIn list \<Rightarrow> bool" where
  "all_final [] = True"
| "all_final (txin # ins) = (if nSequence txin \<noteq> of_nat SEQUENCE_FINAL then False else all_final ins)"

definition IsFinalTx :: "CTransaction \<Rightarrow> int \<Rightarrow> int \<Rightarrow> bool" where
  "IsFinalTx tx nBlockHeight nBlockTime =
     (if nLockTime tx = 0 then True
      else if uint (nLockTime tx) <
          (if uint (nLockTime tx) < LOCKTIME_THRESHOLD then nBlockHeight else nBlockTime) then True
      else all_final (vin tx))"

definition is_int32 :: "int \<Rightarrow> bool" where
  "is_int32 n \<longleftrightarrow> INT_MIN \<le> n \<and> n \<le> INT_MAX"

text \<open>One input of the loop: the bounds so far become the bounds after it.  A dangling ancestor and
  an overflow of the height are undefined.\<close>

definition coin_time :: "index \<Rightarrow> addr \<Rightarrow> int \<Rightarrow> int outcome" where
  "coin_time H block nCoinHeight =
     (case GetAncestor H block (max (nCoinHeight - 1) 0) of
        Ret (Some a) \<Rightarrow> GetMedianTimePast H a
      | Ret None \<Rightarrow> UndefinedBehaviour
      | AssertFail \<Rightarrow> AssertFail
      | UndefinedBehaviour \<Rightarrow> UndefinedBehaviour)"

fun sequence_loop ::
    "index \<Rightarrow> addr \<Rightarrow> CTxIn list \<Rightarrow> int list \<Rightarrow> int \<Rightarrow> int \<Rightarrow> ((int \<times> int) \<times> int list) outcome" where
  "sequence_loop H block (txin # ins) (nCoinHeight # prevHeights) nMinHeight nMinTime =
     (if nSequence txin AND of_nat SEQUENCE_LOCKTIME_DISABLE_FLAG \<noteq> 0 then
        map_outcome (\<lambda>(r, hs). (r, 0 # hs)) (sequence_loop H block ins prevHeights nMinHeight nMinTime)
      else if nSequence txin AND SEQUENCE_LOCKTIME_TYPE_FLAG \<noteq> 0 then
        (case coin_time H block nCoinHeight of
           Ret nCoinTime \<Rightarrow>
             map_outcome (\<lambda>(r, hs). (r, nCoinHeight # hs))
               (sequence_loop H block ins prevHeights nMinHeight
                 (max nMinTime (nCoinTime +
                   uint (push_bit SEQUENCE_LOCKTIME_GRANULARITY (nSequence txin AND SEQUENCE_LOCKTIME_MASK)) - 1)))
         | AssertFail \<Rightarrow> AssertFail
         | UndefinedBehaviour \<Rightarrow> UndefinedBehaviour)
      else if \<not> is_int32 (nCoinHeight + uint (nSequence txin AND SEQUENCE_LOCKTIME_MASK)) then UndefinedBehaviour
      else map_outcome (\<lambda>(r, hs). (r, nCoinHeight # hs))
             (sequence_loop H block ins prevHeights
               (max nMinHeight (nCoinHeight + uint (nSequence txin AND SEQUENCE_LOCKTIME_MASK) - 1)) nMinTime))"
| "sequence_loop H block ins prevHeights nMinHeight nMinTime = Ret ((nMinHeight, nMinTime), prevHeights)"

text \<open>The pair of bounds and the updated heights.\<close>

definition CalculateSequenceLocks ::
    "index \<Rightarrow> CTransaction \<Rightarrow> 32 word \<Rightarrow> int list \<Rightarrow> addr \<Rightarrow> ((int \<times> int) \<times> int list) outcome" where
  "CalculateSequenceLocks H tx flags prevHeights block =
     (if length prevHeights \<noteq> length (vin tx) then AssertFail
      else if \<not> (nVersion tx \<ge> 2 \<and> flags AND LOCKTIME_VERIFY_SEQUENCE \<noteq> 0) then Ret ((-1, -1), prevHeights)
      else sequence_loop H block (vin tx) prevHeights (-1) (-1))"

definition EvaluateSequenceLocks :: "index \<Rightarrow> addr \<Rightarrow> int \<times> int \<Rightarrow> bool outcome" where
  "EvaluateSequenceLocks H block lockPair =
     (case H block of
        None \<Rightarrow> UndefinedBehaviour
      | Some b \<Rightarrow>
          (case pprev b of
             None \<Rightarrow> AssertFail
           | Some p \<Rightarrow>
               map_outcome (\<lambda>nBlockTime.
                 if fst lockPair \<ge> nHeight b \<or> snd lockPair \<ge> nBlockTime then False else True)
                 (GetMedianTimePast H p)))"

definition SequenceLocks :: "index \<Rightarrow> CTransaction \<Rightarrow> 32 word \<Rightarrow> int list \<Rightarrow> addr \<Rightarrow> bool outcome" where
  "SequenceLocks H tx flags prevHeights block =
     (case CalculateSequenceLocks H tx flags prevHeights block of
        Ret (lockPair, _) \<Rightarrow> EvaluateSequenceLocks H block lockPair
      | AssertFail \<Rightarrow> AssertFail
      | UndefinedBehaviour \<Rightarrow> UndefinedBehaviour)"

section \<open>Signature operations\<close>

definition GetLegacySigOpCount :: "CTransaction \<Rightarrow> 32 word" where
  "GetLegacySigOpCount tx =
     sum_list (map (\<lambda>i. of_nat (GetSigOpCount (scriptSig i) False)) (vin tx)) +
     sum_list (map (\<lambda>v. of_nat (GetSigOpCount (scriptPubKey v) False)) (vout tx))"

fun p2sh_sigops_loop ::
    "coin_usage \<Rightarrow> 'v coins_view \<Rightarrow> 32 word \<Rightarrow> CTxIn list \<Rightarrow> 'v CCoinsViewCache \<Rightarrow>
     (32 word \<times> 'v CCoinsViewCache) outcome" where
  "p2sh_sigops_loop usage V nSigOps [] inputs = Ret (nSigOps, inputs)"
| "p2sh_sigops_loop usage V nSigOps (i # ins) inputs =
     (case AccessCoin usage V inputs (prevout i) of
        (coin, inputs') \<Rightarrow>
          if IsSpent coin then AssertFail
          else p2sh_sigops_loop usage V
            (if IsPayToScriptHash (scriptPubKey (coin_out coin))
             then nSigOps + of_nat (GetSigOpCount_p2sh (scriptPubKey (coin_out coin)) (scriptSig i))
             else nSigOps) ins inputs')"

definition GetP2SHSigOpCount ::
    "coin_usage \<Rightarrow> 'v coins_view \<Rightarrow> CTransaction \<Rightarrow> 'v CCoinsViewCache \<Rightarrow>
     (32 word \<times> 'v CCoinsViewCache) outcome" where
  "GetP2SHSigOpCount usage V tx inputs =
     (if IsCoinBase tx then Ret (0, inputs) else p2sh_sigops_loop usage V 0 (vin tx) inputs)"

text \<open>\<open>CountWitnessSigOps\<close> asserts that the P2SH flag comes with the witness flag.\<close>

fun witness_sigops_loop ::
    "coin_usage \<Rightarrow> 'v coins_view \<Rightarrow> flags \<Rightarrow> int \<Rightarrow> CTxIn list \<Rightarrow> 'v CCoinsViewCache \<Rightarrow>
     (int \<times> 'v CCoinsViewCache) outcome" where
  "witness_sigops_loop usage V flags nSigOps [] inputs = Ret (nSigOps, inputs)"
| "witness_sigops_loop usage V flags nSigOps (i # ins) inputs =
     (case AccessCoin usage V inputs (prevout i) of
        (coin, inputs') \<Rightarrow>
          if IsSpent coin then AssertFail
          else (case CountWitnessSigOps (scriptSig i) (scriptPubKey (coin_out coin)) (scriptWitness i) flags of
             None \<Rightarrow> AssertFail
           | Some n \<Rightarrow> witness_sigops_loop usage V flags (nSigOps + int n) ins inputs'))"

text \<open>The products are of 32 bits; the sum is an \<^verbatim>\<open>int64_t\<close>.\<close>

definition GetTransactionSigOpCost ::
    "coin_usage \<Rightarrow> 'v coins_view \<Rightarrow> CTransaction \<Rightarrow> 'v CCoinsViewCache \<Rightarrow> flags \<Rightarrow>
     (int \<times> 'v CCoinsViewCache) outcome" where
  "GetTransactionSigOpCost usage V tx inputs flags =
     (let nSigOps = uint (GetLegacySigOpCount tx * of_nat WITNESS_SCALE_FACTOR)
      in if IsCoinBase tx \<or> IsCoinStake tx then Ret (nSigOps, inputs)
         else case (if has_flag flags SCRIPT_VERIFY_P2SH then GetP2SHSigOpCount usage V tx inputs
                    else Ret (0, inputs)) of
           Ret (n, inputs') \<Rightarrow>
             witness_sigops_loop usage V flags (nSigOps + uint (n * of_nat WITNESS_SCALE_FACTOR)) (vin tx) inputs'
         | AssertFail \<Rightarrow> AssertFail
         | UndefinedBehaviour \<Rightarrow> UndefinedBehaviour)"

section \<open>Context free checks\<close>

text \<open>The loop over the outputs: the state of a rejection, or the total.  \<open>next_height\<close> is the height
  after the active chain.\<close>

fun check_outputs ::
    "Params \<Rightarrow> int \<Rightarrow> bool \<Rightarrow> CValidationState \<Rightarrow> int \<Rightarrow> CTxOut list \<Rightarrow> CValidationState + int" where
  "check_outputs params next_height user_tx state nValueOut [] = Inr nValueOut"
| "check_outputs params next_height user_tx state nValueOut (tx_out # outs) =
     (if TxOut_IsEmpty tx_out \<and> user_tx \<and> next_height \<ge> p_UBCONTRACT_Height params
        then Inl (DoS 100 REJECT_INVALID ''txout empty for user transaction'' False state)
      else if sint (nValue tx_out) < 0
        then Inl (DoS 100 REJECT_INVALID ''bad-txns-vout-negative'' False state)
      else if sint (nValue tx_out) > MAX_MONEY
        then Inl (DoS 100 REJECT_INVALID ''bad-txns-vout-toolarge'' False state)
      else if \<not> MoneyRange (nValueOut + sint (nValue tx_out))
        then Inl (DoS 100 REJECT_INVALID ''bad-txns-txouttotal-toolarge'' False state)
      else check_outputs params next_height user_tx state (nValueOut + sint (nValue tx_out)) outs)"

fun has_duplicate :: "COutPoint set \<Rightarrow> CTxIn list \<Rightarrow> bool" where
  "has_duplicate vInOutPoints [] = False"
| "has_duplicate vInOutPoints (txin # ins) =
     (if prevout txin \<in> vInOutPoints then True else has_duplicate (insert (prevout txin) vInOutPoints) ins)"

definition CheckTransaction ::
    "fork_nums \<Rightarrow> Params \<Rightarrow> int \<Rightarrow> CTransaction \<Rightarrow> CValidationState \<Rightarrow> bool \<Rightarrow> bool \<times> CValidationState" where
  "CheckTransaction forks params active_height tx state fCheckDuplicateInputs =
     (if vin tx = [] then (False, DoS 10 REJECT_INVALID ''bad-txns-vin-empty'' False state)
      else if vout tx = [] then (False, DoS 10 REJECT_INVALID ''bad-txns-vout-empty'' False state)
      else if length (SerializeTransaction False tx) * WITNESS_SCALE_FACTOR > MaxBlockSize forks (-1)
        then (False, DoS 100 REJECT_INVALID ''bad-txns-oversize'' False state)
      else case check_outputs params (active_height + 1) (\<not> IsCoinBase tx \<and> \<not> IsCoinStake tx) state 0 (vout tx) of
        Inl state' \<Rightarrow> (False, state')
      | Inr nValueOut \<Rightarrow>
          if fCheckDuplicateInputs \<and> has_duplicate {} (vin tx)
            then (False, DoS 100 REJECT_INVALID ''bad-txns-inputs-duplicate'' False state)
          else if IsCoinBase tx then
            (if length (scriptSig (vin tx ! 0)) < 2 \<or> length (scriptSig (vin tx ! 0)) > 100
             then (False, DoS 100 REJECT_INVALID ''bad-cb-length'' False state)
             else (True, state))
          else if IsCoinStake tx then (True, state)
          else if \<exists>i \<in> set (vin tx). OutPoint_IsNull (prevout i)
            then (False, DoS 10 REJECT_INVALID ''bad-txns-prevout-null'' False state)
          else (True, state))"

section \<open>Checks of the inputs\<close>

fun sum_inputs ::
    "coin_usage \<Rightarrow> 'v coins_view \<Rightarrow> fork_nums \<Rightarrow> int \<Rightarrow> CValidationState \<Rightarrow> int \<Rightarrow> CTxIn list \<Rightarrow>
     'v CCoinsViewCache \<Rightarrow> ((CValidationState + int) \<times> 'v CCoinsViewCache) outcome" where
  "sum_inputs usage V forks nSpendHeight state nValueIn [] inputs = Ret (Inr nValueIn, inputs)"
| "sum_inputs usage V forks nSpendHeight state nValueIn (i # ins) inputs =
     (case AccessCoin usage V inputs (prevout i) of
        (coin, inputs') \<Rightarrow>
          let h = int (unat (coin_nHeight coin)); v = sint (nValue (coin_out coin))
          in if IsSpent coin then AssertFail
             else if word_of_int nSpendHeight \<noteq> UB_FORK4_BLOCK_NUM forks \<and> fCoinBase coin \<and>
                 nSpendHeight - h < getCoinBaseMaturity forks h
               then Ret (Inl (Invalid REJECT_INVALID ''bad-txns-premature-spend-of-coinbase'' state), inputs')
             else if \<not> is_int64 (nValueIn + v) then UndefinedBehaviour
             else if \<not> MoneyRange v \<or> \<not> MoneyRange (nValueIn + v)
               then Ret (Inl (DoS 100 REJECT_INVALID ''bad-txns-inputvalues-outofrange'' False state), inputs')
             else sum_inputs usage V forks nSpendHeight state (nValueIn + v) ins inputs')"

text \<open>The deposits and withdrawals of a contract transaction, each summed in 64 bits.\<close>

definition contract_amounts ::
    "script_crypto \<Rightarrow> chain_ctx \<Rightarrow> 'code contract_host \<Rightarrow> CTransaction \<Rightarrow> (string + 64 word \<times> 64 word) outcome" where
  "contract_amounts c ctx host tx =
     (case (case tx_HasOpDepositToContract c ctx tx of
              Ret False \<Rightarrow> tx_HasOpSpend c ctx tx
            | r \<Rightarrow> r) of
        Ret False \<Rightarrow> Ret (Inr (0, 0))
      | Ret True \<Rightarrow>
          map_outcome (\<lambda>r. case r of
              Inl e \<Rightarrow> Inl e
            | Inr ext \<Rightarrow> Inr (sum_list (map (deposit_amount \<circ> ct_params) (ext_txs ext)),
                             sum_list (map wi_amount (contract_withdraw_infos ext))))
            (extractionContractTransactions c ctx host False tx)
      | AssertFail \<Rightarrow> AssertFail
      | UndefinedBehaviour \<Rightarrow> UndefinedBehaviour)"

text \<open>\<open>Threw\<close> is the exception of \<^verbatim>\<open>GetValueOut\<close>.\<close>

datatype inputs_result = Passed int | Failed CValidationState | Threw

text \<open>The fee, from the value of the inputs, the contract amounts and the outputs; signed overflow is
  undefined.\<close>

definition tally_fee :: "CValidationState \<Rightarrow> int \<Rightarrow> 64 word \<times> 64 word \<Rightarrow> int \<Rightarrow> inputs_result outcome" where
  "tally_fee state nValueIn amounts value_out =
     (let dep = sint (fst amounts); wd = sint (snd amounts)
      in if \<not> is_int64 (nValueIn + wd) \<or> \<not> is_int64 (value_out + dep) then UndefinedBehaviour
         else if nValueIn + wd < value_out + dep
           then Ret (Failed (DoS 100 REJECT_INVALID ''bad-txns-in-belowout'' False state))
         else if \<not> is_int64 (nValueIn + wd - value_out) \<or> \<not> is_int64 (nValueIn + wd - value_out - dep)
           then UndefinedBehaviour
         else if \<not> MoneyRange (nValueIn + wd - value_out - dep)
           then Ret (Failed (DoS 100 REJECT_INVALID ''bad-txns-fee-outofrange'' False state))
         else Ret (Passed (nValueIn + wd - value_out - dep)))"

definition CheckTxInputs ::
    "coin_usage \<Rightarrow> 'v coins_view \<Rightarrow> fork_nums \<Rightarrow> script_crypto \<Rightarrow> chain_ctx \<Rightarrow> 'code contract_host \<Rightarrow>
     CTransaction \<Rightarrow> CValidationState \<Rightarrow> 'v CCoinsViewCache \<Rightarrow> int \<Rightarrow>
     (inputs_result \<times> 'v CCoinsViewCache) outcome" where
  "CheckTxInputs usage V forks c ctx host tx state inputs nSpendHeight =
     (case HaveInputs usage V inputs tx of
        (False, inputs1) \<Rightarrow>
          Ret (Failed (DoS 100 REJECT_INVALID ''bad-txns-inputs-missingorspent'' False state), inputs1)
      | (True, inputs1) \<Rightarrow>
          (case sum_inputs usage V forks nSpendHeight state 0 (vin tx) inputs1 of
             Ret (Inl state', inputs2) \<Rightarrow> Ret (Failed state', inputs2)
           | Ret (Inr nValueIn, inputs2) \<Rightarrow>
               (case contract_amounts c ctx host tx of
                  Ret (Inl e) \<Rightarrow>
                    Ret (Failed (Invalid REJECT_INVALID (''bad-tx-bad-contract-format '' @ e) state), inputs2)
                | Ret (Inr amounts) \<Rightarrow>
                    (case GetValueOut tx of
                       Ret None \<Rightarrow> Ret (Threw, inputs2)
                     | Ret (Some value_out) \<Rightarrow>
                         map_outcome (\<lambda>r. (r, inputs2)) (tally_fee state nValueIn amounts value_out)
                     | AssertFail \<Rightarrow> AssertFail
                     | UndefinedBehaviour \<Rightarrow> UndefinedBehaviour)
                | AssertFail \<Rightarrow> AssertFail
                | UndefinedBehaviour \<Rightarrow> UndefinedBehaviour)
           | AssertFail \<Rightarrow> AssertFail
           | UndefinedBehaviour \<Rightarrow> UndefinedBehaviour))"

end
