(* ===== verification/TxVerifyProps.thy ===== *)
theory TxVerifyProps
  imports TxVerify ContractProps
begin

text \<open>
  What the consensus rules on transactions guarantee: the context free checks accept exactly the well
  formed transactions, and the lock times a script asks for are
  kept by the block that includes the transaction.
\<close>

section \<open>Context free checks\<close>

definition total_out :: "CTxOut list \<Rightarrow> int" where
  "total_out outs = sum_list (map (\<lambda>v. sint (nValue v)) outs)"

definition outputs_ok :: "CTxOut list \<Rightarrow> bool" where
  "outputs_ok outs \<longleftrightarrow> (\<forall>v \<in> set outs. MoneyRange (sint (nValue v))) \<and> MoneyRange (total_out outs)"

definition tx_well_formed :: "Params \<Rightarrow> int \<Rightarrow> CTransaction \<Rightarrow> bool" where
  "tx_well_formed params active_height tx \<longleftrightarrow>
     vin tx \<noteq> [] \<and> vout tx \<noteq> [] \<and> length (SerializeTransaction False tx) \<le> 8000000 \<and>
     outputs_ok (vout tx) \<and> distinct (map prevout (vin tx)) \<and>
     (if IsCoinBase tx then 2 \<le> length (scriptSig (vin tx ! 0)) \<and> length (scriptSig (vin tx ! 0)) \<le> 100
      else IsCoinStake tx \<or>
        (\<forall>i \<in> set (vin tx). \<not> OutPoint_IsNull (prevout i)) \<and>
        (p_UBCONTRACT_Height params \<le> active_height + 1 \<longrightarrow> (\<forall>v \<in> set (vout tx). \<not> TxOut_IsEmpty v)))"

lemma total_out_nonneg:
  "\<forall>v \<in> set outs. 0 \<le> sint (nValue v) \<Longrightarrow> 0 \<le> total_out outs"
  by (induction outs) (auto simp: total_out_def)

text \<open>Amounts in range add up in range exactly when every prefix does.\<close>

lemma check_outputs_iff:
  assumes "MoneyRange n"
  shows "check_outputs params next_height user state n outs = Inr m \<longleftrightarrow>
    m = n + total_out outs \<and> MoneyRange m \<and> (\<forall>v \<in> set outs. MoneyRange (sint (nValue v))) \<and>
    (user \<and> p_UBCONTRACT_Height params \<le> next_height \<longrightarrow> (\<forall>v \<in> set outs. \<not> TxOut_IsEmpty v))"
  using assms
proof (induction outs arbitrary: n)
  case Nil
  then show ?case by (auto simp: total_out_def)
next
  case (Cons a outs)
  let ?v = "sint (nValue a)"
  show ?case
  proof (cases "(TxOut_IsEmpty a \<and> user \<and> p_UBCONTRACT_Height params \<le> next_height) \<or> \<not> MoneyRange ?v \<or>
      \<not> MoneyRange (n + ?v)")
    case True
    have "False" if "MoneyRange (n + total_out (a # outs))" "\<forall>v \<in> set outs. MoneyRange (sint (nValue v))"
      "MoneyRange ?v" "\<not> MoneyRange (n + ?v)"
    proof -
      have "0 \<le> total_out outs" using that(2) by (intro total_out_nonneg) (simp add: MoneyRange_def)
      then show False using that(1,3,4) Cons.prems by (simp add: MoneyRange_def total_out_def)
    qed
    then show ?thesis using True by (auto simp: MoneyRange_def)
  next
    case False
    then have "check_outputs params next_height user state n (a # outs) =
        check_outputs params next_height user state (n + ?v) outs"
      by (auto simp: MoneyRange_def)
    then show ?thesis using Cons.IH [of "n + ?v"] False by (auto simp: total_out_def)
  qed
qed

lemma check_outputs_reject:
  "check_outputs params next_height user state n outs = Inl s \<Longrightarrow>
   \<exists>reason. s = DoS 100 REJECT_INVALID reason False state"
  by (induction outs arbitrary: n) (auto split: if_splits)

lemma has_duplicate_iff:
  "has_duplicate S ins \<longleftrightarrow> \<not> distinct (map prevout ins) \<or> set (map prevout ins) \<inter> S \<noteq> {}"
  by (induction ins arbitrary: S) auto

lemma MaxBlockSize_max [simp]: "MaxBlockSize forks (-1) = 32000000"
  by (simp add: MaxBlockSize_def not_less)

text \<open>C22: the context free checks accept exactly the well-formed transactions, and leave the validation
  state alone; otherwise a valid state becomes invalid with a score of 10 or 100.\<close>

theorem check_transaction_iff:
  "CheckTransaction forks params h tx ValidationState True =
     (tx_well_formed params h tx, snd (CheckTransaction forks params h tx ValidationState True)) \<and>
   (if tx_well_formed params h tx then snd (CheckTransaction forks params h tx ValidationState True) = ValidationState
    else state_IsInvalid (snd (CheckTransaction forks params h tx ValidationState True)) \<in> {Some 10, Some 100})"
proof -
  let ?user = "\<not> IsCoinBase tx \<and> \<not> IsCoinStake tx"
  let ?r = "check_outputs params (h + 1) ?user ValidationState 0 (vout tx)"
  have dos: "state_IsInvalid (DoS n code reason corr ValidationState) = Some n" for n code reason corr
    by (simp add: state_IsInvalid_def DoS_def ValidationState_def Let_def)
  have zero: "MoneyRange 0" by (simp add: MoneyRange_def)
  note outs = check_outputs_iff [OF zero, of params "h + 1" ?user ValidationState "vout tx"]
  show ?thesis
  proof (cases ?r)
    case (Inl s)
    then have "\<not> tx_well_formed params h tx"
      using outs [of "total_out (vout tx)"] by (auto simp: tx_well_formed_def outputs_ok_def)
    moreover obtain reason where "s = DoS 100 REJECT_INVALID reason False ValidationState"
      using check_outputs_reject [OF Inl] by blast
    ultimately show ?thesis using Inl by (simp add: CheckTransaction_def dos)
  next
    case (Inr m)
    note eq = iffD1 [OF outs Inr]
    then have m: "outputs_ok (vout tx)"
      "?user \<and> p_UBCONTRACT_Height params \<le> h + 1 \<longrightarrow> (\<forall>v \<in> set (vout tx). \<not> TxOut_IsEmpty v)"
      unfolding outputs_ok_def by auto
    then show ?thesis
      using Inr by (auto simp: CheckTransaction_def tx_well_formed_def dos has_duplicate_iff not_less)
  qed
qed

section \<open>Absolute lock times\<close>

lemma all_final_iff: "all_final ins \<longleftrightarrow> (\<forall>i \<in> set ins. nSequence i = 0xffffffff)"
  by (induction ins) auto

text \<open>C23: a transaction whose script passed a check of its lock time is final only in blocks past the lock
  the script asked for, by height or by time.\<close>

theorem absolute_lock_enforced:
  assumes "tx_CheckLockTime tx nIn lock" and "IsFinalTx tx nBlockHeight nBlockTime"
    and "nIn < length (vin tx)" and "0 < lock"
  shows "lock < (if lock < LOCKTIME_THRESHOLD then nBlockHeight else nBlockTime)"
proof -
  have "vin tx ! nIn \<in> set (vin tx)" using assms(3) by simp
  moreover have "nSequence (vin tx ! nIn) \<noteq> 0xffffffff"
    using assms(1) by (auto simp: tx_CheckLockTime_def Let_def split: if_splits)
  ultimately have "\<not> all_final (vin tx)" by (auto simp: all_final_iff)
  moreover have "lock \<le> uint (nLockTime tx)"
    "uint (nLockTime tx) < LOCKTIME_THRESHOLD \<longleftrightarrow> lock < LOCKTIME_THRESHOLD"
    using assms(1) by (auto simp: tx_CheckLockTime_def Let_def split: if_splits)
  ultimately show ?thesis
    using assms(2,4) by (auto simp: IsFinalTx_def split: if_splits)
qed

definition sample_locked_tx :: CTransaction where
  "sample_locked_tx =
     \<lparr>vin = [\<lparr>prevout = OutPoint_null, scriptSig = [], nSequence = 1, scriptWitness = []\<rparr>],
      vout = [], nVersion = 2, nLockTime = 200\<rparr>"

theorem absolute_lock_enforced_witness:
  "tx_CheckLockTime sample_locked_tx 0 100 \<and> IsFinalTx sample_locked_tx 201 0 \<and> (100 :: int) < 201"
proof -
  have "tx_CheckLockTime sample_locked_tx 0 100" "IsFinalTx sample_locked_tx 201 0"
    by (simp_all add: tx_CheckLockTime_def IsFinalTx_def sample_locked_tx_def)
  then show ?thesis
    using absolute_lock_enforced [of sample_locked_tx 0 100 201 0] by (simp add: sample_locked_tx_def)
qed

section \<open>Relative lock times\<close>

lemma sequence_loop_bounds:
  assumes "sequence_loop H block ins hs mh mt = Ret ((mh', mt'), hs')" and "length hs = length ins"
  shows "mh \<le> mh' \<and> mt \<le> mt' \<and>
    (\<forall>i < length ins. nSequence (ins ! i) AND of_nat SEQUENCE_LOCKTIME_DISABLE_FLAG = 0 \<longrightarrow>
      (if nSequence (ins ! i) AND SEQUENCE_LOCKTIME_TYPE_FLAG = 0
       then hs ! i + uint (nSequence (ins ! i) AND SEQUENCE_LOCKTIME_MASK) - 1 \<le> mh'
       else \<exists>t. coin_time H block (hs ! i) = Ret t \<and>
         t + uint (push_bit SEQUENCE_LOCKTIME_GRANULARITY (nSequence (ins ! i) AND SEQUENCE_LOCKTIME_MASK)) - 1
           \<le> mt'))"
  using assms
proof (induction ins arbitrary: hs mh mt hs')
  case (Cons a ins)
  then obtain h hs1 where hs: "hs = h # hs1" "length hs1 = length ins" by (cases hs) auto
  let ?m = "nSequence a AND SEQUENCE_LOCKTIME_MASK"
  consider (off) "nSequence a AND of_nat SEQUENCE_LOCKTIME_DISABLE_FLAG \<noteq> 0"
    | (time) "nSequence a AND of_nat SEQUENCE_LOCKTIME_DISABLE_FLAG = 0" "nSequence a AND SEQUENCE_LOCKTIME_TYPE_FLAG \<noteq> 0"
    | (height) "nSequence a AND of_nat SEQUENCE_LOCKTIME_DISABLE_FLAG = 0" "nSequence a AND SEQUENCE_LOCKTIME_TYPE_FLAG = 0"
    by blast
  then show ?case
  proof cases
    case off
    then obtain hs2 where "sequence_loop H block ins hs1 mh mt = Ret ((mh', mt'), hs2)"
      using Cons.prems(1) by (auto simp: hs map_outcome_eq_Ret split: prod.splits)
    from Cons.IH [OF this hs(2)] off show ?thesis by (auto simp: hs less_Suc_eq_0_disj)
  next
    case time
    then obtain t hs2 where t: "coin_time H block h = Ret t"
      "sequence_loop H block ins hs1 mh (max mt (t + uint (push_bit SEQUENCE_LOCKTIME_GRANULARITY ?m) - 1)) =
        Ret ((mh', mt'), hs2)"
      using Cons.prems(1) by (auto simp: hs map_outcome_eq_Ret split: prod.splits outcome.splits)
    from Cons.IH [OF t(2) hs(2)] t(1) time show ?thesis by (auto simp: hs less_Suc_eq_0_disj)
  next
    case height
    then obtain hs2 where
      "sequence_loop H block ins hs1 (max mh (h + uint ?m - 1)) mt = Ret ((mh', mt'), hs2)"
      using Cons.prems(1) by (auto simp: hs map_outcome_eq_Ret split: prod.splits if_splits)
    from Cons.IH [OF this hs(2)] height show ?thesis by (auto simp: hs less_Suc_eq_0_disj)
  qed
qed simp

text \<open>The type bit and the value of a relative lock, on integers.\<close>

lemma and_power_int: "(y :: int) AND 2 ^ n = (if bit y n then 2 ^ n else 0)"
  by (rule bit_eqI) (auto simp: bit_and_iff bit_exp_iff)

lemma and_low_int: "(y :: int) AND 0xffff = y mod 65536"
proof -
  have "y AND mask 16 = y mod 2 ^ 16" by (metis take_bit_eq_mask take_bit_eq_mod)
  then show ?thesis by (simp add: mask_eq_exp_minus_1)
qed

lemma and_lock_int: "(y :: int) AND 0x40ffff = (y AND 0x400000) + (y AND 0xffff)"
proof -
  have "(0x40ffff :: int) = 0x400000 OR 0xffff" by simp
  then have "y AND 0x40ffff = (y AND 0x400000) OR (y AND 0xffff)" by (simp only: bit.conj_disj_distrib)
  moreover have "(y AND 0x400000) AND (y AND 0xffff) = 0"
  proof -
    have "(y AND 0x400000) AND (y AND 0xffff) = (y AND y) AND (0x400000 AND 0xffff)"
      by (simp only: ac_simps)
    then show ?thesis by simp
  qed
  ultimately show ?thesis by (simp add: disjunctive_add_eq_or)
qed

lemma uint_and: "uint (x AND y :: 32 word) = uint x AND uint y" by (rule unsigned_and_eq)

lemma uint_push_lock: "uint (push_bit 9 (x AND 0xffff :: 32 word)) = 512 * uint (x AND 0xffff)"
proof -
  have "uint (x AND 0xffff) = uint x mod 65536" by (simp add: uint_and and_low_int)
  then have "uint (x AND 0xffff) < 65536" by simp
  then show ?thesis by (simp add: push_bit_eq_mult uint_word_ariths mult.commute)
qed

lemma relative_lock_value:
  assumes "tx_CheckSequence tx nIn sequence"
  defines "s \<equiv> nSequence (vin tx ! nIn)"
  shows "nVersion tx \<ge> 2" and "s AND of_nat SEQUENCE_LOCKTIME_DISABLE_FLAG = 0"
    and "s AND SEQUENCE_LOCKTIME_TYPE_FLAG = 0 \<longleftrightarrow> sequence AND 0x400000 = 0"
    and "sequence AND 0xffff \<le> uint (s AND SEQUENCE_LOCKTIME_MASK)"
proof -
  let ?x = "uint s"
  have ux: "uint (s AND SEQUENCE_LOCKTIME_TYPE_FLAG) = ?x AND 0x400000"
    "uint (s AND SEQUENCE_LOCKTIME_MASK) = ?x AND 0xffff"
    "uint (s AND of_nat SEQUENCE_LOCKTIME_DISABLE_FLAG) = ?x AND 0x80000000"
    by (simp_all add: uint_and)
  have bit: "y AND 0x400000 = (if bit y 22 then 0x400000 else 0)" for y :: int
    using and_power_int [of y 22] by simp
  have low: "0 \<le> y AND 0xffff \<and> y AND 0xffff < 65536" for y :: int by (simp add: and_low_int)
  from assms have c: "\<not> nVersion tx < 2" "?x AND 0x80000000 = 0"
    "?x AND 0x40ffff < 0x400000 \<longleftrightarrow> sequence AND 0x40ffff < 0x400000"
    "sequence AND 0x40ffff \<le> ?x AND 0x40ffff"
    by (auto simp: tx_CheckSequence_def Let_def s_def split: if_splits)
  show "nVersion tx \<ge> 2" using c(1) by simp
  show "s AND of_nat SEQUENCE_LOCKTIME_DISABLE_FLAG = 0" using c(2) ux(3) by (simp add: word_uint_eq_iff)
  have same: "bit ?x 22 \<longleftrightarrow> bit sequence 22"
    using c(3) low [of ?x] low [of sequence] by (auto simp: and_lock_int bit split: if_splits)
  then show "s AND SEQUENCE_LOCKTIME_TYPE_FLAG = 0 \<longleftrightarrow> sequence AND 0x400000 = 0"
    using ux(1) by (auto simp: word_uint_eq_iff bit split: if_splits)
  show "sequence AND 0xffff \<le> uint (s AND SEQUENCE_LOCKTIME_MASK)"
    using c(4) same ux(2) by (auto simp: and_lock_int bit split: if_splits)
qed

text \<open>C24: a transaction whose script passed a check of a relative lock, and which meets the sequence locks of
  a block, is in a block that is high enough above the coin it spends, or whose predecessor's median time
  is late enough after the one of the coin.\<close>

theorem relative_lock_enforced:
  assumes "tx_CheckSequence tx nIn sequence" and "nIn < length (vin tx)"
    and "SequenceLocks H tx LOCKTIME_VERIFY_SEQUENCE prevHeights block = Ret True"
    and "H block = Some b" and "pprev b = Some p" and "GetMedianTimePast H p = Ret t"
  shows "if sequence AND 0x400000 = 0
    then prevHeights ! nIn + (sequence AND 0xffff) \<le> nHeight b
    else \<exists>ct. coin_time H block (prevHeights ! nIn) = Ret ct \<and> ct + 512 * (sequence AND 0xffff) \<le> t"
proof -
  note lock = relative_lock_value [OF assms(1)]
  obtain mh mt hs where calc: "CalculateSequenceLocks H tx LOCKTIME_VERIFY_SEQUENCE prevHeights block =
      Ret ((mh, mt), hs)" "EvaluateSequenceLocks H block (mh, mt) = Ret True"
    using assms(3) by (auto simp: SequenceLocks_def split: outcome.splits)
  then have len: "length prevHeights = length (vin tx)"
    and loop: "sequence_loop H block (vin tx) prevHeights (-1) (-1) = Ret ((mh, mt), hs)"
    using lock(1) by (auto simp: CalculateSequenceLocks_def split: if_splits)
  have "mh < nHeight b" "mt < t"
    using calc(2) assms(4-6) by (auto simp: EvaluateSequenceLocks_def split: if_splits)
  let ?s = "nSequence (vin tx ! nIn)"
  from sequence_loop_bounds [OF loop len] assms(2) lock(2) have
    bound: "if ?s AND SEQUENCE_LOCKTIME_TYPE_FLAG = 0
      then prevHeights ! nIn + uint (?s AND SEQUENCE_LOCKTIME_MASK) - 1 \<le> mh
      else \<exists>ct. coin_time H block (prevHeights ! nIn) = Ret ct \<and>
        ct + 512 * uint (?s AND SEQUENCE_LOCKTIME_MASK) - 1 \<le> mt"
    unfolding uint_push_lock by blast
  show ?thesis
  proof (cases "sequence AND 0x400000 = 0")
    case True
    with bound lock(3,4) \<open>mh < nHeight b\<close> show ?thesis by simp
  next
    case False
    with bound lock(3) obtain ct where ct: "coin_time H block (prevHeights ! nIn) = Ret ct"
      "ct + 512 * uint (?s AND SEQUENCE_LOCKTIME_MASK) - 1 \<le> mt" by auto
    with lock(4) \<open>mt < t\<close> have "ct + 512 * (sequence AND 0xffff) \<le> t" by linarith
    with ct False show ?thesis by auto
  qed
qed

lemma sample_median: "GetMedianTimePast sample_index [1] = Ret 11"
proof -
  have "past_times sample_index (Suc (Suc (Suc n))) (Some [1]) = Ret [11, 10]" for n by simp
  from this [of 8] have "past_times sample_index 11 (Some [1]) = Ret [11, 10]"
    by (simp add: eval_nat_numeral)
  then show ?thesis by (simp add: GetMedianTimePast_def)
qed

theorem relative_lock_enforced_witness:
  "SequenceLocks sample_index sample_locked_tx LOCKTIME_VERIFY_SEQUENCE [1] [2] = Ret True \<and>
   (1 :: int) + (1 AND 0xffff) \<le> 2"
proof -
  have s: "SequenceLocks sample_index sample_locked_tx LOCKTIME_VERIFY_SEQUENCE [1] [2] = Ret True"
    by (simp add: SequenceLocks_def CalculateSequenceLocks_def EvaluateSequenceLocks_def sample_locked_tx_def
        is_int32_def sample_median)
  have c: "tx_CheckSequence sample_locked_tx 0 1" by (simp add: tx_CheckSequence_def sample_locked_tx_def)
  show ?thesis
    using relative_lock_enforced [OF c _ s _ _ sample_median] s by (simp add: sample_locked_tx_def)
qed

end
