(* ===== verification/TxAmounts.thy ===== *)
theory TxAmounts
  imports TxVerifyProps
begin

text \<open>What \<^verbatim>\<open>CheckTxInputs\<close> of \<^verbatim>\<open>src/consensus/tx_verify.cpp\<close> guarantees of the values a
  transaction spends and creates, over the coin views, and how deposits escape it.\<close>

section \<open>Values of inputs and outputs\<close>

definition coin_value :: "Coin \<Rightarrow> int" where
  "coin_value x = sint (nValue (coin_out x))"

definition coin_mature :: "fork_nums \<Rightarrow> int \<Rightarrow> Coin \<Rightarrow> bool" where
  "coin_mature forks nSpendHeight x \<longleftrightarrow>
     word_of_int nSpendHeight = UB_FORK4_BLOCK_NUM forks \<or> \<not> fCoinBase x \<or>
     nSpendHeight - int (unat (coin_nHeight x)) \<ge> getCoinBaseMaturity forks (int (unat (coin_nHeight x)))"

definition total_in :: "coin_set \<Rightarrow> CTxIn list \<Rightarrow> int" where
  "total_in C ins = sum_list (map (\<lambda>i. coin_value (the (C (prevout i)))) ins)"

context lawful_view
begin

lemma AccessCoin_holds:
  assumes "holds c C" and "AccessCoin usage V c k = (x, c')"
  shows "holds c' C \<and> C k = (if IsSpent x then None else Some x)"
  using AccessCoin_spec [OF _ assms(2)] assms(1) by (auto simp: holds_def)

lemma HaveCoin_holds:
  assumes "holds c C" and "HaveCoin usage V c k = (r, c')"
  shows "holds c' C \<and> r = (C k \<noteq> None)"
  using HaveCoin_spec [OF _ assms(2)] assms(1) by (auto simp: holds_def)

lemma HaveInputs_holds:
  assumes "holds c C" and "HaveInputs usage V c tx = (r, c')"
  shows "holds c' C"
proof -
  have "holds c1 C \<Longrightarrow> have_inputs_loop usage V c1 ins = (r1, c2) \<Longrightarrow> holds c2 C" for c1 ins r1 c2
  proof (induction ins arbitrary: c1)
    case (Cons i ins)
    obtain q c3 where q: "HaveCoin usage V c1 (prevout i) = (q, c3)" by fastforce
    with HaveCoin_holds [OF Cons.prems(1) q] Cons show ?case by (cases q) auto
  qed simp
  then show ?thesis using assms by (auto simp: HaveInputs_def split: if_splits)
qed

lemma sum_inputs_spec:
  assumes "holds c C" and "sum_inputs usage V forks h state n ins c = Ret (Inr m, c')"
  shows "holds c' C \<and> m = n + total_in C ins \<and>
    (\<forall>i \<in> set ins. \<exists>x. C (prevout i) = Some x \<and> coin_mature forks h x \<and> MoneyRange (coin_value x))"
  using assms
proof (induction ins arbitrary: c n)
  case (Cons i ins)
  obtain x c1 where a: "AccessCoin usage V c (prevout i) = (x, c1)" by fastforce
  note acc = AccessCoin_holds [OF Cons.prems(1) a]
  from Cons.prems(2) a have s: "\<not> IsSpent x" "coin_mature forks h x" "MoneyRange (coin_value x)"
    "sum_inputs usage V forks h state (n + coin_value x) ins c1 = Ret (Inr m, c')"
    by (auto simp: Let_def coin_mature_def coin_value_def not_less split: if_splits)
  from Cons.IH [OF _ s(4)] acc s(1-3) show ?case by (auto simp: total_in_def)
qed (simp add: total_in_def)

lemma CheckTxInputs_passed:
  assumes "holds c C" and "CheckTxInputs usage V forks cr ctx host tx state c h = Ret (Passed fee, c')"
  shows "holds c' C \<and>
    (\<forall>i \<in> set (vin tx). \<exists>x. C (prevout i) = Some x \<and> coin_mature forks h x \<and> MoneyRange (coin_value x)) \<and>
    (\<exists>dep wd out. contract_amounts cr ctx host tx = Ret (Inr (dep, wd)) \<and> GetValueOut tx = Ret (Some out) \<and>
      fee = total_in C (vin tx) + sint wd - out - sint dep) \<and> MoneyRange fee"
proof -
  obtain r c1 where hv: "HaveInputs usage V c tx = (r, c1)" by fastforce
  note h1 = HaveInputs_holds [OF assms(1) hv]
  from assms(2) hv obtain total where
    si: "sum_inputs usage V forks h state 0 (vin tx) c1 = Ret (Inr total, c')"
    and rest: "\<exists>amounts out. contract_amounts cr ctx host tx = Ret (Inr amounts) \<and>
      GetValueOut tx = Ret (Some out) \<and> tally_fee state total amounts out = Ret (Passed fee)"
    by (auto simp: CheckTxInputs_def map_outcome_eq_Ret
        split: bool.splits outcome.splits sum.splits prod.splits option.splits)
  from rest obtain dep wd out where r: "contract_amounts cr ctx host tx = Ret (Inr (dep, wd))"
    "GetValueOut tx = Ret (Some out)" "tally_fee state total (dep, wd) out = Ret (Passed fee)" by auto
  then have "fee = total + sint wd - out - sint dep" "MoneyRange fee"
    by (auto simp: tally_fee_def Let_def split: if_splits)
  with sum_inputs_spec [OF h1 si] r(1,2) show ?thesis by auto
qed

end

lemma value_out_total: "value_out_loop n outs = Ret (Some m) \<Longrightarrow> m = n + total_out outs"
  by (induction outs arbitrary: n) (fastforce simp: Let_def total_out_def split: if_splits)+


text \<open>A view over the sample database, and transactions that spend its coin of 50.\<close>

abbreviation sample_view :: block_view where
  "sample_view \<equiv> SetBestBlock (CoinsViewCache (CoinsViewCache sample_db)) (replicate 32 9)"

abbreviation sample_ops :: "coins_db CCoinsViewCache coins_view" where
  "sample_ops \<equiv> tip_ops (\<lambda>_. 0) length 0"

definition sample_forks :: fork_nums where
  "sample_forks = \<lparr>UB_FORK_BLOCK_NUM = 1, UB_FORK1_BLOCK_NUM = 2, UB_FORK2_BLOCK_NUM = 3,
     UB_FORK4_BLOCK_NUM = 1000, COINBASE_MATURITY_FORKV1 = 20, COINBASE_MATURITY_FORKV2 = 10\<rparr>"

definition spending_tx :: "CTxOut list \<Rightarrow> CTransaction" where
  "spending_tx outs =
     \<lparr>vin = [\<lparr>prevout = sample_point 1, scriptSig = [], nSequence = 0, scriptWitness = []\<rparr>],
      vout = outs, nVersion = 1, nLockTime = 0\<rparr>"

lemma sample_view_coins: "block_view_coins sample_view = [sample_point 1 \<mapsto> sample_coin 50]"
  by (rule ext) (simp add: cache_coins_def SetBestBlock_def CoinsViewCache_def sample_db_def)

lemma sample_inputs:
  "\<exists>view1 view2. HaveInputs (\<lambda>_. 0) sample_ops sample_view (spending_tx outs) = (True, view1) \<and>
     sum_inputs (\<lambda>_. 0) sample_ops sample_forks 8 state 0 (vin (spending_tx outs)) view1 = Ret (Inr 50, view2)"
proof -
  have h: "coins_tip.holds sample_view [sample_point 1 \<mapsto> sample_coin 50]"
    using sample_view_ok sample_view_coins by (simp add: coins_tip.holds_def)
  obtain r view1 where r: "HaveCoin (\<lambda>_. 0) sample_ops sample_view (sample_point 1) = (r, view1)" by fastforce
  note h1 = coins_tip.HaveCoin_holds [OF h r]
  obtain x view2 where x: "AccessCoin (\<lambda>_. 0) sample_ops view1 (sample_point 1) = (x, view2)" by fastforce
  from coins_tip.AccessCoin_holds [OF conjunct1 [OF h1] x] have "x = sample_coin 50"
    by (auto split: if_splits)
  moreover have "\<not> IsCoinBase (spending_tx outs)"
    by (simp add: IsCoinBase_def spending_tx_def OutPoint_IsNull_def sample_point_def)
  ultimately show ?thesis
    using r h1 x
    by (auto simp: HaveInputs_def spending_tx_def Let_def sample_coin_def IsSpent_def TxOut_IsNull_def
        MoneyRange_def is_int64_def)
qed

lemma no_contract_op_return:
  "last_opcode c ctx [0x6a] = Ret None"
  using unspendable_fails [of "[0x6a]" "contract_env c ctx" "[]"]
  by (auto simp: last_opcode_def IsUnspendable_def)

lemma data_output_no_contract:
  "contract_amounts c ctx host (spending_tx [\<lparr>nValue = v, scriptPubKey = [0x6a]\<rparr>]) = Ret (Inr (0, 0))"
  by (simp add: contract_amounts_def tx_HasOpDepositToContract_def tx_HasOpSpend_def spending_tx_def
      HasOpDepositToContract_def HasOpSpend_def no_contract_op_return)


section \<open>Deposits\<close>

text \<open>An output that deposits \<open>a\<close>, read by the converter.\<close>

lemma deposit_parsed:
  assumes "call_script_ok OP_DEPOSIT_TO_CONTRACT [version, memo, amount, address, caller, limit, price]"
    and "vch_to_uint64 price = Inr p" and "(of_nat p :: 64 word) \<noteq> 0"
    and "vch_to_uint64 limit = Inr l" and "(of_nat l :: 64 word) \<noteq> 0"
    and "vch_to_uint64 amount = Inr a" and "(of_nat a :: 64 word) \<noteq> 0"
    and "vch_to_uint64 version = Inr v" and "length memo \<le> 100"
    and "IsValidDestinationString host caller" and "is_valid_contract_address_format host address"
    and "GetSenderAddress host tx = Inr caller" and "vin tx \<noteq> []"
  shows "\<exists>params. convert_output c ctx host tx i \<lparr>nValue = 0, scriptPubKey =
      call_script OP_DEPOSIT_TO_CONTRACT [version, memo, amount, address, caller, limit, price]\<rparr> e
      \<lparr>cv_stack = [], cv_opcode = o1, cv_ignore_sender_check = False\<rparr> =
    Ret (Inr (params, \<lparr>cv_stack = [], cv_opcode = OP_DEPOSIT_TO_CONTRACT, cv_ignore_sender_check = False\<rparr>)) \<and>
    deposit_amount params = of_nat a"
  using assms(2-13)
    convert_call [OF assms(1), of "\<lparr>cv_stack = [], cv_opcode = o1, cv_ignore_sender_check = False\<rparr>" c ctx host]
  by (simp add: enough_operands_def parseContractTXParams_def parse_DEPOSIT_def parser_simps finish_params_def
      params_of_def check_sender_def no_operands_def check_deposit_def load_code_def set_address_def
      set_names_def is_valid_deposit_memo_format_def)

definition big_deposit :: CTxOut where
  "big_deposit = \<lparr>nValue = 0, scriptPubKey = call_script OP_DEPOSIT_TO_CONTRACT
     [[1], [], [255, 255, 255, 255, 255, 255, 255, 127], [9], [7], [1], [10]]\<rparr>"

definition inflating_tx :: CTransaction where
  "inflating_tx = spending_tx [big_deposit, big_deposit, \<lparr>nValue = 52, scriptPubKey = [0x6a]\<rparr>]"

lemma big_deposit_ok:
  "call_script_ok OP_DEPOSIT_TO_CONTRACT
     [[1], [], [255, 255, 255, 255, 255, 255, 255, 127], [9], [7], [1], [10]]"
  by (simp add: call_script_ok_def call_script_def is_contract_op_def push_vch_def push_size_def)

lemma big_amount: "vch_to_uint64 [255, 255, 255, 255, 255, 255, 255, 127] = Inr 9223372036854775807"
proof -
  have "or_bytes 0 [255, 255, 255, 255, 255, 255, 255, 127] 0 = 9223372036854775807" by code_simp
  then show ?thesis by (simp add: vch_to_uint64_def)
qed

lemma big_deposit_parsed:
  "\<exists>params. convert_output c ctx sample_host inflating_tx i big_deposit e
      \<lparr>cv_stack = [], cv_opcode = o1, cv_ignore_sender_check = False\<rparr> =
    Ret (Inr (params, \<lparr>cv_stack = [], cv_opcode = OP_DEPOSIT_TO_CONTRACT, cv_ignore_sender_check = False\<rparr>)) \<and>
    deposit_amount params = 9223372036854775807"
proof -
  have "\<exists>params. convert_output c ctx sample_host inflating_tx i big_deposit e
      \<lparr>cv_stack = [], cv_opcode = o1, cv_ignore_sender_check = False\<rparr> =
    Ret (Inr (params, \<lparr>cv_stack = [], cv_opcode = OP_DEPOSIT_TO_CONTRACT, cv_ignore_sender_check = False\<rparr>)) \<and>
    deposit_amount params = of_nat 9223372036854775807"
    unfolding big_deposit_def
    by (rule deposit_parsed [OF big_deposit_ok, where p = 10 and l = 1 and v = 1])
       (simp_all add: big_amount, simp_all add: vch_to_uint64_def sample_host_def inflating_tx_def spending_tx_def)
  then show ?thesis by simp
qed

lemma inflating_amounts: "contract_amounts c ctx sample_host inflating_tx = Ret (Inr (- 2, 0))"
proof -
  have tests: "HasContractOp c ctx (scriptPubKey big_deposit) = Ret True"
    "HasOpDepositToContract c ctx (scriptPubKey big_deposit) = Ret True"
    using contract_tests_call [OF big_deposit_ok] last_opcode_call [OF big_deposit_ok]
    by (simp_all add: big_deposit_def HasOpDepositToContract_def)
  have none: "HasContractOp c ctx [0x6a] = Ret False" "HasOpSpend c ctx [0x6a] = Ret False"
    by (simp_all add: HasContractOp_def HasOpSpend_def no_contract_op_return)
  have sum: "(9223372036854775807 :: 64 word) + 9223372036854775807 = - 2" by code_simp
  obtain p1 where p1: "convert_output c ctx sample_host inflating_tx 0 big_deposit ''contract vout's value must be 0''
      \<lparr>cv_stack = [], cv_opcode = 0, cv_ignore_sender_check = False\<rparr> =
    Ret (Inr (p1, \<lparr>cv_stack = [], cv_opcode = OP_DEPOSIT_TO_CONTRACT, cv_ignore_sender_check = False\<rparr>))"
    "deposit_amount p1 = 9223372036854775807" using big_deposit_parsed by blast
  obtain p2 where p2: "convert_output c ctx sample_host inflating_tx (Suc 0) big_deposit ''contract vout's value must be 0''
      \<lparr>cv_stack = [], cv_opcode = OP_DEPOSIT_TO_CONTRACT, cv_ignore_sender_check = False\<rparr> =
    Ret (Inr (p2, \<lparr>cv_stack = [], cv_opcode = OP_DEPOSIT_TO_CONTRACT, cv_ignore_sender_check = False\<rparr>))"
    "deposit_amount p2 = 9223372036854775807" using big_deposit_parsed by blast
  have vout: "vout inflating_tx = [big_deposit, big_deposit, \<lparr>nValue = 52, scriptPubKey = [0x6a]\<rparr>]"
    by (simp add: inflating_tx_def spending_tx_def)
  show ?thesis
    using p1 p2 sum
    by (simp add: contract_amounts_def tx_HasOpDepositToContract_def extractionContractTransactions_def
        vout tests none createContractTX_def)
qed


end
