(* ===== verification/VersionBits.thy ===== *)
theory VersionBits
  imports ConsensusParams ChainProps "HOL-Library.Signed_Division"
begin

text \<open>
  Deployment of soft forks by version bits (\<^verbatim>\<open>src/src/versionbits.h\<close>, \<^verbatim>\<open>src/src/versionbits.cpp\<close>) and the version
  of new blocks (\<^verbatim>\<open>ComputeBlockVersion\<close> of \<^verbatim>\<open>src/src/validation.cpp\<close>).  The virtual functions of the threshold
  condition checker, applied to the consensus parameters, are a record.  A cache is a map whose keys are
  pointers to index entries, the null pointer among them.
\<close>

section \<open>Threshold conditions\<close>

datatype ThresholdState =
  THRESHOLD_DEFINED | THRESHOLD_STARTED | THRESHOLD_LOCKED_IN | THRESHOLD_ACTIVE | THRESHOLD_FAILED

type_synonym ThresholdConditionCache = "addr option \<Rightarrow> ThresholdState option"

record checker =
  Condition :: "CBlockIndex \<Rightarrow> bool"
  BeginTime :: int
  EndTime :: int
  Period :: int
  Threshold :: int

text \<open>The entry that ends the period before that of \<open>a\<close>; the remainder by zero is undefined.\<close>

definition period_end :: "index \<Rightarrow> checker \<Rightarrow> addr \<Rightarrow> addr option outcome" where
  "period_end H chk a =
     (case H a of
        None \<Rightarrow> UndefinedBehaviour
      | Some b \<Rightarrow>
          if Period chk = 0 then UndefinedBehaviour
          else GetAncestor H a (nHeight b - (nHeight b + 1) smod Period chk))"

text \<open>The loop back to an entry whose state is known; \<open>vToCompute\<close> has its last element first.  Each
  round goes down in height, so one unit of fuel per height is enough.\<close>

fun walk_back ::
    "nat \<Rightarrow> index \<Rightarrow> checker \<Rightarrow> ThresholdConditionCache \<Rightarrow> addr option \<Rightarrow> addr list \<Rightarrow>
     (ThresholdConditionCache \<times> addr option \<times> addr list) outcome" where
  "walk_back fuel H chk cache pindexPrev vToCompute =
     (if cache pindexPrev \<noteq> None then Ret (cache, pindexPrev, vToCompute)
      else case pindexPrev of
        None \<Rightarrow> Ret (cache(None \<mapsto> THRESHOLD_DEFINED), None, vToCompute)
      | Some a \<Rightarrow>
          (case GetMedianTimePast H a of
             Ret t \<Rightarrow>
               if t < BeginTime chk
               then Ret (cache(Some a \<mapsto> THRESHOLD_DEFINED), Some a, vToCompute)
               else (case (H a, fuel) of
                  (Some b, Suc n) \<Rightarrow>
                    (case GetAncestor H a (nHeight b - Period chk) of
                       Ret p \<Rightarrow> walk_back n H chk cache p (a # vToCompute)
                     | AssertFail \<Rightarrow> AssertFail
                     | UndefinedBehaviour \<Rightarrow> UndefinedBehaviour)
                | _ \<Rightarrow> UndefinedBehaviour)
           | AssertFail \<Rightarrow> AssertFail
           | UndefinedBehaviour \<Rightarrow> UndefinedBehaviour))"

declare walk_back.simps [simp del]

fun count_loop :: "nat \<Rightarrow> index \<Rightarrow> checker \<Rightarrow> addr option \<Rightarrow> int \<Rightarrow> int outcome" where
  "count_loop 0 H chk pindexCount cnt = Ret cnt"
| "count_loop (Suc n) H chk pindexCount cnt =
     (case Option.bind pindexCount H of
        None \<Rightarrow> UndefinedBehaviour
      | Some b \<Rightarrow> count_loop n H chk (pprev b) (if Condition chk b then cnt + 1 else cnt))"

text \<open>The state of the period after \<open>a\<close> from the state of the period that \<open>a\<close> ends.\<close>

definition next_threshold_state :: "index \<Rightarrow> checker \<Rightarrow> addr \<Rightarrow> ThresholdState \<Rightarrow> ThresholdState outcome" where
  "next_threshold_state H chk a state =
     (case state of
        THRESHOLD_DEFINED \<Rightarrow>
          map_outcome (\<lambda>t. if t \<ge> EndTime chk then THRESHOLD_FAILED
              else if t \<ge> BeginTime chk then THRESHOLD_STARTED else state) (GetMedianTimePast H a)
      | THRESHOLD_STARTED \<Rightarrow>
          (case GetMedianTimePast H a of
             Ret t \<Rightarrow>
               if t \<ge> EndTime chk then Ret THRESHOLD_FAILED
               else map_outcome (\<lambda>count. if count \<ge> Threshold chk then THRESHOLD_LOCKED_IN else state)
                 (count_loop (nat (Period chk)) H chk (Some a) 0)
           | AssertFail \<Rightarrow> AssertFail
           | UndefinedBehaviour \<Rightarrow> UndefinedBehaviour)
      | THRESHOLD_LOCKED_IN \<Rightarrow> Ret THRESHOLD_ACTIVE
      | THRESHOLD_FAILED \<Rightarrow> Ret state
      | THRESHOLD_ACTIVE \<Rightarrow> Ret state)"

fun walk_forward ::
    "index \<Rightarrow> checker \<Rightarrow> ThresholdState \<Rightarrow> addr list \<Rightarrow> ThresholdConditionCache \<Rightarrow>
     (ThresholdState \<times> ThresholdConditionCache) outcome" where
  "walk_forward H chk state [] cache = Ret (state, cache)"
| "walk_forward H chk state (a # vToCompute) cache =
     (case next_threshold_state H chk a state of
        Ret stateNext \<Rightarrow> walk_forward H chk stateNext vToCompute (cache(Some a \<mapsto> stateNext))
      | AssertFail \<Rightarrow> AssertFail
      | UndefinedBehaviour \<Rightarrow> UndefinedBehaviour)"

definition walk_fuel :: "index \<Rightarrow> addr option \<Rightarrow> nat" where
  "walk_fuel H p = (case Option.bind p H of None \<Rightarrow> 0 | Some b \<Rightarrow> Suc (nat (nHeight b)))"

definition GetStateFor ::
    "index \<Rightarrow> checker \<Rightarrow> addr option \<Rightarrow> ThresholdConditionCache \<Rightarrow>
     (ThresholdState \<times> ThresholdConditionCache) outcome" where
  "GetStateFor H chk pindexPrev cache =
     (if BeginTime chk = ALWAYS_ACTIVE then Ret (THRESHOLD_ACTIVE, cache)
      else case (case pindexPrev of None \<Rightarrow> Ret None | Some a \<Rightarrow> period_end H chk a) of
        Ret p \<Rightarrow>
          (case walk_back (walk_fuel H p) H chk cache p [] of
             Ret (cache1, p1, vToCompute) \<Rightarrow>
               (case cache1 p1 of
                  None \<Rightarrow> AssertFail
                | Some state \<Rightarrow> walk_forward H chk state vToCompute cache1)
           | AssertFail \<Rightarrow> AssertFail
           | UndefinedBehaviour \<Rightarrow> UndefinedBehaviour)
      | AssertFail \<Rightarrow> AssertFail
      | UndefinedBehaviour \<Rightarrow> UndefinedBehaviour)"

section \<open>Statistics\<close>

record BIP9Stats =
  st_period :: int
  st_threshold :: int
  st_elapsed :: int
  st_count :: int
  st_possible :: bool

fun stats_loop :: "nat \<Rightarrow> index \<Rightarrow> checker \<Rightarrow> int \<Rightarrow> addr option \<Rightarrow> int \<Rightarrow> int outcome" where
  "stats_loop fuel H chk endHeight currentIndex cnt =
     (case Option.bind currentIndex H of
        None \<Rightarrow> UndefinedBehaviour
      | Some b \<Rightarrow>
          if endHeight = nHeight b then Ret cnt
          else (case fuel of
             0 \<Rightarrow> UndefinedBehaviour
           | Suc n \<Rightarrow> stats_loop n H chk endHeight (pprev b) (if Condition chk b then cnt + 1 else cnt)))"

declare stats_loop.simps [simp del]

text \<open>The height of the end of the previous period is read without a test for the null pointer.\<close>

definition GetStateStatisticsFor :: "index \<Rightarrow> checker \<Rightarrow> addr option \<Rightarrow> BIP9Stats outcome" where
  "GetStateStatisticsFor H chk pindex =
     (let stats = \<lparr>st_period = Period chk, st_threshold = Threshold chk, st_elapsed = 0, st_count = 0,
                   st_possible = False\<rparr>
      in case pindex of
           None \<Rightarrow> Ret stats
         | Some a \<Rightarrow>
             (case (H a, period_end H chk a) of
                (Some b, Ret p) \<Rightarrow>
                  (case Option.bind p H of
                     None \<Rightarrow> UndefinedBehaviour
                   | Some e \<Rightarrow>
                       map_outcome (\<lambda>count. stats\<lparr>st_elapsed := nHeight b - nHeight e, st_count := count,
                           st_possible := (Period chk - Threshold chk \<ge> nHeight b - nHeight e - count)\<rparr>)
                         (stats_loop (nat (nHeight b)) H chk (nHeight e) (Some a) 0))
              | (Some _, AssertFail) \<Rightarrow> AssertFail
              | _ \<Rightarrow> UndefinedBehaviour))"

section \<open>The height of a state\<close>

fun since_loop ::
    "nat \<Rightarrow> index \<Rightarrow> checker \<Rightarrow> ThresholdState \<Rightarrow> addr \<Rightarrow> ThresholdConditionCache \<Rightarrow>
     (int \<times> ThresholdConditionCache) outcome" where
  "since_loop fuel H chk initialState pindexPrev cache =
     (case H pindexPrev of
        None \<Rightarrow> UndefinedBehaviour
      | Some b \<Rightarrow>
          (case GetAncestor H pindexPrev (nHeight b - Period chk) of
             Ret None \<Rightarrow> Ret (nHeight b + 1, cache)
           | Ret (Some p) \<Rightarrow>
               (case GetStateFor H chk (Some p) cache of
                  Ret (state, cache') \<Rightarrow>
                    if state = initialState
                    then (case fuel of
                       0 \<Rightarrow> UndefinedBehaviour
                     | Suc n \<Rightarrow> since_loop n H chk initialState p cache')
                    else Ret (nHeight b + 1, cache')
                | AssertFail \<Rightarrow> AssertFail
                | UndefinedBehaviour \<Rightarrow> UndefinedBehaviour)
           | AssertFail \<Rightarrow> AssertFail
           | UndefinedBehaviour \<Rightarrow> UndefinedBehaviour))"

declare since_loop.simps [simp del]

definition GetStateSinceHeightFor ::
    "index \<Rightarrow> checker \<Rightarrow> addr option \<Rightarrow> ThresholdConditionCache \<Rightarrow>
     (int \<times> ThresholdConditionCache) outcome" where
  "GetStateSinceHeightFor H chk pindexPrev cache =
     (if BeginTime chk = ALWAYS_ACTIVE then Ret (0, cache)
      else case GetStateFor H chk pindexPrev cache of
        Ret (initialState, cache1) \<Rightarrow>
          if initialState = THRESHOLD_DEFINED then Ret (0, cache1)
          else (case pindexPrev of
             None \<Rightarrow> UndefinedBehaviour
           | Some a \<Rightarrow>
               (case period_end H chk a of
                  Ret (Some p) \<Rightarrow> since_loop (walk_fuel H (Some p)) H chk initialState p cache1
                | AssertFail \<Rightarrow> AssertFail
                | _ \<Rightarrow> UndefinedBehaviour))
      | AssertFail \<Rightarrow> AssertFail
      | UndefinedBehaviour \<Rightarrow> UndefinedBehaviour)"

section \<open>Deployments\<close>

abbreviation (input) VERSIONBITS_TOP_BITS :: "32 word" where "VERSIONBITS_TOP_BITS \<equiv> 0x20000000"
abbreviation (input) VERSIONBITS_TOP_MASK :: "32 word" where "VERSIONBITS_TOP_MASK \<equiv> 0xE0000000"

definition VersionBitsMask :: "Params \<Rightarrow> DeploymentPos \<Rightarrow> 32 word" where
  "VersionBitsMask params pos = push_bit (dep_bit (vDeployments params pos)) 1"

definition VersionBitsConditionChecker :: "Params \<Rightarrow> DeploymentPos \<Rightarrow> checker" where
  "VersionBitsConditionChecker params pos =
     \<lparr>Condition = (\<lambda>b. bi_nVersion b AND VERSIONBITS_TOP_MASK = VERSIONBITS_TOP_BITS \<and>
                       bi_nVersion b AND VersionBitsMask params pos \<noteq> 0),
      BeginTime = nStartTime (vDeployments params pos), EndTime = nTimeout (vDeployments params pos),
      Period = sint (nMinerConfirmationWindow params),
      Threshold = sint (nRuleChangeActivationThreshold params)\<rparr>"

type_synonym VersionBitsCache = "DeploymentPos \<Rightarrow> ThresholdConditionCache"

definition VersionBitsCache_Clear :: VersionBitsCache where
  "VersionBitsCache_Clear = (\<lambda>_. Map.empty)"

definition VersionBitsState ::
    "index \<Rightarrow> addr option \<Rightarrow> Params \<Rightarrow> DeploymentPos \<Rightarrow> VersionBitsCache \<Rightarrow>
     (ThresholdState \<times> VersionBitsCache) outcome" where
  "VersionBitsState H pindexPrev params pos cache =
     map_outcome (\<lambda>(state, c). (state, cache(pos := c)))
       (GetStateFor H (VersionBitsConditionChecker params pos) pindexPrev (cache pos))"

definition VersionBitsStatistics :: "index \<Rightarrow> addr option \<Rightarrow> Params \<Rightarrow> DeploymentPos \<Rightarrow> BIP9Stats outcome" where
  "VersionBitsStatistics H pindexPrev params pos =
     GetStateStatisticsFor H (VersionBitsConditionChecker params pos) pindexPrev"

definition VersionBitsStateSinceHeight ::
    "index \<Rightarrow> addr option \<Rightarrow> Params \<Rightarrow> DeploymentPos \<Rightarrow> VersionBitsCache \<Rightarrow>
     (int \<times> VersionBitsCache) outcome" where
  "VersionBitsStateSinceHeight H pindexPrev params pos cache =
     map_outcome (\<lambda>(h, c). (h, cache(pos := c)))
       (GetStateSinceHeightFor H (VersionBitsConditionChecker params pos) pindexPrev (cache pos))"

section \<open>The version of a new block\<close>

text \<open>The loop over the deployments of the enumeration, in its order.\<close>

fun version_loop ::
    "index \<Rightarrow> addr option \<Rightarrow> Params \<Rightarrow> DeploymentPos list \<Rightarrow> 32 word \<Rightarrow> VersionBitsCache \<Rightarrow>
     (32 word \<times> VersionBitsCache) outcome" where
  "version_loop H pindexPrev params [] version cache = Ret (version, cache)"
| "version_loop H pindexPrev params (pos # ds) version cache =
     (case VersionBitsState H pindexPrev params pos cache of
        Ret (state, cache') \<Rightarrow>
          version_loop H pindexPrev params ds
            (if state = THRESHOLD_LOCKED_IN \<or> state = THRESHOLD_STARTED
             then version OR VersionBitsMask params pos else version) cache'
      | AssertFail \<Rightarrow> AssertFail
      | UndefinedBehaviour \<Rightarrow> UndefinedBehaviour)"

text \<open>\<open>params\<close> are the global consensus parameters and the argument alike.\<close>

definition ComputeBlockVersion ::
    "index \<Rightarrow> addr option \<Rightarrow> Params \<Rightarrow> 32 word \<Rightarrow> VersionBitsCache \<Rightarrow>
     (32 word \<times> VersionBitsCache) outcome" where
  "ComputeBlockVersion H pindexPrev params miningType versionbitscache =
     (let start = (\<lambda>version. version_loop H pindexPrev params
            [DEPLOYMENT_TESTDUMMY, DEPLOYMENT_CSV, DEPLOYMENT_SEGWIT] version versionbitscache)
      in case pindexPrev of
           None \<Rightarrow> start VERSIONBITS_TOP_BITS
         | Some a \<Rightarrow>
             (case H a of
                None \<Rightarrow> UndefinedBehaviour
              | Some b \<Rightarrow>
                  start (if nHeight b + 1 \<ge> p_UBCONTRACT_Height params
                         then VERSIONBITS_TOP_BITS OR miningType else VERSIONBITS_TOP_BITS)))"

end
