(* ===== verification/VersionBitsProps.thy ===== *)
theory VersionBitsProps
  imports VersionBits
begin

text \<open>
  The threshold logic implements the state machine of BIP 9, given here as an inductive relation over the
  ends of periods: the caches never change an answer, and a deployment that enough blocks signal is
  activated on every continuation of the chain.
\<close>

section \<open>The state machine\<close>

text \<open>The end of the period before the one that \<open>a\<close> ends, and the blocks of that period that signal.\<close>

definition prior_end :: "index \<Rightarrow> checker \<Rightarrow> addr \<Rightarrow> addr option" where
  "prior_end H chk a =
     (case H a of None \<Rightarrow> None
      | Some b \<Rightarrow> if Period chk \<le> nHeight b then steps_back H (nat (Period chk)) a else None)"

definition signal_at :: "index \<Rightarrow> checker \<Rightarrow> addr \<Rightarrow> nat \<Rightarrow> bool" where
  "signal_at H chk a i = (case Option.bind (steps_back H i a) H of None \<Rightarrow> False | Some b \<Rightarrow> Condition chk b)"

definition signals :: "index \<Rightarrow> checker \<Rightarrow> addr \<Rightarrow> nat" where
  "signals H chk a = length (filter (signal_at H chk a) [0..<nat (Period chk)])"

inductive bip9_state :: "index \<Rightarrow> checker \<Rightarrow> addr option \<Rightarrow> ThresholdState \<Rightarrow> bool" for H chk where
  genesis: "bip9_state H chk None THRESHOLD_DEFINED"
| early: "GetMedianTimePast H a = Ret t \<Longrightarrow> t < BeginTime chk \<Longrightarrow> bip9_state H chk (Some a) THRESHOLD_DEFINED"
| start: "bip9_state H chk (prior_end H chk a) THRESHOLD_DEFINED \<Longrightarrow> GetMedianTimePast H a = Ret t \<Longrightarrow>
    BeginTime chk \<le> t \<Longrightarrow> t < EndTime chk \<Longrightarrow> bip9_state H chk (Some a) THRESHOLD_STARTED"
| timeout: "bip9_state H chk (prior_end H chk a) s \<Longrightarrow> s = THRESHOLD_DEFINED \<or> s = THRESHOLD_STARTED \<Longrightarrow>
    GetMedianTimePast H a = Ret t \<Longrightarrow> BeginTime chk \<le> t \<Longrightarrow> EndTime chk \<le> t \<Longrightarrow>
    bip9_state H chk (Some a) THRESHOLD_FAILED"
| wait: "bip9_state H chk (prior_end H chk a) THRESHOLD_STARTED \<Longrightarrow> GetMedianTimePast H a = Ret t \<Longrightarrow>
    BeginTime chk \<le> t \<Longrightarrow> t < EndTime chk \<Longrightarrow> int (signals H chk a) < Threshold chk \<Longrightarrow>
    bip9_state H chk (Some a) THRESHOLD_STARTED"
| lock_in: "bip9_state H chk (prior_end H chk a) THRESHOLD_STARTED \<Longrightarrow> GetMedianTimePast H a = Ret t \<Longrightarrow>
    BeginTime chk \<le> t \<Longrightarrow> t < EndTime chk \<Longrightarrow> Threshold chk \<le> int (signals H chk a) \<Longrightarrow>
    bip9_state H chk (Some a) THRESHOLD_LOCKED_IN"
| activate: "bip9_state H chk (prior_end H chk a) THRESHOLD_LOCKED_IN \<Longrightarrow> GetMedianTimePast H a = Ret t \<Longrightarrow>
    BeginTime chk \<le> t \<Longrightarrow> bip9_state H chk (Some a) THRESHOLD_ACTIVE"
| final: "bip9_state H chk (prior_end H chk a) s \<Longrightarrow> s = THRESHOLD_ACTIVE \<or> s = THRESHOLD_FAILED \<Longrightarrow>
    GetMedianTimePast H a = Ret t \<Longrightarrow> BeginTime chk \<le> t \<Longrightarrow> bip9_state H chk (Some a) s"

inductive_simps bip9_None: "bip9_state H chk None s"
inductive_cases bip9_SomeE: "bip9_state H chk (Some a) s"

text \<open>The next state as a function of the last one, the time and the number of signals.\<close>

definition bip9_next :: "checker \<Rightarrow> int \<Rightarrow> int \<Rightarrow> ThresholdState \<Rightarrow> ThresholdState" where
  "bip9_next chk t n s =
     (if (s = THRESHOLD_DEFINED \<or> s = THRESHOLD_STARTED) \<and> EndTime chk \<le> t then THRESHOLD_FAILED
      else if s = THRESHOLD_DEFINED then THRESHOLD_STARTED
      else if s = THRESHOLD_STARTED then (if Threshold chk \<le> n then THRESHOLD_LOCKED_IN else s)
      else if s = THRESHOLD_LOCKED_IN then THRESHOLD_ACTIVE
      else s)"

definition bip9_after :: "index \<Rightarrow> checker \<Rightarrow> addr \<Rightarrow> ThresholdState \<Rightarrow> bool" where
  "bip9_after H chk a s \<longleftrightarrow> (\<exists>t. GetMedianTimePast H a = Ret t \<and>
    (if t < BeginTime chk then s = THRESHOLD_DEFINED
     else \<exists>s0. bip9_state H chk (prior_end H chk a) s0 \<and> s = bip9_next chk t (int (signals H chk a)) s0))"

lemma bip9_afterI:
  "bip9_state H chk (prior_end H chk a) s0 \<Longrightarrow> GetMedianTimePast H a = Ret t \<Longrightarrow> BeginTime chk \<le> t \<Longrightarrow>
    s = bip9_next chk t (int (signals H chk a)) s0 \<Longrightarrow> bip9_after H chk a s"
  unfolding bip9_after_def by (rule exI [of _ t]) auto

lemma bip9_SomeD: "bip9_state H chk (Some a) s \<Longrightarrow> bip9_after H chk a s"
proof (erule bip9_SomeE)
  show "GetMedianTimePast H a = Ret t \<Longrightarrow> t < BeginTime chk \<Longrightarrow> s = THRESHOLD_DEFINED \<Longrightarrow> bip9_after H chk a s" for t
    by (simp add: bip9_after_def)
qed (rule bip9_afterI; assumption?; auto simp: bip9_next_def)+

lemma bip9_SomeI:
  assumes "GetMedianTimePast H a = Ret t" and "BeginTime chk \<le> t" and "bip9_state H chk (prior_end H chk a) s"
  shows "bip9_state H chk (Some a) (bip9_next chk t (int (signals H chk a)) s)"
  using assms by (cases s) (auto simp: bip9_next_def not_le intro: bip9_state.intros)

lemma bip9_deterministic: "bip9_state H chk p s \<Longrightarrow> bip9_state H chk p s' \<Longrightarrow> s = s'"
proof (induction arbitrary: s' rule: bip9_state.induct)
  case genesis
  then show ?case by (simp add: bip9_None)
qed (drule bip9_SomeD, fastforce simp: bip9_next_def bip9_after_def)+

definition cache_ok :: "index \<Rightarrow> checker \<Rightarrow> ThresholdConditionCache \<Rightarrow> bool" where
  "cache_ok H chk cache \<longleftrightarrow> (\<forall>p s. cache p = Some s \<longrightarrow> bip9_state H chk p s)"

lemma cache_ok_empty [simp]: "cache_ok H chk Map.empty"
  by (simp add: cache_ok_def)

lemma cache_ok_upd: "cache_ok H chk cache \<Longrightarrow> bip9_state H chk p s \<Longrightarrow> cache_ok H chk (cache(p \<mapsto> s))"
  by (auto simp: cache_ok_def)

section \<open>Ends of periods\<close>

definition ends_period :: "index \<Rightarrow> checker \<Rightarrow> addr \<Rightarrow> bool" where
  "ends_period H chk a \<longleftrightarrow> (\<exists>b. H a = Some b \<and> (nHeight b + 1) mod Period chk = 0)"

lemma ends_periodE:
  assumes "ends_period H chk a"
  obtains b where "H a = Some b" and "(nHeight b + 1) mod Period chk = 0"
  using assms unfolding ends_period_def by (elim exE conjE) (rule that)

lemma ends_period_ge:
  assumes "wf_index H" and "0 < Period chk" and "H a = Some b" and "ends_period H chk a"
  shows "Period chk \<le> nHeight b + 1"
proof -
  have "Period chk dvd nHeight b + 1" using assms by (auto simp: ends_period_def dvd_eq_mod_eq_0)
  moreover have "0 < nHeight b + 1" using wf_height [OF assms(1,3)] by simp
  ultimately show ?thesis by (rule zdvd_imp_le)
qed

lemma prior_end_GetAncestor:
  assumes "wf_index H" and "0 < Period chk" and "H a = Some b"
  shows "GetAncestor H a (nHeight b - Period chk) = Ret (prior_end H chk a)"
  using assms by (auto simp: GetAncestor_back prior_end_def)

lemma prior_end_ends:
  assumes "wf_index H" and "0 < Period chk" and "ends_period H chk a" and "prior_end H chk a = Some p"
  shows "ends_period H chk p \<and> walk_fuel H (Some p) < walk_fuel H (Some a)"
proof -
  obtain b where b: "H a = Some b" "(nHeight b + 1) mod Period chk = 0"
    using assms(3) by (rule ends_periodE)
  have "GetAncestor H a (nHeight b - Period chk) = Ret (Some p)"
    using prior_end_GetAncestor [OF assms(1,2) b(1)] unfolding assms(4) .
  from GetAncestor_Some [OF assms(1) b(1) this] obtain pb where
    pb: "H p = Some pb" "nHeight pb = nHeight b - Period chk" "0 \<le> nHeight b - Period chk" by blast
  have "nHeight pb + 1 = nHeight b + 1 - Period chk" using pb(2) by simp
  then have "(nHeight pb + 1) mod Period chk = (nHeight b + 1 - Period chk) mod Period chk" by (simp only:)
  also have "\<dots> = (nHeight b + 1) mod Period chk" by (rule minus_mod_self2)
  also have "\<dots> = 0" by (rule b(2))
  finally have "(nHeight pb + 1) mod Period chk = 0" .
  with pb(1) have "ends_period H chk p" unfolding ends_period_def by (intro exI conjI)
  moreover have "nat (nHeight pb) < nat (nHeight b)" using pb(2,3) assms(2) by simp
  ultimately show ?thesis using pb(1) b(1) by (simp add: walk_fuel_def)
qed

lemma smod_mod: "0 \<le> n \<Longrightarrow> 0 < d \<Longrightarrow> (n :: int) smod d = n mod d"
  by (simp add: signed_modulo_int_def sgn_if)

lemma period_end_ends:
  assumes "wf_index H" and "0 < Period chk" and "H a = Some b"
  obtains p where "period_end H chk a = Ret p" and "\<And>c. p = Some c \<Longrightarrow> ends_period H chk c"
    and "GetAncestor H a (nHeight b - (nHeight b + 1) mod Period chk) = Ret p"
proof -
  have h: "0 \<le> nHeight b" using wf_height [OF assms(1,3)] .
  let ?h = "nHeight b - (nHeight b + 1) mod Period chk"
  obtain p where p: "GetAncestor H a ?h = Ret p" using GetAncestor_back [OF assms(1,3)] by blast
  then have "period_end H chk a = Ret p"
    using assms(2,3) h by (simp add: period_end_def smod_mod)
  moreover have "ends_period H chk c" if "p = Some c" for c
  proof -
    from GetAncestor_Some [OF assms(1,3) p [unfolded that]] obtain bc where
      bc: "H c = Some bc" "nHeight bc = ?h" by blast
    have "nHeight bc + 1 = Period chk * ((nHeight b + 1) div Period chk)"
      using bc(2) minus_mod_eq_mult_div [of "nHeight b + 1" "Period chk"] by linarith
    then have "(nHeight bc + 1) mod Period chk = 0" by (metis mod_mult_self1_is_0)
    then show ?thesis using bc by (simp add: ends_period_def)
  qed
  ultimately show ?thesis using p that by blast
qed

section \<open>The walk is the state machine\<close>

lemma median_time_exists: "wf_index H \<Longrightarrow> H a = Some b \<Longrightarrow> \<exists>t. GetMedianTimePast H a = Ret t"
  using past_times_back [of H a b nMedianTimeSpan] by (auto simp: GetMedianTimePast_def)

lemma count_loop_signals:
  assumes wf: "wf_index H"
  shows "H a = Some b \<Longrightarrow> int n \<le> nHeight b + 1 \<Longrightarrow>
    count_loop n H chk (Some a) c = Ret (c + int (length (filter (signal_at H chk a) [0..<n])))"
proof (induction n arbitrary: a b c)
  case (Suc n)
  let ?c = "if Condition chk b then c + 1 else c"
  have up: "[0..<Suc n] = 0 # map Suc [0..<n]" by (simp add: upt_conv_Cons map_Suc_upt del: upt_Suc)
  have first: "signal_at H chk a 0 = Condition chk b" using Suc.prems(1) by (simp add: signal_at_def)
  show ?case
  proof (cases "n = 0")
    case True
    then show ?thesis using Suc.prems(1) first by simp
  next
    case False
    then have "0 < nHeight b" using Suc.prems by simp
    from wf_prev [OF wf Suc.prems(1) this] obtain p pb where
      p: "pprev b = Some p" "H p = Some pb" "nHeight b = nHeight pb + 1" by blast
    have rest: "(\<lambda>i. signal_at H chk a (Suc i)) = signal_at H chk p"
      using Suc.prems(1) p(1) by (simp add: signal_at_def fun_eq_iff)
    have "int n \<le> nHeight pb + 1" using Suc.prems(2) p(3) by simp
    from Suc.IH [OF p(2) this, of ?c]
    have "count_loop (Suc n) H chk (Some a) c = Ret (?c + int (length (filter (signal_at H chk p) [0..<n])))"
      using Suc.prems(1) p(1) by simp
    also have "length (filter (signal_at H chk p) [0..<n]) = length (filter (signal_at H chk a) (map Suc [0..<n]))"
      using rest by (simp add: filter_map comp_def)
    finally show ?thesis unfolding up using first by simp
  qed
qed simp

lemma next_state_bip9:
  assumes "wf_index H" and "0 < Period chk" and "ends_period H chk a" and "bip9_state H chk (prior_end H chk a) s"
    and t: "GetMedianTimePast H a = Ret t" "BeginTime chk \<le> t"
  obtains s' where "next_threshold_state H chk a s = Ret s'" and "bip9_state H chk (Some a) s'"
proof -
  obtain b where b: "H a = Some b" using assms(3) by (rule ends_periodE)
  have "count_loop (nat (Period chk)) H chk (Some a) 0 = Ret (int (signals H chk a))"
    using count_loop_signals [OF assms(1) b, of "nat (Period chk)" chk 0] ends_period_ge [OF assms(1,2) b assms(3)]
      assms(2) by (simp add: signals_def)
  then have "\<exists>s'. next_threshold_state H chk a s = Ret s' \<and> bip9_state H chk (Some a) s'"
    using assms(4) t
    by (cases s) (auto simp: next_threshold_state_def not_le intro: start timeout wait lock_in activate final)
  then show ?thesis using that by blast
qed

text \<open>The entries to compute lead from a known entry to the one asked for.\<close>

fun linked :: "index \<Rightarrow> checker \<Rightarrow> addr option \<Rightarrow> addr list \<Rightarrow> addr option \<Rightarrow> bool" where
  "linked H chk p [] q \<longleftrightarrow> p = q"
| "linked H chk p (x # xs) q \<longleftrightarrow>
     prior_end H chk x = p \<and> ends_period H chk x \<and> (\<exists>t. GetMedianTimePast H x = Ret t \<and> BeginTime chk \<le> t) \<and>
     linked H chk (Some x) xs q"

lemma linked_append: "linked H chk p (xs @ ys) q \<longleftrightarrow> (\<exists>r. linked H chk p xs r \<and> linked H chk r ys q)"
  by (induction xs arbitrary: p) auto

lemma walk_back_None:
  assumes "cache_ok H chk cache"
  obtains cache' s where "walk_back fuel H chk cache None v = Ret (cache', None, v)" and "cache_ok H chk cache'"
    and "cache' None = Some s"
proof (cases "cache None")
  case None
  then have "walk_back fuel H chk cache None v = Ret (cache(None \<mapsto> THRESHOLD_DEFINED), None, v)"
    by (simp add: walk_back.simps [of fuel])
  then show ?thesis by (rule that [OF _ cache_ok_upd [OF assms genesis]]) simp
next
  case (Some s)
  then show ?thesis using that assms by (simp add: walk_back.simps [of fuel])
qed

lemma walk_back_linked:
  assumes wf: "wf_index H" and P: "0 < Period chk" and "cache_ok H chk cache"
  shows "\<forall>a. p = Some a \<longrightarrow> ends_period H chk a \<Longrightarrow> walk_fuel H p \<le> fuel \<Longrightarrow>
    \<exists>cache' p' v' s. walk_back fuel H chk cache p v = Ret (cache', p', v' @ v) \<and> cache_ok H chk cache' \<and>
      cache' p' = Some s \<and> linked H chk p' v' p"
proof (induction fuel arbitrary: p v)
  case 0
  then have p: "p = None" by (cases p) (auto simp: walk_fuel_def ends_period_def)
  obtain c s where "walk_back 0 H chk cache None v = Ret (c, None, v)" "cache_ok H chk c" "c None = Some s"
    by (rule walk_back_None [OF assms(3)])
  then show ?case unfolding p by (intro exI [of _ c] exI [of _ None] exI [of _ "[]"] exI [of _ s]) simp
next
  case (Suc fuel)
  show ?case
  proof (cases p)
    case None
    obtain c s where "walk_back (Suc fuel) H chk cache None v = Ret (c, None, v)" "cache_ok H chk c" "c None = Some s"
      by (rule walk_back_None [OF assms(3)])
    then show ?thesis unfolding None by (intro exI [of _ c] exI [of _ None] exI [of _ "[]"] exI [of _ s]) simp
  next
    case (Some a)
    then obtain b where b: "H a = Some b" and e: "ends_period H chk a"
      using Suc.prems(1) by (auto simp: ends_period_def)
    obtain t where t: "GetMedianTimePast H a = Ret t" using median_time_exists [OF wf b] by blast
    consider "cache p \<noteq> None" | "cache p = None" "t < BeginTime chk" | "cache p = None" "BeginTime chk \<le> t"
      by linarith
    then show ?thesis
    proof cases
      case 1
      then show ?thesis using assms(3) by (auto simp: walk_back.simps)
    next
      case 2
      then have "walk_back (Suc fuel) H chk cache p v = Ret (cache(p \<mapsto> THRESHOLD_DEFINED), p, v)"
        using t Some by (simp add: walk_back.simps)
      moreover have "cache_ok H chk (cache(p \<mapsto> THRESHOLD_DEFINED))"
        using early [OF t 2(2)] assms(3) Some by (simp add: cache_ok_upd)
      ultimately show ?thesis by fastforce
    next
      case 3
      let ?q = "prior_end H chk a"
      have q1: "\<forall>c. ?q = Some c \<longrightarrow> ends_period H chk c" using prior_end_ends [OF wf P e] by blast
      have q2: "walk_fuel H ?q \<le> fuel"
      proof (cases ?q)
        case (Some c)
        then show ?thesis using prior_end_ends [OF wf P e Some] Suc.prems(2) \<open>p = Some a\<close> by simp
      qed (simp add: walk_fuel_def)
      have "walk_back (Suc fuel) H chk cache p v = walk_back fuel H chk cache ?q (a # v)"
        using 3 t b Some prior_end_GetAncestor [OF wf P b] by (simp add: walk_back.simps [of "Suc fuel"])
      moreover obtain cache' p' v' s where "walk_back fuel H chk cache ?q (a # v) = Ret (cache', p', v' @ a # v)"
        "cache_ok H chk cache'" "cache' p' = Some s" "linked H chk p' v' ?q" using Suc.IH [OF q1 q2] by blast
      moreover from this have "linked H chk p' (v' @ [a]) p"
        using e t 3 Some by (auto simp: linked_append)
      ultimately show ?thesis by (intro exI [of _ cache'] exI [of _ p'] exI [of _ "v' @ [a]"] exI [of _ s]) simp
    qed
  qed
qed

lemma walk_forward_linked:
  assumes "wf_index H" and "0 < Period chk"
  shows "linked H chk p v q \<Longrightarrow> bip9_state H chk p s \<Longrightarrow> cache_ok H chk cache \<Longrightarrow>
    \<exists>s' cache'. walk_forward H chk s v cache = Ret (s', cache') \<and> cache_ok H chk cache' \<and> bip9_state H chk q s'"
proof (induction v arbitrary: p s cache)
  case (Cons x v)
  then obtain t where x: "prior_end H chk x = p" "ends_period H chk x" "GetMedianTimePast H x = Ret t"
    "BeginTime chk \<le> t" "linked H chk (Some x) v q" by auto
  from next_state_bip9 [OF assms x(2) _ x(3,4)] x(1) Cons.prems(2) obtain s' where
    s': "next_threshold_state H chk x s = Ret s'" "bip9_state H chk (Some x) s'" by metis
  from Cons.IH [OF x(5) s'(2) cache_ok_upd [OF Cons.prems(3) s'(2)]] s'(1) show ?case by (simp only: walk_forward.simps outcome.case)
qed simp

text \<open>The end of the last complete period before the block after \<open>p\<close>.\<close>

definition last_end :: "index \<Rightarrow> checker \<Rightarrow> addr option \<Rightarrow> addr option" where
  "last_end H chk p =
     (case p of None \<Rightarrow> None
      | Some a \<Rightarrow> (case H a of None \<Rightarrow> None
        | Some b \<Rightarrow> let n = (nHeight b + 1) mod Period chk
          in if n \<le> nHeight b then steps_back H (nat n) a else None))"

lemma last_end_period_end:
  assumes "wf_index H" and "0 < Period chk" and "H a = Some b"
  shows "period_end H chk a = Ret (last_end H chk (Some a))"
  using assms wf_height [OF assms(1,3)]
  by (simp add: period_end_def smod_mod GetAncestor_back last_end_def Let_def)

definition in_index :: "index \<Rightarrow> addr option \<Rightarrow> bool" where
  "in_index H p = (case p of None \<Rightarrow> True | Some a \<Rightarrow> H a \<noteq> None)"

lemma GetStateFor_bip9:
  assumes "wf_index H" and "0 < Period chk" and "BeginTime chk \<noteq> ALWAYS_ACTIVE" and "cache_ok H chk cache"
    and p: "in_index H p"
  shows "\<exists>s cache'. GetStateFor H chk p cache = Ret (s, cache') \<and> cache_ok H chk cache' \<and>
    bip9_state H chk (last_end H chk p) s"
proof -
  have q: "(case p of None \<Rightarrow> Ret None | Some a \<Rightarrow> period_end H chk a) = Ret (last_end H chk p)"
    "\<forall>a. last_end H chk p = Some a \<longrightarrow> ends_period H chk a"
  proof -
    show "(case p of None \<Rightarrow> Ret None | Some a \<Rightarrow> period_end H chk a) = Ret (last_end H chk p)"
      using p last_end_period_end [OF assms(1,2)]
      by (cases p) (auto simp: last_end_def [of H chk None] in_index_def)
    show "\<forall>a. last_end H chk p = Some a \<longrightarrow> ends_period H chk a"
    proof (cases p)
      case (Some a)
      then obtain b where b: "H a = Some b" using p by (auto simp: in_index_def)
      obtain q where "period_end H chk a = Ret q" "\<And>c. q = Some c \<Longrightarrow> ends_period H chk c"
        using period_end_ends [OF assms(1,2) b] by metis
      then show ?thesis using last_end_period_end [OF assms(1,2) b] Some by simp
    qed (simp add: last_end_def)
  qed
  let ?q = "last_end H chk p"
  obtain c1 p1 v s1 where w: "walk_back (walk_fuel H ?q) H chk cache ?q [] = Ret (c1, p1, v @ [])"
    "cache_ok H chk c1" "c1 p1 = Some s1" "linked H chk p1 v ?q"
    using walk_back_linked [OF assms(1,2,4) q(2) order_refl, of "[]"] by (elim exE conjE)
  have "bip9_state H chk p1 s1" using w(2,3) by (simp add: cache_ok_def)
  from walk_forward_linked [OF assms(1,2) w(4) this w(2)] obtain s c where
    "walk_forward H chk s1 v c1 = Ret (s, c)" "cache_ok H chk c" "bip9_state H chk ?q s" by (elim exE conjE)
  then show ?thesis using assms(3) q(1) w(1,3) by (simp add: GetStateFor_def)
qed

text \<open>C25: on a well-formed index, from any cache that holds right states, \<^const>\<open>GetStateFor\<close> returns, leaves
  such a cache, and its answer is the state that the state machine of BIP 9 reaches at the end of the
  last period; this state is unique, so that caches never change an answer.\<close>

theorem threshold_state_bip9:
  assumes "wf_index H" and "0 < Period chk" and "BeginTime chk \<noteq> ALWAYS_ACTIVE" and "cache_ok H chk cache"
    and "in_index H p"
  shows "\<exists>s cache'. GetStateFor H chk p cache = Ret (s, cache') \<and> cache_ok H chk cache' \<and>
    {s'. bip9_state H chk (last_end H chk p) s'} = {s}"
proof -
  obtain s cache' where "GetStateFor H chk p cache = Ret (s, cache')" "cache_ok H chk cache'"
    "bip9_state H chk (last_end H chk p) s"
    using GetStateFor_bip9 [OF assms] by blast
  moreover from this have "{s'. bip9_state H chk (last_end H chk p) s'} = {s}"
    using bip9_deterministic by blast
  ultimately show ?thesis by blast
qed

section \<open>Median times do not go back\<close>

text \<open>The rule on the time of a block, which \<^verbatim>\<open>ContextualCheckBlockHeader\<close> enforces (\<^verbatim>\<open>time-too-old\<close>).\<close>

definition times_ok :: "index \<Rightarrow> bool" where
  "times_ok H \<longleftrightarrow> (\<forall>a b p t. H a = Some b \<longrightarrow> pprev b = Some p \<longrightarrow> GetMedianTimePast H p = Ret t \<longrightarrow>
     t < GetBlockTime b)"

lemma past_times_take:
  "past_times H (Suc n) x = Ret us \<Longrightarrow> past_times H n x = Ret (take n us)"
proof (induction n arbitrary: x us)
  case 0
  then show ?case by simp
next
  case (Suc n)
  show ?case
  proof (cases x)
    case (Some a)
    then obtain b where b: "H a = Some b" using Suc.prems by (cases "H a") auto
    then obtain vs where "past_times H (Suc n) (pprev b) = Ret vs" "us = GetBlockTime b # vs"
      using Suc.prems Some by (cases "past_times H (Suc n) (pprev b)") auto
    then show ?thesis using Suc.IH [of "pprev b" vs] b Some by simp
  qed (use Suc.prems in simp)
qed

lemma length_filter_le_filter:
  "(\<And>x. P x \<Longrightarrow> Q x) \<Longrightarrow> length (filter P xs) \<le> length (filter Q xs)"
  by (induction xs) (auto intro: le_SucI)

lemma sorted_not_above:
  assumes "sorted xs" and "i < length xs"
  shows "i < length (filter (\<lambda>x. x \<le> xs ! i) (xs :: int list))"
proof -
  have "length (filter (\<lambda>x. x \<le> xs ! i) xs) + length (filter (\<lambda>x. \<not> x \<le> xs ! i) xs) = length xs"
    by (rule sum_length_filter_compl)
  then show ?thesis using sorted_above [OF assms] assms(2) by (simp add: not_le)
qed

lemma length_filter_sort: "length (filter P (sort xs)) = length (filter P (xs :: int list))"
  by (metis mset_filter mset_sort size_mset)

text \<open>Replacing the oldest time of a full window by one above the median does not lower the median.\<close>

lemma median_shift:
  fixes w :: "int list"
  assumes "w \<noteq> []" and "length w \<le> Suc n" and "sort (rev w) ! (length w div 2) < t"
  shows "sort (rev w) ! (length w div 2) \<le> sort (rev (t # take n w)) ! (length (t # take n w) div 2)"
proof (rule ccontr)
  let ?m = "sort (rev w) ! (length w div 2)" and ?v = "t # take n w"
  let ?k = "sort (rev ?v) ! (length ?v div 2)"
  assume "\<not> ?m \<le> ?k"
  then have less: "?k < ?m" by simp
  have i: "length ?v div 2 < length (sort (rev ?v))" by simp
  have j: "length w div 2 < length (sort (rev w))" using assms(1) by (cases w) auto
  have "length ?v div 2 < length (filter (\<lambda>x. x \<le> ?k) (sort (rev ?v)))"
    by (rule sorted_not_above [OF sorted_sort i])
  also have "\<dots> = length (filter (\<lambda>x. x \<le> ?k) ?v)" by (simp add: length_filter_sort rev_filter [symmetric])
  also have "\<dots> \<le> length (filter (\<lambda>x. x < ?m) ?v)" using less by (intro length_filter_le_filter) auto
  also have "\<dots> = length (filter (\<lambda>x. x < ?m) (take n w))" using assms(3) by simp
  also have "\<dots> \<le> length (filter (\<lambda>x. x < ?m) w)"
    by (metis append_take_drop_id filter_append le_add1 length_append)
  also have "\<dots> = length (filter (\<lambda>x. x < ?m) (sort (rev w)))" by (simp add: length_filter_sort rev_filter [symmetric])
  also have "\<dots> \<le> length w div 2" by (rule sorted_below [OF sorted_sort j])
  finally have "length ?v div 2 < length w div 2" .
  moreover have "length w \<le> length ?v" using assms(2) by simp
  ultimately show False by (simp add: div_le_mono leD)
qed

lemma median_prev:
  assumes wf: "wf_index H" and "times_ok H" and b: "H a = Some b" and p: "pprev b = Some p"
    and t: "GetMedianTimePast H p = Ret t" and t': "GetMedianTimePast H a = Ret t'"
  shows "t \<le> t'"
proof -
  obtain pb where pb: "H p = Some pb" using wf_pprev_Some [OF wf b p] by blast
  obtain w where w: "past_times H 11 (Some p) = Ret w" "length w = min 11 (nat (nHeight pb) + 1)"
    using past_times_back [OF wf pb, of 11] by blast
  have "past_times H (Suc 10) (Some p) = Ret w" using w(1) by (simp add: eval_nat_numeral)
  from past_times_take [OF this] have "past_times H 10 (Some p) = Ret (take 10 w)" .
  then have "past_times H (Suc 10) (Some a) = Ret (GetBlockTime b # take 10 w)"
    using b p unfolding past_times.simps(3) by simp
  then have a: "past_times H 11 (Some a) = Ret (GetBlockTime b # take 10 w)" by (simp add: eval_nat_numeral)
  have "sort (rev w) ! (length w div 2) = t" using t w(1) by (simp add: GetMedianTimePast_def)
  moreover have "t < GetBlockTime b" using assms(2) b p t by (auto simp: times_ok_def)
  moreover have "w \<noteq> []" "length w \<le> Suc 10" using w(2) by auto
  ultimately show ?thesis
    using median_shift [of w 10 "GetBlockTime b"] t' a by (simp add: GetMedianTimePast_def)
qed

lemma median_steps:
  assumes "wf_index H" and "times_ok H"
  shows "H a = Some b \<Longrightarrow> steps_back H n a = Some c \<Longrightarrow> GetMedianTimePast H c = Ret t \<Longrightarrow>
    GetMedianTimePast H a = Ret t' \<Longrightarrow> t \<le> t'"
proof (induction n arbitrary: a b t')
  case (Suc n)
  then obtain p where p: "pprev b = Some p" "steps_back H n p = Some c" by (auto split: option.splits)
  obtain pb where pb: "H p = Some pb" using wf_pprev_Some [OF assms(1) Suc.prems(1) p(1)] by blast
  obtain u where u: "GetMedianTimePast H p = Ret u" using median_time_exists [OF assms(1) pb] by blast
  from Suc.IH [OF pb p(2) Suc.prems(3) u] median_prev [OF assms Suc.prems(1) p(1) u Suc.prems(4)]
  show ?case by simp
qed simp

lemma median_ancestor:
  assumes "wf_index H" and "times_ok H" and "H x = Some bx" and "GetAncestor H x h = Ret (Some a)"
    and "GetMedianTimePast H a = Ret t" and "GetMedianTimePast H x = Ret t'"
  shows "t \<le> t'"
proof -
  have "steps_back H (nat (nHeight bx - h)) x = Some a"
    using assms(4) GetAncestor_back [OF assms(1,3)] by (auto split: if_splits)
  from median_steps [OF assms(1-3) this assms(5,6)] show ?thesis .
qed

section \<open>Activation\<close>

lemma active_after_lock_in:
  assumes wf: "wf_index H" and ok: "times_ok H" and P: "0 < Period chk" and b: "H a = Some b"
    and lock: "bip9_state H chk (Some a) THRESHOLD_LOCKED_IN"
    and ta: "GetMedianTimePast H a = Ret ta" "BeginTime chk \<le> ta"
  shows "H x = Some bx \<Longrightarrow> GetAncestor H x (nHeight b) = Ret (Some a) \<Longrightarrow>
    nHeight bx = nHeight b + int (Suc k) * Period chk \<Longrightarrow> bip9_state H chk (Some x) THRESHOLD_ACTIVE"
proof (induction k arbitrary: x bx)
  case 0
  obtain t where t: "GetMedianTimePast H x = Ret t" using median_time_exists [OF wf 0(1)] by blast
  have "BeginTime chk \<le> t" using median_ancestor [OF wf ok 0(1,2) ta(1) t] ta(2) by simp
  moreover have "prior_end H chk x = Some a" using prior_end_GetAncestor [OF wf P 0(1)] 0(2,3) by simp
  ultimately show ?case using activate [OF _ t] lock by simp
next
  case (Suc k)
  obtain t where t: "GetMedianTimePast H x = Ret t" using median_time_exists [OF wf Suc.prems(1)] by blast
  have le: "BeginTime chk \<le> t" using median_ancestor [OF wf ok Suc.prems(1,2) ta(1) t] ta(2) by simp
  have h: "nHeight bx - Period chk = nHeight b + int (Suc k) * Period chk"
    using Suc.prems(3) by (simp add: algebra_simps)
  have "0 \<le> int (Suc k) * Period chk" using P by simp
  then have range: "nHeight b \<le> nHeight bx - Period chk" "0 \<le> nHeight bx - Period chk"
    using h wf_height [OF wf b] by linarith+
  obtain y by' where y: "steps_back H (nat (Period chk)) x = Some y" "H y = Some by'"
    "nHeight by' = nHeight bx - Period chk"
    using back_height [OF wf Suc.prems(1), of "nat (Period chk)"] range P by auto
  have anc: "GetAncestor H x (nHeight bx - Period chk) = Ret (Some y)"
    using GetAncestor_back [OF wf Suc.prems(1)] range y(1) P by simp
  have "GetAncestor H y (nHeight b) = Ret (Some a)"
    using GetAncestor_trans [OF wf Suc.prems(1) anc range(1)] Suc.prems(2) by simp
  from Suc.IH [OF y(2) this] y(3) h have "bip9_state H chk (Some y) THRESHOLD_ACTIVE" by simp
  moreover have "prior_end H chk x = Some y" using prior_end_GetAncestor [OF wf P Suc.prems(1)] anc by simp
  ultimately show ?case using final [OF _ _ t le] by simp
qed

lemma last_end_pprev:
  assumes wf: "wf_index H" and P: "0 < Period chk" and b: "H a = Some b" and e: "ends_period H chk a"
  shows "last_end H chk (pprev b) = prior_end H chk a"
proof (cases "pprev b")
  case None
  then have "nHeight b = 0" using wf_prev [OF wf b] wf_height [OF wf b] by fastforce
  then show ?thesis using None b P by (simp add: last_end_def prior_end_def)
next
  case (Some p)
  obtain pb where pb: "H p = Some pb" "nHeight b = nHeight pb + 1" using wf_pprev_Some [OF wf b Some] by blast
  have "(nHeight b + 1) mod Period chk = 0" using e b by (auto elim: ends_periodE)
  then have m: "nHeight b mod Period chk = Period chk - 1"
    using P by (metis add_diff_cancel_right' diff_0 minus_mod_self2 mod_diff_left_eq zmod_minus1)
  have "nat (Period chk) = Suc (nat (Period chk - 1))" using P by simp
  then have "steps_back H (nat (Period chk)) a = steps_back H (nat (Period chk - 1)) p"
    using b Some by simp
  then show ?thesis using Some b pb m by (simp add: last_end_def prior_end_def)
qed

lemma lock_in_state:
  assumes "wf_index H" and "times_ok H" and "0 < Period chk" and "H a = Some b" and "ends_period H chk a"
    and start: "bip9_state H chk (prior_end H chk a) THRESHOLD_STARTED"
    and t: "GetMedianTimePast H a = Ret t" "t < EndTime chk" and "Threshold chk \<le> int (signals H chk a)"
  shows "BeginTime chk \<le> t \<and> bip9_state H chk (Some a) THRESHOLD_LOCKED_IN"
proof -
  obtain q where q: "prior_end H chk a = Some q" using start by (cases "prior_end H chk a") (auto simp: bip9_None)
  from bip9_SomeD [OF start [unfolded q]] obtain u where "GetMedianTimePast H q = Ret u" "BeginTime chk \<le> u"
    by (auto simp: bip9_after_def split: if_splits)
  moreover have "GetAncestor H a (nHeight b - Period chk) = Ret (Some q)"
    using prior_end_GetAncestor [OF assms(1,3,4)] q by simp
  ultimately have "BeginTime chk \<le> t"
    using median_ancestor [OF assms(1,2,4)] t(1) by fastforce
  then show ?thesis using lock_in [OF start t(1) _ t(2) assms(9)] by simp
qed

lemma period_multiple:
  fixes h d P :: int
  assumes "0 < P" and "(h + 1) mod P = 0" and "h + P \<le> d"
  shows "\<exists>k. d - (d + 1) mod P = h + int (Suc k) * P"
proof -
  obtain q where q: "h + 1 = P * q" using assms(2) by (auto simp: mod_eq_0_iff_dvd)
  let ?r = "(d + 1) div P"
  have d: "d - (d + 1) mod P = P * ?r - 1" using minus_mod_eq_mult_div [of "d + 1" P] by linarith
  have "P * (q + 1) \<le> d + 1" using assms(3) q by (simp add: algebra_simps)
  then have "q + 1 \<le> ?r" using assms(1) by (simp add: zdiv_mono1 [of "P * (q + 1)" "d + 1" P, simplified])
  then have "?r = q + int (Suc (nat (?r - q - 1)))" by simp
  then have "P * ?r - 1 = h + int (Suc (nat (?r - q - 1))) * P" using q by (metis add.commute add_diff_cancel_right'
        distrib_left mult.commute add_diff_eq)
  then show ?thesis using d by metis
qed

text \<open>C26: if a deployment has started for the last block of a period, enough blocks of the period signal
  it and its timeout has not passed, then it is active for the successors of every block that
  extends the chain by a period or more, whatever happens in between.\<close>

theorem signalled_deployment_activates:
  assumes "wf_index H" and "times_ok H" and "0 < Period chk" and "BeginTime chk \<noteq> ALWAYS_ACTIVE"
    and a: "H a = Some b" "ends_period H chk a"
    and started: "cache_ok H chk cache0" "GetStateFor H chk (pprev b) cache0 = Ret (THRESHOLD_STARTED, cache1)"
    and "GetMedianTimePast H a = Ret t" "t < EndTime chk" and "Threshold chk \<le> int (signals H chk a)"
    and x: "H x = Some bx" "GetAncestor H x (nHeight b) = Ret (Some a)" "nHeight b + Period chk \<le> nHeight bx"
    and "cache_ok H chk cache"
  shows "\<exists>cache'. GetStateFor H chk (Some x) cache = Ret (THRESHOLD_ACTIVE, cache')"
proof -
  have "in_index H (pprev b)"
    using wf_pprev_Some [OF assms(1) a(1)] by (cases "pprev b") (auto simp: in_index_def)
  from GetStateFor_bip9 [OF assms(1,3,4) started(1) this] started(2)
  have "bip9_state H chk (prior_end H chk a) THRESHOLD_STARTED"
    using last_end_pprev [OF assms(1,3) a] by auto
  note lock = lock_in_state [OF assms(1-3) a this assms(9-11)]
  have e0: "(nHeight b + 1) mod Period chk = 0" using a by (auto elim: ends_periodE)
  obtain k where k: "nHeight bx - (nHeight bx + 1) mod Period chk = nHeight b + int (Suc k) * Period chk"
    using period_multiple [OF assms(3) _ x(3)] e0 by blast
  obtain q where q: "period_end H chk x = Ret q"
    "GetAncestor H x (nHeight b + int (Suc k) * Period chk) = Ret q"
    using period_end_ends [OF assms(1,3) x(1)] k by metis
  have "0 \<le> nHeight b + int (Suc k) * Period chk" "nHeight b + int (Suc k) * Period chk \<le> nHeight bx"
    using wf_height [OF assms(1) a(1)] assms(3) k pos_mod_sign [OF assms(3), of "nHeight bx + 1"]
    by (simp, linarith)
  then obtain e where e: "q = Some e" using q(2) GetAncestor_back [OF assms(1) x(1)]
      back_height [OF assms(1) x(1), of "nat (nHeight bx - (nHeight b + int (Suc k) * Period chk))"] by auto
  note anc = q(2) [unfolded e]
  from GetAncestor_Some [OF assms(1) x(1) anc] obtain be where be: "H e = Some be"
    "nHeight be = nHeight b + int (Suc k) * Period chk" by blast
  have "GetAncestor H e (nHeight b) = Ret (Some a)"
    using GetAncestor_trans [OF assms(1) x(1) anc, of "nHeight b"] x(2) assms(3) by simp
  from active_after_lock_in [OF assms(1-3) a(1) conjunct2 [OF lock] assms(9) conjunct1 [OF lock] be(1) this be(2)]
  have act: "bip9_state H chk (last_end H chk (Some x)) THRESHOLD_ACTIVE"
    using last_end_period_end [OF assms(1,3) x(1)] q(1) e by simp
  have "in_index H (Some x)" using x(1) by (simp add: in_index_def)
  from GetStateFor_bip9 [OF assms(1,3,4,15) this] obtain s cache' where
    "GetStateFor H chk (Some x) cache = Ret (s, cache')" "bip9_state H chk (last_end H chk (Some x)) s" by blast
  then show ?thesis using bip9_deterministic [OF act] by blast
qed

text \<open>Periods of one block, all of them signalling, on the sample index.\<close>

definition sample_checker :: checker where
  "sample_checker = \<lparr>Condition = (\<lambda>b. True), BeginTime = 5, EndTime = 100, Period = 1, Threshold = 1\<rparr>"

lemma sample_checker_simps [simp]:
  "BeginTime sample_checker = 5" "EndTime sample_checker = 100" "Period sample_checker = 1"
  "Threshold sample_checker = 1" "Condition sample_checker b"
  by (simp_all add: sample_checker_def)

lemma sample_medians:
  "GetMedianTimePast sample_index [0] = Ret 10" "GetMedianTimePast sample_index [1] = Ret 11"
  "GetMedianTimePast sample_index [2] = Ret 11"
proof -
  have p: "past_times sample_index (Suc (Suc (Suc (Suc n)))) (Some [0]) = Ret [10]"
    "past_times sample_index (Suc (Suc (Suc (Suc n)))) (Some [1]) = Ret [11, 10]"
    "past_times sample_index (Suc (Suc (Suc (Suc n)))) (Some [2]) = Ret [12, 11, 10]" for n by simp_all
  have n: "(11 :: nat) = Suc (Suc (Suc (Suc 7)))" by (simp add: eval_nat_numeral)
  show "GetMedianTimePast sample_index [0] = Ret 10" "GetMedianTimePast sample_index [1] = Ret 11"
    "GetMedianTimePast sample_index [2] = Ret 11"
    unfolding GetMedianTimePast_def n p by simp_all
qed

lemma sample_times_ok: "times_ok sample_index"
  unfolding times_ok_def
proof (intro allI impI)
  fix a b p t assume "sample_index a = Some b" "pprev b = Some p" "GetMedianTimePast sample_index p = Ret t"
  moreover from this have "a = [0] \<or> a = [1] \<or> a = [2] \<or> a = [3]"
    by (auto simp: sample_index_def split: if_splits)
  ultimately show "t < GetBlockTime b" by (auto simp: sample_medians)
qed

lemma sample_ancestor:
  "sample_index a = Some b \<Longrightarrow> GetAncestor sample_index a h =
    Ret (if 0 \<le> h \<and> h \<le> nHeight b then steps_back sample_index (nat (nHeight b - h)) a else None)"
  by (rule GetAncestor_back [OF wf_sample_index])

theorem threshold_state_bip9_witness:
  "GetStateFor sample_index sample_checker None Map.empty = Ret (THRESHOLD_DEFINED, [None \<mapsto> THRESHOLD_DEFINED]) \<and>
   {s'. bip9_state sample_index sample_checker (last_end sample_index sample_checker None) s'} = {THRESHOLD_DEFINED}"
  using threshold_state_bip9 [of sample_index sample_checker Map.empty None]
  by (simp add: in_index_def GetStateFor_def walk_back.simps)

theorem signalled_deployment_activates_witness:
  "\<exists>cache'. GetStateFor sample_index sample_checker (Some [2]) Map.empty = Ret (THRESHOLD_ACTIVE, cache')"
proof -
  have "last_end sample_index sample_checker (Some [0]) = Some [0]" by (simp add: last_end_def)
  moreover have "bip9_state sample_index sample_checker (Some [0]) THRESHOLD_STARTED"
    by (rule start [OF _ sample_medians(1)]) (simp_all add: prior_end_def genesis)
  ultimately obtain cache1 where
    "GetStateFor sample_index sample_checker (Some [0]) Map.empty = Ret (THRESHOLD_STARTED, cache1)"
    using GetStateFor_bip9 [OF wf_sample_index, of sample_checker Map.empty "Some [0]"] bip9_deterministic
    by (fastforce simp: in_index_def)
  moreover have "Threshold sample_checker \<le> int (signals sample_index sample_checker [1])"
    by (simp add: signals_def signal_at_def)
  ultimately show ?thesis
    by (intro signalled_deployment_activates [OF wf_sample_index sample_times_ok, where a = "[1]"
          and b = "sample_entry 1 (Some [0]) (Some [0])" and t = 11 and ?cache0.0 = Map.empty and ?cache1.0 = cache1
          and bx = "sample_entry 2 (Some [1]) (Some [0])"])
       (simp_all add: sample_medians ends_period_def sample_ancestor)
qed

end
