(* ===== verification/Pow.thy ===== *)
theory Pow
  imports ConsensusParams ChainProps
begin

text \<open>
  The targets of new blocks and the check of a proof of work (\<^verbatim>\<open>src/src/pow.cpp\<close>).  \<^verbatim>\<open>params\<close> and
  \<^verbatim>\<open>Params().GetConsensus()\<close> are one object, which \<open>GetNextWorkRequired\<close> changes through a cast: it is passed
  and returned.  The block map is the index, its keys the block hashes.  A result \<^term>\<open>Ret None\<close> is the
  exception of a division by zero.  Times and spans are far from the limits of 64 bits.
\<close>

section \<open>The last block of a kind\<close>

text \<open>Each round goes back one block: a unit of fuel per height is enough.\<close>

fun last_index_loop :: "nat \<Rightarrow> index \<Rightarrow> Params \<Rightarrow> bool \<Rightarrow> addr option \<Rightarrow> addr option outcome" where
  "last_index_loop fuel H params fProofOfStake None = Ret None"
| "last_index_loop fuel H params fProofOfStake (Some a) =
     (case H a of
        None \<Rightarrow> UndefinedBehaviour
      | Some b \<Rightarrow>
          if pprev b \<noteq> None \<and> IsProofOfStake b \<noteq> fProofOfStake then
            (if fProofOfStake \<and> nHeight b \<le> p_UBCONTRACT_Height params then Ret None
             else (case fuel of
                0 \<Rightarrow> UndefinedBehaviour
              | Suc n \<Rightarrow> last_index_loop n H params fProofOfStake (pprev b)))
          else Ret (Some a))"

definition height_fuel :: "index \<Rightarrow> addr option \<Rightarrow> nat" where
  "height_fuel H p = (case Option.bind p H of None \<Rightarrow> 0 | Some b \<Rightarrow> nat (nHeight b))"

definition GetLastBlockIndex :: "index \<Rightarrow> addr option \<Rightarrow> bool \<Rightarrow> Params \<Rightarrow> addr option outcome" where
  "GetLastBlockIndex H pindex fProofOfStake params =
     last_index_loop (height_fuel H pindex) H params fProofOfStake pindex"

section \<open>Retargeting\<close>

definition limit_timespan :: "Params \<Rightarrow> int \<Rightarrow> int" where
  "limit_timespan params nActualTimespan =
     (let n = (if nActualTimespan < nPowTargetTimespan params sdiv 4
               then nPowTargetTimespan params sdiv 4 else nActualTimespan)
      in if n > nPowTargetTimespan params * 4 then nPowTargetTimespan params * 4 else n)"

text \<open>The target is cut to the limit and written in the compact format.\<close>

definition compact_outcome :: "base_uint \<Rightarrow> 32 word option outcome" where
  "compact_outcome bn = (case GetCompact bn False of None \<Rightarrow> AssertFail | Some c \<Rightarrow> Ret (Some c))"

definition cap_target :: "bytes \<Rightarrow> base_uint \<Rightarrow> 32 word option outcome" where
  "cap_target limit bnNew =
     compact_outcome (if CompareTo bnNew (UintToArith256 limit) > 0 then UintToArith256 limit else bnNew)"

text \<open>A factor is converted to 32 bits, the divisor to 64.\<close>

definition timespan_divisor :: "Params \<Rightarrow> base_uint" where
  "timespan_divisor params = base_uint_of (word_of_int (nPowTargetTimespan params))"

definition pow_retarget :: "Params \<Rightarrow> 32 word \<Rightarrow> int \<Rightarrow> 32 word option outcome" where
  "pow_retarget params bits nActualTimespan =
     (case bu_div (bu_mul32 (fst (SetCompact bits)) (word_of_int (limit_timespan params nActualTimespan)))
             (timespan_divisor params) of
        None \<Rightarrow> Ret None
      | Some bnNew \<Rightarrow> cap_target (powLimit params) bnNew)"

definition pos_retarget :: "Params \<Rightarrow> 32 word \<Rightarrow> int \<Rightarrow> 32 word option outcome" where
  "pos_retarget params bits nActualTimespan =
     (case bu_div (fst (SetCompact bits)) (timespan_divisor params) of
        None \<Rightarrow> Ret None
      | Some q \<Rightarrow>
          cap_target (posLimit params) (bu_mul32 q (word_of_int (limit_timespan params nActualTimespan))))"

definition CalculateNextWorkRequired :: "CBlockIndex \<Rightarrow> int \<Rightarrow> Params \<Rightarrow> 32 word option outcome" where
  "CalculateNextWorkRequired pindexLast nFirstBlockTime params =
     (if fPowNoRetargeting params then Ret (Some (nBits pindexLast))
      else pow_retarget params (nBits pindexLast) (GetBlockTime pindexLast - nFirstBlockTime))"

section \<open>Targets by kind of block\<close>

text \<open>The targets of the last blocks of a kind, from the newest, and the time of the oldest of them.\<close>

fun bits_loop ::
    "nat \<Rightarrow> index \<Rightarrow> int \<Rightarrow> (CBlockIndex \<Rightarrow> bool) \<Rightarrow> (CBlockIndex \<Rightarrow> bool) \<Rightarrow> addr option \<Rightarrow> 32 word list \<Rightarrow>
     int \<Rightarrow> (32 word list \<times> int) outcome" where
  "bits_loop fuel H span stop kind None tNbits nFirstBlockTime = Ret (tNbits, nFirstBlockTime)"
| "bits_loop fuel H span stop kind (Some a) tNbits nFirstBlockTime =
     (case H a of
        None \<Rightarrow> UndefinedBehaviour
      | Some b \<Rightarrow>
          if pprev b = None then Ret (tNbits, nFirstBlockTime)
          else if of_nat (length tNbits) = (word_of_int span :: 64 word) \<or> stop b
            then Ret (tNbits, nFirstBlockTime)
          else (case fuel of
             0 \<Rightarrow> UndefinedBehaviour
           | Suc n \<Rightarrow>
               if kind b then bits_loop n H span stop kind (pprev b) (tNbits @ [nBits b]) (GetBlockTime b)
               else bits_loop n H span stop kind (pprev b) tNbits nFirstBlockTime))"

text \<open>The target from the collected ones: retargeted only when they are all equal.\<close>

definition kind_target ::
    "index \<Rightarrow> Params \<Rightarrow> (CBlockIndex \<Rightarrow> bool) \<Rightarrow> (CBlockIndex \<Rightarrow> bool) \<Rightarrow> 32 word \<Rightarrow>
     (32 word \<Rightarrow> int \<Rightarrow> 32 word option outcome) \<Rightarrow> CBlockIndex \<Rightarrow> addr option \<Rightarrow> 32 word option outcome" where
  "kind_target H params stop kind bnTargetLimitnBits retarget prev pindexLast =
     (if nPowTargetSpacing params = 0 then UndefinedBehaviour
      else let span = DifficultyAdjustmentInterval params
        in outcome_bind (bits_loop (height_fuel H pindexLast) H span stop kind pindexLast [] 0)
             (\<lambda>(tNbits, nFirstBlockTime).
                if of_nat (length tNbits) < (word_of_int span :: 64 word) then Ret (Some bnTargetLimitnBits)
                else if card (set tNbits) = 1 then retarget (nBits prev) (GetBlockTime prev - nFirstBlockTime)
                else Ret (Some (nBits prev))))"

text \<open>The two blocks before of the kind, which must not be the first ones of the chain; \<open>reset\<close> is the rule of
  the second fork.\<close>

definition kind_required ::
    "index \<Rightarrow> Params \<Rightarrow> bool \<Rightarrow> (CBlockIndex \<Rightarrow> bool) \<Rightarrow> (CBlockIndex \<Rightarrow> bool) \<Rightarrow> (CBlockIndex \<Rightarrow> bool) \<Rightarrow> 32 word \<Rightarrow>
     (32 word \<Rightarrow> int \<Rightarrow> 32 word option outcome) \<Rightarrow> addr option \<Rightarrow> 32 word option outcome" where
  "kind_required H params stake reset stop kind bnTargetLimitnBits retarget pindexLast =
     (if pindexLast = None then Ret (Some bnTargetLimitnBits)
      else outcome_bind (GetLastBlockIndex H pindexLast stake params) (\<lambda>pindexPrev.
        case pindexPrev of
          None \<Rightarrow> Ret (Some bnTargetLimitnBits)
        | Some p \<Rightarrow>
            (case H p of
               None \<Rightarrow> UndefinedBehaviour
             | Some prev \<Rightarrow>
                 if reset prev \<or> pprev prev = None then Ret (Some bnTargetLimitnBits)
                 else outcome_bind (GetLastBlockIndex H (pprev prev) stake params) (\<lambda>pindexPrevPrev.
                   case pindexPrevPrev of
                     None \<Rightarrow> Ret (Some bnTargetLimitnBits)
                   | Some q \<Rightarrow>
                       (case H q of
                          None \<Rightarrow> UndefinedBehaviour
                        | Some prevPrev \<Rightarrow>
                            if pprev prevPrev = None then Ret (Some bnTargetLimitnBits)
                            else kind_target H params stop kind bnTargetLimitnBits retarget prev pindexLast)))))"

definition fork_v2_reset :: "index \<Rightarrow> Params \<Rightarrow> CBlockHeader \<Rightarrow> CBlockIndex \<Rightarrow> bool" where
  "fork_v2_reset H params pblock prev \<longleftrightarrow>
     nHeight prev \<ge> p_UBCONTRACT_Height params \<and> nHeight prev < p_ForkV2Height params \<and>
     hashPrevBlock pblock \<noteq> uint256_null \<and>
     (case H (hashPrevBlock pblock) of None \<Rightarrow> False | Some b \<Rightarrow> nHeight b \<ge> p_ForkV2Height params - 1)"

definition PosGetNextTargetRequired ::
    "index \<Rightarrow> addr option \<Rightarrow> CBlockHeader \<Rightarrow> Params \<Rightarrow> 32 word option outcome" where
  "PosGetNextTargetRequired H pindexLast pblock params =
     (if \<not> Header_IsProofOfStake pblock then AssertFail
      else case GetCompact (UintToArith256 (posLimit params)) False of
        None \<Rightarrow> AssertFail
      | Some bnTargetLimitnBits \<Rightarrow>
          kind_required H params True (fork_v2_reset H params pblock)
            (\<lambda>b. nHeight b \<le> p_UBCONTRACT_Height params) IsProofOfStake bnTargetLimitnBits
            (pos_retarget params) pindexLast)"

definition PowGetNextTargetRequired ::
    "index \<Rightarrow> addr option \<Rightarrow> CBlockHeader \<Rightarrow> Params \<Rightarrow> 32 word option outcome" where
  "PowGetNextTargetRequired H pindexLast pblock params =
     (if \<not> Header_IsProofOfWork pblock then AssertFail
      else case GetCompact (UintToArith256 (powLimit params)) False of
        None \<Rightarrow> AssertFail
      | Some bnTargetLimitnBits \<Rightarrow>
          kind_required H params False (\<lambda>_. False) (\<lambda>_. False) IsProofOfWork bnTargetLimitnBits
            (pow_retarget params) pindexLast)"

section \<open>The next target\<close>

definition update_interval :: "int \<Rightarrow> Params \<Rightarrow> Params" where
  "update_interval height params =
     (if is_regtest_net params then params
      else if height \<ge> p_UBCONTRACT_Height params then UpdateDifficultyAdjustmentIntervalForkV2 params
      else if height \<ge> p_ForkV1Height params then UpdateDifficultyAdjustmentIntervalForkV1 params
      else if height \<ge> p_UBCHeight params + p_UBCInitBlockCount params
        then UpdateDifficultyAdjustmentInterval params
      else UpdateOldDifficultyAdjustmentInterval params)"

fun min_difficulty_loop :: "nat \<Rightarrow> index \<Rightarrow> int \<Rightarrow> 32 word \<Rightarrow> addr \<Rightarrow> 32 word outcome" where
  "min_difficulty_loop fuel H interval nProofOfWorkLimit a =
     (case H a of
        None \<Rightarrow> UndefinedBehaviour
      | Some b \<Rightarrow>
          (case pprev b of
             Some p \<Rightarrow>
               if nHeight b smod interval \<noteq> 0 \<and> nBits b = nProofOfWorkLimit
               then (case fuel of
                  0 \<Rightarrow> UndefinedBehaviour
                | Suc n \<Rightarrow> min_difficulty_loop n H interval nProofOfWorkLimit p)
               else Ret (nBits b)
           | None \<Rightarrow> Ret (nBits b)))"

declare min_difficulty_loop.simps [simp del]

text \<open>The rule within an interval.\<close>

definition interval_target ::
    "index \<Rightarrow> Params \<Rightarrow> int \<Rightarrow> 32 word \<Rightarrow> CBlockHeader \<Rightarrow> addr \<Rightarrow> CBlockIndex \<Rightarrow> 32 word option outcome" where
  "interval_target H params interval nProofOfWorkLimit pblock a tip =
     (if fPowAllowMinDifficultyBlocks params then
        (if Header_GetBlockTime pblock > GetBlockTime tip + nPowTargetSpacing params * 2
         then Ret (Some nProofOfWorkLimit)
         else map_outcome Some
           (min_difficulty_loop (height_fuel H (Some a)) H interval nProofOfWorkLimit a))
      else Ret (Some (nBits tip)))"

definition first_of_interval :: "index \<Rightarrow> Params \<Rightarrow> int \<Rightarrow> addr \<Rightarrow> CBlockIndex \<Rightarrow> 32 word option outcome" where
  "first_of_interval H params interval a tip =
     (let nHeightFirst = nHeight tip - (interval - 1)
      in if nHeightFirst < 0 then AssertFail
         else outcome_bind (GetAncestor H a nHeightFirst) (\<lambda>pindexFirst.
           case pindexFirst of
             None \<Rightarrow> AssertFail
           | Some f \<Rightarrow>
               (case H f of
                  None \<Rightarrow> UndefinedBehaviour
                | Some first \<Rightarrow> CalculateNextWorkRequired tip (GetBlockTime first) params)))"

definition GetNextWorkRequired ::
    "index \<Rightarrow> addr option \<Rightarrow> CBlockHeader \<Rightarrow> Params \<Rightarrow> (32 word option \<times> Params) outcome" where
  "GetNextWorkRequired H pindexLast pblock params =
     (case pindexLast of
        None \<Rightarrow> AssertFail
      | Some a \<Rightarrow>
     (case (H a, GetCompact (UintToArith256 (powLimit params)) False) of
        (None, _) \<Rightarrow> UndefinedBehaviour
      | (_, None) \<Rightarrow> AssertFail
      | (Some tip, Some nProofOfWorkLimit) \<Rightarrow>
          let height = nHeight tip + 1
          in if height = p_UBCHeight params \<or> height = p_ForkV1Height params then
               map_outcome (\<lambda>r. (r, params))
                 (cap_target (powLimit params) (bu_mul32 (fst (SetCompact (nBits tip))) 100))
             else let params' = update_interval height params;
                      interval = DifficultyAdjustmentInterval params'
               in if nPowTargetSpacing params' = 0 \<or> interval = 0 then UndefinedBehaviour
                  else map_outcome (\<lambda>r. (r, params'))
                    (if height smod interval \<noteq> 0 \<and> height < p_UBCONTRACT_Height params'
                     then interval_target H params' interval nProofOfWorkLimit pblock a tip
                     else if Header_IsProofOfStake pblock \<and> height \<ge> p_UBCONTRACT_Height params'
                       then PosGetNextTargetRequired H (Some a) pblock params'
                     else if Header_IsProofOfWork pblock \<and> height \<ge> p_UBCONTRACT_Height params'
                       then PowGetNextTargetRequired H (Some a) pblock params'
                     else first_of_interval H params' interval a tip)))"

section \<open>Checking a proof of work\<close>

definition CheckProofOfWork :: "index \<Rightarrow> bytes \<Rightarrow> bytes \<Rightarrow> 32 word \<Rightarrow> Params \<Rightarrow> int \<Rightarrow> bool" where
  "CheckProofOfWork H hash prevHash bits params blockHeight =
     (if blockHeight \<noteq> -1 \<and> blockHeight \<ge> p_UBCHeight params \<and>
          blockHeight < p_UBCHeight params + p_UBCInitBlockCount params then True
      else if (case H prevHash of
          None \<Rightarrow> False
        | Some b \<Rightarrow> nHeight b = p_ForkV4Height params - 1 \<or>
            (nHeight b \<ge> p_UBCHeight params - 1 \<and>
             nHeight b < p_UBCHeight params + p_UBCInitBlockCount params - 1)) then True
      else case SetCompact bits of (bnTarget, fNegative, fOverflow) \<Rightarrow>
        if fNegative \<or> EqualTo bnTarget 0 \<or> fOverflow \<or>
            CompareTo bnTarget (UintToArith256 (powLimit params)) > 0 then False
        else if CompareTo (UintToArith256 hash) bnTarget > 0 then False
        else True)"

end
