(* ===== verification/PowProps.thy ===== *)
theory PowProps
  imports Pow
begin

text \<open>
  What the difficulty rules guarantee: the next target is the last one scaled by the time its interval
  took, within a factor of four and below the limit; which hashes are accepted; and that the rule for
  the old intervals depends on the blocks processed before.
\<close>

section \<open>Targets as numbers\<close>

definition target_value :: "32 word \<Rightarrow> nat" where
  "target_value bits = limbs (fst (SetCompact bits))"

definition limit_value :: "bytes \<Rightarrow> nat" where
  "limit_value limit = limbs (UintToArith256 limit)"

lemma length_UintToArith256 [simp]: "length (UintToArith256 x) = WIDTH"
  by (simp add: UintToArith256_def)

lemma length_SetCompact [simp]: "length (fst (SetCompact bits)) = WIDTH"
  by (rule SetCompact_general [of bits]) simp

lemma unat_word_of_int: "0 \<le> n \<Longrightarrow> n < 2 ^ LENGTH('a) \<Longrightarrow> unat (word_of_int n :: 'a :: len word) = nat n"
  by (simp add: unat_eq_nat_uint uint_word_of_int)

text \<open>A target cut to the limit, up to the bytes the compact format drops.\<close>

definition compact_of :: "nat \<Rightarrow> 32 word \<Rightarrow> bool" where
  "compact_of n c \<longleftrightarrow> snd (SetCompact c) = (False, False) \<and>
     (\<exists>k. target_value c = n div 256 ^ k * 256 ^ k \<and> (k = 0 \<or> 32768 * 256 ^ k \<le> n))"

lemma compact_of_le: "compact_of n c \<Longrightarrow> target_value c \<le> n"
  unfolding compact_of_def using div_times_less_eq_dividend by metis

lemma cap_target_value:
  assumes "length bn = WIDTH"
  shows "\<exists>c. cap_target limit bn = Ret (Some c) \<and> compact_of (min (limbs bn) (limit_value limit)) c"
proof -
  let ?bn = "if CompareTo bn (UintToArith256 limit) > 0 then UintToArith256 limit else bn"
  have len: "length ?bn = WIDTH" using assms by simp
  have eq: "limbs ?bn = min (limbs bn) (limit_value limit)"
    using assms by (simp add: CompareTo_limbs limit_value_def)
  obtain c r k where c: "GetCompact ?bn False = Some c" "SetCompact c = (r, False, False)"
    "limbs r = limbs ?bn div 256 ^ k * 256 ^ k" "k = 0 \<or> 32768 * 256 ^ k \<le> limbs ?bn"
    using GetCompact_SetCompact [OF len] by blast
  have "compact_of (limbs ?bn) c"
    unfolding compact_of_def target_value_def using c(2-4) by (intro conjI exI [of _ k]) simp_all
  moreover have "cap_target limit bn = Ret (Some c)" using c(1) by (simp only: cap_target_def compact_outcome_def option.case)
  ultimately show ?thesis unfolding eq by blast
qed

section \<open>Retargeting\<close>

lemma limit_timespan_bounds:
  assumes "4 \<le> nPowTargetTimespan params"
  shows "0 < limit_timespan params n \<and> nPowTargetTimespan params div 4 \<le> limit_timespan params n \<and>
    limit_timespan params n \<le> 4 * nPowTargetTimespan params"
proof -
  have "nPowTargetTimespan params sdiv 4 = nPowTargetTimespan params div 4"
    using assms by (simp add: signed_divide_int_def sgn_if)
  moreover have "0 < nPowTargetTimespan params div 4" using assms by simp
  moreover have "nPowTargetTimespan params div 4 \<le> nPowTargetTimespan params * 4" using assms by linarith
  ultimately show ?thesis by (simp add: limit_timespan_def Let_def)
qed

lemma pow_retarget_value:
  assumes T: "4 \<le> nPowTargetTimespan params" "4 * nPowTargetTimespan params < 2 ^ 32"
    and small: "target_value bits * (4 * nat (nPowTargetTimespan params)) < 2 ^ 256"
  shows "\<exists>c. pow_retarget params bits n = Ret (Some c) \<and>
    compact_of (min (target_value bits * nat (limit_timespan params n) div nat (nPowTargetTimespan params))
      (limit_value (powLimit params))) c"
proof -
  let ?t = "limit_timespan params n" and ?T = "nPowTargetTimespan params"
  note b = limit_timespan_bounds [OF T(1), of n]
  have t: "unat (word_of_int ?t :: 32 word) = nat ?t" using b T(2) by (intro unat_word_of_int) auto
  have d: "limbs (timespan_divisor params) = nat ?T" "length (timespan_divisor params) = WIDTH"
    using T by (simp_all add: timespan_divisor_def limbs_base_uint_of unat_word_of_int)
  let ?m = "bu_mul32 (fst (SetCompact bits)) (word_of_int ?t)"
  have "target_value bits * nat ?t \<le> target_value bits * (4 * nat ?T)" using b by (intro mult_le_mono2) auto
  then have "target_value bits * nat ?t < 2 ^ 256" using small by (rule order_le_less_trans)
  then have m: "limbs ?m = target_value bits * nat ?t"
    by (simp only: limbs_bu_mul32 [OF length_SetCompact] t target_value_def mod_less)
  have "length ?m = WIDTH" by simp
  note div = bu_div_limbs [OF this d(2)]
  obtain q where q: "bu_div ?m (timespan_divisor params) = Some q" using div(1) d(1) T(1) by fastforce
  have q': "length q = WIDTH" "limbs q = target_value bits * nat ?t div nat ?T" using div(2) [OF q] d(1) m by simp_all
  then show ?thesis using cap_target_value [OF q'(1), of "powLimit params"] q q'(2) by (simp add: pow_retarget_def)
qed


section \<open>Accepted hashes\<close>

text \<open>The blocks whose proof of work is not looked at: those of the first fork, by height or by the height
  of the block before, and the one of the fourth fork.\<close>

definition pow_exempt :: "index \<Rightarrow> Params \<Rightarrow> bytes \<Rightarrow> int \<Rightarrow> bool" where
  "pow_exempt H params prevHash blockHeight \<longleftrightarrow>
     (blockHeight \<noteq> -1 \<and> blockHeight \<in> {p_UBCHeight params ..< p_UBCHeight params + p_UBCInitBlockCount params}) \<or>
     (\<exists>b. H prevHash = Some b \<and> (nHeight b + 1 = p_ForkV4Height params \<or>
        nHeight b + 1 \<in> {p_UBCHeight params ..< p_UBCHeight params + p_UBCInitBlockCount params}))"

text \<open>C28: a hash is accepted exactly if its block is exempt or the hash, read as a number, is at most a
  positive target that is encoded without sign and overflow and is within the limit.\<close>

theorem check_proof_of_work_iff:
  "CheckProofOfWork H hash prevHash bits params blockHeight \<longleftrightarrow>
     pow_exempt H params prevHash blockHeight \<or>
     (snd (SetCompact bits) = (False, False) \<and> 0 < target_value bits \<and>
      target_value bits \<le> limit_value (powLimit params) \<and> limit_value hash \<le> target_value bits)"
proof -
  obtain r n v where r: "SetCompact bits = (r, n, v)" by (cases "SetCompact bits")
  have "length r = WIDTH" using length_SetCompact [of bits] r by simp
  then have "CompareTo r (UintToArith256 (powLimit params)) > 0 \<longleftrightarrow> \<not> target_value bits \<le> limit_value (powLimit params)"
    "CompareTo (UintToArith256 hash) r > 0 \<longleftrightarrow> \<not> limit_value hash \<le> target_value bits"
    "EqualTo r 0 \<longleftrightarrow> \<not> 0 < target_value bits"
    using r by (auto simp: CompareTo_limbs EqualTo_limbs target_value_def limit_value_def sgn_if)
  moreover have "pow_exempt H params prevHash blockHeight \<longleftrightarrow>
     blockHeight \<noteq> -1 \<and> blockHeight \<ge> p_UBCHeight params \<and>
          blockHeight < p_UBCHeight params + p_UBCInitBlockCount params \<or>
      (case H prevHash of
          None \<Rightarrow> False
        | Some b \<Rightarrow> nHeight b = p_ForkV4Height params - 1 \<or>
            (nHeight b \<ge> p_UBCHeight params - 1 \<and>
             nHeight b < p_UBCHeight params + p_UBCInitBlockCount params - 1))"
    by (auto simp: pow_exempt_def split: option.splits)
  ultimately show ?thesis using r by (auto simp: CheckProofOfWork_def)
qed

section \<open>Old intervals after a fork\<close>

text \<open>C37: the parameters of the intervals before the first change of the spacing leave the spacing as it is.
  On fresh parameters a block that ends an interval of 200 blocks is followed by a new target; after
  the target of a block above the first change was asked for, the same question for the old block is
  answered by the old target.\<close>

theorem difficulty_depends_on_history:
  assumes wf: "wf_index H" and b: "H a = Some b" "H a' = Some b'"
    and p: "\<not> is_regtest_net params" "nPowTargetSpacing params = 600" "\<not> fPowAllowMinDifficultyBlocks params"
      "0 < p_UBCInitBlockCount params"
    and h: "p_UBCHeight params + p_UBCInitBlockCount params \<le> nHeight b + 1"
      "nHeight b + 1 < p_ForkV1Height params" "p_ForkV1Height params < nHeight b' + 1"
      "nHeight b' + 1 < p_UBCONTRACT_Height params"
    and m: "(nHeight b + 1) mod 200 = 0" "(nHeight b + 1) mod 2000 \<noteq> 0"
    and later: "GetNextWorkRequired H (Some a') pblock' params = Ret (r', params')"
  shows "\<exists>f bf. GetAncestor H a (nHeight b - 199) = Ret (Some f) \<and> H f = Some bf \<and>
    GetNextWorkRequired H (Some a) pblock params =
      map_outcome (\<lambda>r. (r, UpdateDifficultyAdjustmentInterval params))
        (CalculateNextWorkRequired b (GetBlockTime bf) (UpdateDifficultyAdjustmentInterval params)) \<and>
    GetNextWorkRequired H (Some a) pblock params' =
      Ret (Some (nBits b), UpdateDifficultyAdjustmentInterval params')"
proof -
  have pos: "0 \<le> nHeight b" using wf_height [OF wf b(1)] .
  have "200 \<le> nHeight b + 1" using m(1) pos by (intro zdvd_imp_le) auto
  then obtain f bf where "steps_back H 199 a = Some f" and f: "H f = Some bf"
    using back_height [OF wf b(1), of 199] by auto
  then have anc: "GetAncestor H a (nHeight b - 199) = Ret (Some f)"
    using GetAncestor_back [OF wf b(1), of "nHeight b - 199"] \<open>200 \<le> nHeight b + 1\<close> by simp
  obtain limit where limit: "GetCompact (UintToArith256 (powLimit params)) False = Some limit"
    using GetCompact_SetCompact [OF length_UintToArith256] by blast
  have params': "params' = UpdateDifficultyAdjustmentIntervalForkV1 params"
    using later b(2) p h limit
    by (auto simp: GetNextWorkRequired_def Let_def update_interval_def map_outcome_eq_Ret split: if_splits)
  have smod: "(nHeight b + 1) smod 200 = 0" "(nHeight b + 1) smod 2000 \<noteq> 0"
    using m pos by (simp_all add: signed_modulo_int_def sgn_if)
  have "GetNextWorkRequired H (Some a) pblock params =
      map_outcome (\<lambda>r. (r, UpdateDifficultyAdjustmentInterval params))
        (CalculateNextWorkRequired b (GetBlockTime bf) (UpdateDifficultyAdjustmentInterval params))"
    using b(1) p h limit smod(1) anc f \<open>200 \<le> nHeight b + 1\<close>
    by (simp add: GetNextWorkRequired_def Let_def update_interval_def UpdateDifficultyAdjustmentInterval_def
        DifficultyAdjustmentInterval_def first_of_interval_def signed_divide_int_def)
  moreover have "GetNextWorkRequired H (Some a) pblock params' =
      Ret (Some (nBits b), UpdateDifficultyAdjustmentInterval params')"
    unfolding params' using b(1) p h limit smod(2)
    by (simp add: GetNextWorkRequired_def Let_def update_interval_def UpdateDifficultyAdjustmentInterval_def
        UpdateDifficultyAdjustmentIntervalForkV1_def DifficultyAdjustmentInterval_def interval_target_def
        signed_divide_int_def)
  ultimately show ?thesis using anc f by blast
qed

text \<open>A chain of 202 blocks without skip pointers, all of the target \<open>0x1d00ffff\<close> and of one time.\<close>

definition tall_index :: index where
  "tall_index a = (case a of
     [w] \<Rightarrow> if unat w < 202
            then Some (BlockIndex_null\<lparr>nHeight := int (unat w), nBits := 0x1d00ffff,
                   pprev := if w = 0 then None else Some [w - 1]\<rparr>)
            else None
   | _ \<Rightarrow> None)"

definition tall_params :: Params where
  "tall_params = \<lparr>is_regtest_net = False, p_UBCHeight = 1, p_UBCInitBlockCount = 1, p_ForkV1Height = 201,
     p_ForkV2Height = 2000, p_ForkV4Height = 3000, p_UBCONTRACT_Height = 1000,
     nRuleChangeActivationThreshold = 1916, nMinerConfirmationWindow = 2016,
     vDeployments = (\<lambda>_. \<lparr>dep_bit = 0, nStartTime = 0, nTimeout = 0\<rparr>), powLimit = replicate 28 255 @ replicate 4 0,
     fPowAllowMinDifficultyBlocks = False, fPowNoRetargeting = False, nPowTargetSpacing = 600,
     nPowTargetTimespan = 1209600, posLimit = replicate 28 255 @ replicate 4 0\<rparr>"

lemma wf_tall_index: "wf_index tall_index"
  unfolding wf_index_def
proof (intro allI impI)
  fix a b assume "tall_index a = Some b"
  then obtain w where w: "a = [w]" "unat w < 202" "b = BlockIndex_null\<lparr>nHeight := int (unat w), nBits := 0x1d00ffff,
      pprev := if w = 0 then None else Some [w - 1]\<rparr>"
    by (auto simp: tall_index_def split: list.splits if_splits)
  show "wf_entry tall_index a b"
  proof (cases "w = 0")
    case False
    then have "unat w = Suc (unat (w - 1))" by (simp add: unat_minus_one unat_gt_0)
    then show ?thesis using w False by (simp add: wf_entry_def tall_index_def BlockIndex_null_def)
  qed (simp add: w(3) wf_entry_def BlockIndex_null_def)
qed

lemma target_1d00ffff: "target_value 0x1d00ffff = 65535 * 256 ^ 26"
proof -
  have c: "unat (0x1d00ffff :: 32 word) = 65535 + 16777216 * 29" by simp
  show ?thesis
    by (rule SetCompact_limbs [OF c]) (simp_all add: target_value_def compact_value_def)
qed


lemma tall_index_199: "tall_index [199] = Some (BlockIndex_null\<lparr>nHeight := 199, nBits := 0x1d00ffff, pprev := Some [198]\<rparr>)"
  and tall_index_201: "tall_index [201] = Some (BlockIndex_null\<lparr>nHeight := 201, nBits := 0x1d00ffff, pprev := Some [200]\<rparr>)"
  by (simp_all add: tall_index_def)

lemma tall_index_time: "tall_index f = Some bf \<Longrightarrow> GetBlockTime bf = 0"
  by (auto simp: tall_index_def GetBlockTime_def BlockIndex_null_def split: list.splits if_splits)

theorem difficulty_depends_on_history_witness:
  "\<exists>r params' c p1 p2. GetNextWorkRequired tall_index (Some [201]) Header_null tall_params = Ret (r, params') \<and>
    GetNextWorkRequired tall_index (Some [199]) Header_null tall_params = Ret (Some c, p1) \<and>
    GetNextWorkRequired tall_index (Some [199]) Header_null params' = Ret (Some 0x1d00ffff, p2) \<and> c \<noteq> 0x1d00ffff"
proof -
  let ?b = "BlockIndex_null\<lparr>nHeight := 199, nBits := 0x1d00ffff, pprev := Some [198]\<rparr>"
  let ?p = "UpdateDifficultyAdjustmentInterval tall_params"
  obtain limit where "GetCompact (UintToArith256 (powLimit tall_params)) False = Some limit"
    using GetCompact_SetCompact [OF length_UintToArith256] by blast
  then have later: "GetNextWorkRequired tall_index (Some [201]) Header_null tall_params =
      Ret (Some 0x1d00ffff, UpdateDifficultyAdjustmentIntervalForkV1 tall_params)"
    by (simp add: GetNextWorkRequired_def tall_index_201 tall_params_def update_interval_def
        UpdateDifficultyAdjustmentIntervalForkV1_def DifficultyAdjustmentInterval_def interval_target_def
        signed_divide_int_def signed_modulo_int_def)
  have "limit_timespan ?p 0 = 30000"
    by (simp add: limit_timespan_def tall_params_def UpdateDifficultyAdjustmentInterval_def signed_divide_int_def)
  then obtain c where c: "pow_retarget ?p 0x1d00ffff 0 = Ret (Some c)"
    "compact_of (min (65535 * 256 ^ 26 * 30000 div 120000) (limit_value (powLimit ?p))) c"
    using pow_retarget_value [of ?p "0x1d00ffff" 0]
    by (auto simp: target_1d00ffff tall_params_def UpdateDifficultyAdjustmentInterval_def)
  have "target_value c \<le> 65535 * 256 ^ 26 * 30000 div 120000" using compact_of_le [OF c(2)] by simp
  then have "c \<noteq> 0x1d00ffff" using target_1d00ffff by auto
  moreover have "CalculateNextWorkRequired ?b 0 ?p = Ret (Some c)"
    using c(1) by (simp add: CalculateNextWorkRequired_def GetBlockTime_def BlockIndex_null_def
        tall_params_def UpdateDifficultyAdjustmentInterval_def)
  moreover have "\<exists>f bf. GetAncestor tall_index [199] (nHeight ?b - 199) = Ret (Some f) \<and> tall_index f = Some bf \<and>
    GetNextWorkRequired tall_index (Some [199]) Header_null tall_params =
      map_outcome (\<lambda>r. (r, ?p)) (CalculateNextWorkRequired ?b (GetBlockTime bf) ?p) \<and>
    GetNextWorkRequired tall_index (Some [199]) Header_null (UpdateDifficultyAdjustmentIntervalForkV1 tall_params) =
      Ret (Some (nBits ?b), UpdateDifficultyAdjustmentInterval (UpdateDifficultyAdjustmentIntervalForkV1 tall_params))"
    by (rule difficulty_depends_on_history [OF wf_tall_index tall_index_199 tall_index_201 _ _ _ _ _ _ _ _ _ _ later])
       (simp_all add: tall_params_def)
  ultimately show ?thesis using later by (auto dest: tall_index_time)
qed

end
