(* ===== verification/Compressor.thy ===== *)
theory Compressor
  imports UpdateCoins
begin

text \<open>
  The compact formats of amounts and scripts (\<^verbatim>\<open>src/src/compressor.cpp\<close>, \<^verbatim>\<open>compressor.h\<close>), of coins in the
  database (\<^verbatim>\<open>src/src/coins.h\<close>) and of undo data on disk (\<^verbatim>\<open>src/src/undo.h\<close>).  Readers start from default
  constructed objects.  The validity and the decompression of public keys, which the curve library
  computes, are the record \<open>pubkey_ops\<close>.
\<close>

section \<open>Amounts\<close>

text \<open>Amounts are numbers below \<open>2 ^ 64\<close>; the loops end at the exponent nine.\<close>

function strip_zeros :: "nat \<Rightarrow> nat \<Rightarrow> nat \<times> nat" where
  "strip_zeros n e = (if n mod 10 = 0 \<and> e < 9 then strip_zeros (n div 10) (e + 1) else (n, e))"
  by pat_completeness auto
termination by (relation "measure (\<lambda>(_, e). 9 - e)") auto

declare strip_zeros.simps [simp del]

text \<open>The assertion on the last digit is lemma \<open>strip_zeros_digit\<close>.\<close>

definition CompressAmount :: "nat \<Rightarrow> nat" where
  "CompressAmount n =
     (if n = 0 then 0
      else case strip_zeros n 0 of (n, e) \<Rightarrow>
        if e < 9
        then (let d = n mod 10; n = n div 10 in (1 + (n * 9 + d - 1) * 10 + e) mod 2 ^ 64)
        else (1 + (n - 1) * 10 + 9) mod 2 ^ 64)"

fun scale_up :: "nat \<Rightarrow> nat \<Rightarrow> nat" where
  "scale_up n 0 = n"
| "scale_up n (Suc e) = scale_up (n * 10 mod 2 ^ 64) e"

definition DecompressAmount :: "nat \<Rightarrow> nat" where
  "DecompressAmount x =
     (if x = 0 then 0
      else let x = x - 1; e = x mod 10; x = x div 10
        in scale_up (if e < 9 then (let d = x mod 9 + 1; x = x div 9 in x * 10 + d) else x + 1) e)"

section \<open>Scripts\<close>

record pubkey_ops =
  IsFullyValid :: "bytes \<Rightarrow> bool"
  pubkey_Decompress :: "bytes \<Rightarrow> bytes option"

definition IsToKeyID :: "bytes \<Rightarrow> bytes option" where
  "IsToKeyID script =
     (if length script = 25 \<and> unat (script ! 0) = OP_DUP \<and> unat (script ! 1) = OP_HASH160 \<and>
         script ! 2 = 20 \<and> unat (script ! 23) = OP_EQUALVERIFY \<and> unat (script ! 24) = OP_CHECKSIG
      then Some (take 20 (drop 3 script)) else None)"

definition IsToScriptID :: "bytes \<Rightarrow> bytes option" where
  "IsToScriptID script =
     (if length script = 23 \<and> unat (script ! 0) = OP_HASH160 \<and> script ! 1 = 20 \<and>
         unat (script ! 22) = OP_EQUAL
      then Some (take 20 (drop 2 script)) else None)"

definition IsToPubKey :: "pubkey_ops \<Rightarrow> bytes \<Rightarrow> bytes option" where
  "IsToPubKey pk script =
     (if length script = 35 \<and> script ! 0 = 33 \<and> unat (script ! 34) = OP_CHECKSIG \<and>
         (script ! 1 = 2 \<or> script ! 1 = 3)
      then Some (take 33 (drop 1 script))
      else if length script = 67 \<and> script ! 0 = 65 \<and> unat (script ! 66) = OP_CHECKSIG \<and> script ! 1 = 4
      then (let pubkey = take 65 (drop 1 script) in if IsFullyValid pk pubkey then Some pubkey else None)
      else None)"

definition Compress :: "pubkey_ops \<Rightarrow> bytes \<Rightarrow> bytes option" where
  "Compress pk script =
     (case IsToKeyID script of
        Some keyID \<Rightarrow> Some (0 # keyID)
      | None \<Rightarrow>
     (case IsToScriptID script of
        Some scriptID \<Rightarrow> Some (1 # scriptID)
      | None \<Rightarrow>
     (case IsToPubKey pk script of
        Some pubkey \<Rightarrow>
          if pubkey ! 0 = 2 \<or> pubkey ! 0 = 3 then Some (pubkey ! 0 # take 32 (drop 1 pubkey))
          else if pubkey ! 0 = 4 then Some ((4 OR (pubkey ! 64 AND 1)) # take 32 (drop 1 pubkey))
          else None
      | None \<Rightarrow> None)))"

definition GetSpecialSize :: "nat \<Rightarrow> nat" where
  "GetSpecialSize nSize =
     (if nSize = 0 \<or> nSize = 1 then 20
      else if nSize = 2 \<or> nSize = 3 \<or> nSize = 4 \<or> nSize = 5 then 32
      else 0)"

text \<open>\<^const>\<open>None\<close>: the script is left unchanged.  A decompressed key has 65 bytes.\<close>

definition Decompress :: "pubkey_ops \<Rightarrow> nat \<Rightarrow> bytes \<Rightarrow> bytes option" where
  "Decompress pk nSize in_bytes =
     (if nSize = 0 then
        Some ([of_nat OP_DUP, of_nat OP_HASH160, 20] @ take 20 in_bytes @ [of_nat OP_EQUALVERIFY, of_nat OP_CHECKSIG])
      else if nSize = 1 then
        Some ([of_nat OP_HASH160, 20] @ take 20 in_bytes @ [of_nat OP_EQUAL])
      else if nSize = 2 \<or> nSize = 3 then
        Some ([33, of_nat nSize] @ take 32 in_bytes @ [of_nat OP_CHECKSIG])
      else if nSize = 4 \<or> nSize = 5 then
        (case pubkey_Decompress pk (of_nat (nSize - 2) # take 32 in_bytes) of
           None \<Rightarrow> None
         | Some pubkey \<Rightarrow> Some ([65] @ take 65 pubkey @ [of_nat OP_CHECKSIG]))
      else None)"

abbreviation (input) nSpecialScripts :: nat where "nSpecialScripts \<equiv> 6"

definition ser_ScriptCompressor :: "pubkey_ops \<Rightarrow> bytes \<Rightarrow> bytes" where
  "ser_ScriptCompressor pk script =
     (case Compress pk script of
        Some compr \<Rightarrow> compr
      | None \<Rightarrow> WriteVarInt ((length script + nSpecialScripts) mod 2 ^ 32) @ script)"

definition unser_ScriptCompressor :: "pubkey_ops \<Rightarrow> bytes reader" where
  "unser_ScriptCompressor pk s = do {
     (nSize, s) \<leftarrow> ReadVarInt 0xffffffff s;
     if nSize < nSpecialScripts then do {
       (vch, s) \<leftarrow> read_bytes (GetSpecialSize nSize) s;
       Some (case Decompress pk nSize vch of None \<Rightarrow> [] | Some script \<Rightarrow> script, s) }
     else let nSize = nSize - nSpecialScripts
       in if nSize > MAX_SCRIPT_SIZE then do {
            (_, s) \<leftarrow> read_bytes nSize s;
            Some ([of_nat OP_RETURN], s) }
          else read_bytes nSize s }"

section \<open>Outputs, coins and undo data\<close>

definition ser_TxOutCompressor :: "pubkey_ops \<Rightarrow> CTxOut \<Rightarrow> bytes" where
  "ser_TxOutCompressor pk txout =
     WriteVarInt (CompressAmount (unat (nValue txout))) @ ser_ScriptCompressor pk (scriptPubKey txout)"

definition unser_TxOutCompressor :: "pubkey_ops \<Rightarrow> CTxOut reader" where
  "unser_TxOutCompressor pk s = do {
     (nVal, s) \<leftarrow> ReadVarInt 0xffffffffffffffff s;
     (script, s) \<leftarrow> unser_ScriptCompressor pk s;
     Some (\<lparr>nValue = of_nat (DecompressAmount nVal), scriptPubKey = script\<rparr>, s) }"

text \<open>The height is a field of 31 bits that the product promotes to \<^verbatim>\<open>int\<close>: a height of \<open>2 ^ 30\<close> overflows.\<close>

definition coin_code :: "Coin \<Rightarrow> nat" where
  "coin_code coin = unat (coin_nHeight coin) * 2 + (if fCoinBase coin then 1 else 0)"

definition Coin_Serialize :: "pubkey_ops \<Rightarrow> Coin \<Rightarrow> bytes outcome" where
  "Coin_Serialize pk coin =
     (if IsSpent coin then AssertFail
      else if unat (coin_nHeight coin) \<ge> 2 ^ 30 then UndefinedBehaviour
      else Ret (WriteVarInt (coin_code coin) @ ser_TxOutCompressor pk (coin_out coin)))"

definition Coin_Unserialize :: "pubkey_ops \<Rightarrow> Coin reader" where
  "Coin_Unserialize pk s = do {
     (code, s) \<leftarrow> ReadVarInt 0xffffffff s;
     (txout, s) \<leftarrow> unser_TxOutCompressor pk s;
     Some (\<lparr>coin_out = txout, fCoinBase = odd code, coin_nHeight = of_nat (code div 2)\<rparr>, s) }"

definition undo_entry :: "pubkey_ops \<Rightarrow> Coin \<Rightarrow> bytes" where
  "undo_entry pk coin =
     WriteVarInt (coin_code coin) @ (if coin_nHeight coin > 0 then ser_writedata8 0 else []) @
     ser_TxOutCompressor pk (coin_out coin)"

definition guard_heights :: "Coin list \<Rightarrow> bytes \<Rightarrow> bytes outcome" where
  "guard_heights coins bs = (if list_ex (\<lambda>coin. unat (coin_nHeight coin) \<ge> 2 ^ 30) coins then UndefinedBehaviour else Ret bs)"

definition TxInUndo_Serialize :: "pubkey_ops \<Rightarrow> Coin \<Rightarrow> bytes outcome" where
  "TxInUndo_Serialize pk coin = guard_heights [coin] (undo_entry pk coin)"

definition TxInUndo_Unserialize :: "pubkey_ops \<Rightarrow> Coin reader" where
  "TxInUndo_Unserialize pk s = do {
     (nCode, s) \<leftarrow> ReadVarInt 0xffffffff s;
     (_, s) \<leftarrow> (if (of_nat (nCode div 2) :: 31 word) > 0 then ReadVarInt 0x7fffffff s else Some (0, s));
     (txout, s) \<leftarrow> unser_TxOutCompressor pk s;
     Some (\<lparr>coin_out = txout, fCoinBase = odd nCode, coin_nHeight = of_nat (nCode div 2)\<rparr>, s) }"

text \<open>32000000 bytes over the weight of the smallest input, four times 41 bytes.\<close>

abbreviation (input) MAX_INPUTS_PER_BLOCK :: nat where "MAX_INPUTS_PER_BLOCK \<equiv> 32000000 div (4 * 41)"

definition undo_entries :: "pubkey_ops \<Rightarrow> Coin list \<Rightarrow> bytes" where
  "undo_entries pk vprevout =
     WriteCompactSize (of_nat (length vprevout)) @ concat (map (undo_entry pk) vprevout)"

definition TxUndo_Serialize :: "pubkey_ops \<Rightarrow> Coin list \<Rightarrow> bytes outcome" where
  "TxUndo_Serialize pk vprevout = guard_heights vprevout (undo_entries pk vprevout)"

definition TxUndo_Unserialize :: "pubkey_ops \<Rightarrow> Coin list reader" where
  "TxUndo_Unserialize pk s = do {
     (cnt, s) \<leftarrow> ReadCompactSize s;
     if unat cnt > MAX_INPUTS_PER_BLOCK then None
     else read_elements (TxInUndo_Unserialize pk) (unat cnt) s }"

definition BlockUndo_Serialize :: "pubkey_ops \<Rightarrow> Coin list list \<Rightarrow> bytes outcome" where
  "BlockUndo_Serialize pk vtxundo = guard_heights (concat vtxundo) (ser_vector (undo_entries pk) vtxundo)"

definition BlockUndo_Unserialize :: "pubkey_ops \<Rightarrow> Coin list list reader" where
  "BlockUndo_Unserialize pk = unser_vector (TxUndo_Unserialize pk)"

section \<open>Amounts are restored\<close>

lemma strip_zeros_value:
  "0 < n \<Longrightarrow> e \<le> 9 \<Longrightarrow> case strip_zeros n e of (m, f) \<Rightarrow> n * 10 ^ e = m * 10 ^ f \<and> f \<le> 9 \<and> 0 < m \<and> (f < 9 \<longrightarrow> m mod 10 \<noteq> 0)"
proof (induction n e rule: strip_zeros.induct)
  case (1 n e)
  show ?case
  proof (cases "n mod 10 = 0 \<and> e < 9")
    case True
    then obtain k where k: "n = k * 10" by (metis mult.commute mod_eq_0_iff_dvd dvdE)
    then have "0 < k" using "1.prems"(1) by simp
    then show ?thesis using 1 True by (subst strip_zeros.simps) (simp add: k mult.assoc)
  next
    case False
    then show ?thesis using "1.prems" by (subst strip_zeros.simps) auto
  qed
qed

lemma strip_zeros_digit: "strip_zeros n 0 = (m, e) \<Longrightarrow> 0 < n \<Longrightarrow> e < 9 \<Longrightarrow> 1 \<le> m mod 10 \<and> m mod 10 \<le> 9"
  using strip_zeros_value [of n 0] by (auto simp: Suc_le_eq)

lemma scale_up_power: "n * 10 ^ e < 2 ^ 64 \<Longrightarrow> scale_up n e = n * 10 ^ e"
proof (induction e arbitrary: n)
  case (Suc e)
  have a: "n * 10 * 10 ^ e < 2 ^ 64" using Suc.prems by (simp only: power_Suc mult.assoc)
  have "n * 10 < 2 ^ 64" by (rule order_le_less_trans [OF _ a]) simp
  then show ?case using Suc by (simp add: mult.assoc)
qed simp

lemma CompressAmount_less: "CompressAmount n < 2 ^ 64"
  by (simp add: CompressAmount_def Let_def split: prod.split)

lemma DecompressAmount_CompressAmount:
  assumes "9 * n + 10 < 2 ^ 64"
  shows "DecompressAmount (CompressAmount n) = n"
proof (cases "n = 0")
  case False
  obtain m e where me: "strip_zeros n 0 = (m, e)" by fastforce
  then have v: "n = m * 10 ^ e" "e \<le> 9" "0 < m" "e < 9 \<Longrightarrow> m mod 10 \<noteq> 0"
    using strip_zeros_value [of n 0] False by auto
  have mn: "m \<le> n" using v(1) by simp
  have up: "scale_up m e = n" using v(1) assms by (simp add: scale_up_power)
  show ?thesis
  proof (cases "e < 9")
    case True
    let ?y = "m div 10 * 9 + m mod 10 - 1"
    have d: "0 < m mod 10" "m mod 10 < 10" using v(4) True by auto
    have c: "CompressAmount n = 1 + ?y * 10 + e"
    proof -
      have "10 * ?y \<le> 9 * m + m mod 10 - 10" using d div_mult_mod_eq [of m 10] by linarith
      then have "1 + ?y * 10 + e < 2 ^ 64" using mn assms True d by linarith
      then show ?thesis using False me True by (simp add: CompressAmount_def)
    qed
    obtain k where k: "m mod 10 = Suc k" "k < 9" using d by (cases "m mod 10") auto
    have "?y = m div 10 * 9 + k" using k by simp
    then have "?y mod 9 + 1 = m mod 10" "?y div 9 = m div 10" using k by simp_all
    then have "DecompressAmount (1 + ?y * 10 + e) = scale_up (m div 10 * 10 + m mod 10) e"
      using True by (simp add: DecompressAmount_def Let_def)
    then show ?thesis using up c by simp
  next
    case e9: False
    then have "e = 9" using v(2) by simp
    have "1 + (m - 1) * 10 + 9 < 2 ^ 64" using v(1) \<open>e = 9\<close> assms by simp
    then have c: "CompressAmount n = 1 + (m - 1) * 10 + 9" using False me \<open>e = 9\<close> by (simp add: CompressAmount_def)
    have "DecompressAmount (1 + (m - 1) * 10 + 9) = scale_up m 9" using v(3) by (simp add: DecompressAmount_def Let_def)
    then show ?thesis using c up \<open>e = 9\<close> by simp
  qed
qed (simp add: CompressAmount_def DecompressAmount_def)

section \<open>Scripts are restored\<close>

text \<open>What the curve library promises: a valid point is found again from its first coordinate and the
  parity of the second.\<close>

definition lawful_pubkeys :: "pubkey_ops \<Rightarrow> bool" where
  "lawful_pubkeys pk \<longleftrightarrow> (\<forall>x y. length x = 32 \<longrightarrow> length y = 32 \<longrightarrow> IsFullyValid pk (4 # x @ y) \<longrightarrow>
     pubkey_Decompress pk ((if last y AND 1 = 0 then 2 else 3) # x) = Some (4 # x @ y))"

lemma split_script: "length xs = a + b + c \<Longrightarrow> xs = take a xs @ take b (drop a xs) @ drop (a + b) xs"
  by (metis add.commute append_take_drop_id drop_drop)

lemma take_bytes:
  "1 \<le> length xs \<Longrightarrow> take 1 xs = [xs ! 0]"
  "2 \<le> length xs \<Longrightarrow> take 2 xs = [xs ! 0, xs ! 1]"
  "3 \<le> length xs \<Longrightarrow> take 3 xs = [xs ! 0, xs ! 1, xs ! 2]"
  by (auto simp: numeral_2_eq_2 numeral_3_eq_3 Suc_le_length_iff)

lemma drop_bytes:
  "length xs = Suc n \<Longrightarrow> drop n xs = [xs ! n]"
  "length xs = Suc (Suc n) \<Longrightarrow> drop n xs = [xs ! n, xs ! Suc n]"
  by (simp_all flip: Cons_nth_drop_Suc)

lemma byte_of_unat: "unat (w :: byte) = n \<Longrightarrow> w = of_nat n"
  by auto

lemma IsToKeyID_Decompress:
  assumes "IsToKeyID script = Some h"
  shows "length h = 20 \<and> Decompress pk 0 h = Some script"
proof -
  have s: "length script = 25" "script ! 0 = of_nat OP_DUP" "script ! 1 = of_nat OP_HASH160" "script ! 2 = 20"
    "script ! 23 = of_nat OP_EQUALVERIFY" "script ! 24 = of_nat OP_CHECKSIG" "h = take 20 (drop 3 script)"
    using assms by (auto simp only: IsToKeyID_def option.inject option.distinct split: if_splits intro: byte_of_unat)
  have "script = take 3 script @ take 20 (drop 3 script) @ drop (3 + 20) script" using s(1) by (intro split_script) simp
  then show ?thesis using s take_bytes(3) [of script] drop_bytes(2) [of script 23] by (simp add: Decompress_def)
qed

lemma IsToScriptID_Decompress:
  assumes "IsToScriptID script = Some h"
  shows "length h = 20 \<and> Decompress pk 1 h = Some script"
proof -
  have s: "length script = 23" "script ! 0 = of_nat OP_HASH160" "script ! 1 = 20" "script ! 22 = of_nat OP_EQUAL"
    "h = take 20 (drop 2 script)"
    using assms by (auto simp only: IsToScriptID_def option.inject option.distinct split: if_splits intro: byte_of_unat)
  have "script = take 2 script @ take 20 (drop 2 script) @ drop (2 + 20) script" using s(1) by (intro split_script) simp
  then show ?thesis using s take_bytes(2) [of script] drop_bytes(1) [of script 22] by (simp add: Decompress_def)
qed

lemma IsToPubKey_cases:
  assumes "IsToPubKey pk script = Some p"
  obtains (compressed) t x where "p = t # x" and "t = 2 \<or> t = 3" and "length x = 32"
      and "script = [33, t] @ x @ [of_nat OP_CHECKSIG]"
    | (full) x y where "length x = 32" and "length y = 32" and "p = 4 # x @ y" and "IsFullyValid pk p"
      and "script = [65] @ p @ [of_nat OP_CHECKSIG]"
proof -
  consider "length script = 35" "script ! 0 = 33" "script ! 34 = of_nat OP_CHECKSIG" "script ! 1 = 2 \<or> script ! 1 = 3"
      "p = take 33 (drop 1 script)"
    | "length script = 67" "script ! 0 = 65" "script ! 66 = of_nat OP_CHECKSIG" "script ! 1 = 4"
      "p = take 65 (drop 1 script)" "IsFullyValid pk p"
    using assms
    by (auto simp only: IsToPubKey_def Let_def option.inject option.distinct split: if_splits intro: byte_of_unat)
  then show thesis
  proof cases
    case 1
    have s: "script = take 2 script @ take 32 (drop 2 script) @ drop (2 + 32) script"
      using 1(1) by (intro split_script) simp
    then have s': "script = [33, script ! 1] @ take 32 (drop 2 script) @ [of_nat OP_CHECKSIG]"
      using 1 take_bytes(2) [of script] drop_bytes(1) [of script 34] by simp
    have "p = script ! 1 # take 32 (drop 2 script)" unfolding 1(5) by (subst s') (use 1(1) in simp)
    then show thesis using compressed [of "script ! 1" "take 32 (drop 2 script)"] s' 1(1,4) by simp
  next
    case 2
    have s: "script = take 1 script @ take 65 (drop 1 script) @ drop (1 + 65) script"
      using 2(1) by (intro split_script) simp
    then have s': "script = [65] @ p @ [of_nat OP_CHECKSIG]"
      using 2 take_bytes(1) [of script] drop_bytes(1) [of script 66] by simp
    have "length p = 65" using 2(1,5) by simp
    have "p ! 0 = 4" using 2(1,4,5) by simp
    with \<open>length p = 65\<close> obtain z where z: "p = 4 # z" "length z = 64" by (cases p) auto
    then have "p = 4 # take 32 z @ drop 32 z" by simp
    then show thesis using full [of "take 32 z" "drop 32 z"] z s' 2(6) by simp
  qed
qed

lemma and_one_cases: "(w :: byte) AND 1 = 0 \<or> w AND 1 = 1"
  by (simp add: and_one_eq mod_2_eq_odd)

lemma Compress_Decompress:
  assumes law: "lawful_pubkeys pk" and c: "Compress pk script = Some c"
  shows "\<exists>n vch. c = of_nat n # vch \<and> n < 6 \<and> length vch = GetSpecialSize n \<and> Decompress pk n vch = Some script"
proof -
  consider h where "IsToKeyID script = Some h" "c = 0 # h" | h where "IsToScriptID script = Some h" "c = 1 # h"
    | p where "IsToPubKey pk script = Some p"
        "c = (if p ! 0 = 2 \<or> p ! 0 = 3 then p ! 0 # take 32 (drop 1 p)
              else (4 OR (p ! 64 AND 1)) # take 32 (drop 1 p))"
    using c by (auto simp: Compress_def split: option.splits if_splits)
  then show ?thesis
  proof cases
    case 1
    then show ?thesis using IsToKeyID_Decompress [of script h pk] by (intro exI [of _ 0] exI [of _ h]) (simp add: GetSpecialSize_def)
  next
    case 2
    then show ?thesis using IsToScriptID_Decompress [of script h pk] by (intro exI [of _ 1] exI [of _ h]) (simp add: GetSpecialSize_def)
  next
    case 3
    from 3(1) show ?thesis
    proof (cases rule: IsToPubKey_cases)
      case (compressed t x)
      then have "c = of_nat (unat t) # x" "unat t = 2 \<or> unat t = 3" using 3(2) by auto
      moreover from this compressed have "Decompress pk (unat t) x = Some script" by (auto simp: Decompress_def)
      ultimately show ?thesis using compressed by (intro exI [of _ "unat t"] exI [of _ x]) (auto simp: GetSpecialSize_def)
    next
      case (full x y)
      let ?n = "if last y AND 1 = 0 then 4 else 5 :: nat"
      have "last y = y ! 31" using full(2) by (subst last_conv_nth) auto
      then have "p ! 64 = last y" using full by (simp add: nth_append)
      then have "c = of_nat ?n # x" using 3(2) full and_one_cases [of "last y"] by auto
      moreover have "pubkey_Decompress pk (of_nat (?n - 2) # x) = Some p"
        using law full unfolding lawful_pubkeys_def by (auto split: if_splits)
      then have "Decompress pk ?n x = Some script" using full by (auto simp: Decompress_def)
      ultimately show ?thesis using full by (intro exI [of _ ?n] exI [of _ x]) (auto simp: GetSpecialSize_def)
    qed
  qed
qed

lemma script_compressor_codec:
  assumes law: "lawful_pubkeys pk"
  shows "codec (ser_ScriptCompressor pk) (unser_ScriptCompressor pk) (\<lambda>script. length script \<le> MAX_SCRIPT_SIZE)"
proof
  fix script rest :: bytes assume len: "length script \<le> MAX_SCRIPT_SIZE"
  show "unser_ScriptCompressor pk (ser_ScriptCompressor pk script @ rest) = Some (script, rest)"
  proof (cases "Compress pk script")
    case None
    let ?n = "length script + 6"
    have "?n mod 2 ^ 32 = ?n" using len by simp
    then have "ReadVarInt 0xffffffff (WriteVarInt ?n @ script @ rest) = Some (?n, script @ rest)"
      using len by (intro var_int32.dec_enc) simp
    then show ?thesis
      using None len \<open>?n mod 2 ^ 32 = ?n\<close> by (simp add: unser_ScriptCompressor_def ser_ScriptCompressor_def)
  next
    case (Some c)
    from Compress_Decompress [OF law Some] obtain n vch where
      c: "c = of_nat n # vch" "n < 6" "length vch = GetSpecialSize n" "Decompress pk n vch = Some script" by blast
    have "WriteVarInt n = [of_nat n]" using c(2) by (simp add: WriteVarInt_def var_int_digits.simps)
    then have "ReadVarInt 0xffffffff (of_nat n # vch @ rest) = Some (n, vch @ rest)"
      using var_int32.dec_enc [of n "vch @ rest"] c(2) by simp
    then show ?thesis using Some c by (simp add: unser_ScriptCompressor_def ser_ScriptCompressor_def)
  qed
qed

section \<open>Coins and undo data are restored\<close>

definition storable_out :: "CTxOut \<Rightarrow> bool" where
  "storable_out txout \<longleftrightarrow> MoneyRange (sint (nValue txout)) \<and> length (scriptPubKey txout) \<le> MAX_SCRIPT_SIZE"

definition storable :: "Coin \<Rightarrow> bool" where
  "storable coin \<longleftrightarrow> storable_out (coin_out coin) \<and> unat (coin_nHeight coin) < 2 ^ 30"

lemma money_amount:
  assumes "MoneyRange (sint (v :: 64 word))"
  shows "DecompressAmount (CompressAmount (unat v)) = unat v"
proof (rule DecompressAmount_CompressAmount)
  have "0 \<le> sint v" "sint v \<le> 2100000000000000" using assms by (auto simp: MoneyRange_def)
  moreover from this have "uint v = sint v" by (simp add: uint_sint bintr_uint sint_greater_eq take_bit_int_eq_self)
  ultimately show "9 * unat v + 10 < 2 ^ 64" by (simp add: unat_eq_nat_uint)
qed

lemma txout_compressor_codec:
  assumes "lawful_pubkeys pk"
  shows "codec (ser_TxOutCompressor pk) (unser_TxOutCompressor pk) storable_out"
proof
  fix txout rest assume ok: "storable_out txout"
  have "CompressAmount (unat (nValue txout)) \<le> 0xffffffffffffffff" using CompressAmount_less [of "unat (nValue txout)"] by simp
  note amount = var_int64.dec_enc [OF this, of "ser_ScriptCompressor pk (scriptPubKey txout) @ rest"]
  have "unser_ScriptCompressor pk (ser_ScriptCompressor pk (scriptPubKey txout) @ rest) = Some (scriptPubKey txout, rest)"
    using ok by (intro codec.dec_enc [OF script_compressor_codec [OF assms]]) (simp add: storable_out_def)
  then show "unser_TxOutCompressor pk (ser_TxOutCompressor pk txout @ rest) = Some (txout, rest)"
    using amount ok money_amount [of "nValue txout"]
    by (simp add: unser_TxOutCompressor_def ser_TxOutCompressor_def storable_out_def)
qed

lemma coin_code_fields:
  assumes "unat (coin_nHeight coin) < 2 ^ 30"
  shows "coin_code coin \<le> 0x7fffffff" "odd (coin_code coin) = fCoinBase coin"
    "(of_nat (coin_code coin div 2) :: 31 word) = coin_nHeight coin"
  using assms by (auto simp: coin_code_def)

lemma undo_entry_codec:
  assumes "lawful_pubkeys pk"
  shows "codec (undo_entry pk) (TxInUndo_Unserialize pk) storable"
proof
  fix coin rest assume "storable coin"
  then have ok: "storable_out (coin_out coin)" "unat (coin_nHeight coin) < 2 ^ 30" by (simp_all add: storable_def)
  note code = coin_code_fields [OF ok(2)]
  let ?out = "ser_TxOutCompressor pk (coin_out coin) @ rest"
  let ?dummy = "if coin_nHeight coin > 0 then ser_writedata8 0 else []"
  have "ReadVarInt 0xffffffff (WriteVarInt (coin_code coin) @ ?dummy @ ?out) = Some (coin_code coin, ?dummy @ ?out)"
    using code(1) by (intro var_int32.dec_enc) simp
  moreover have "ReadVarInt 0x7fffffff (0 # ?out) = Some (0, ?out)" by (simp add: ReadVarInt_def)
  moreover have "unser_TxOutCompressor pk ?out = Some (coin_out coin, rest)"
    using ok(1) by (rule codec.dec_enc [OF txout_compressor_codec [OF assms]])
  ultimately show "TxInUndo_Unserialize pk (undo_entry pk coin @ rest) = Some (coin, rest)"
    using code by (simp add: TxInUndo_Unserialize_def undo_entry_def ser_writedata8_def)
qed

lemma coin_codec:
  assumes "lawful_pubkeys pk" and "storable coin" and "\<not> IsSpent coin"
  shows "\<exists>bs. Coin_Serialize pk coin = Ret bs \<and> Coin_Unserialize pk (bs @ rest) = Some (coin, rest)"
proof -
  have ok: "storable_out (coin_out coin)" "unat (coin_nHeight coin) < 2 ^ 30" using assms(2) by (simp_all add: storable_def)
  note code = coin_code_fields [OF ok(2)]
  have "ReadVarInt 0xffffffff (WriteVarInt (coin_code coin) @ ser_TxOutCompressor pk (coin_out coin) @ rest) =
      Some (coin_code coin, ser_TxOutCompressor pk (coin_out coin) @ rest)"
    using code(1) by (intro var_int32.dec_enc) simp
  moreover have "unser_TxOutCompressor pk (ser_TxOutCompressor pk (coin_out coin) @ rest) = Some (coin_out coin, rest)"
    using ok(1) by (rule codec.dec_enc [OF txout_compressor_codec [OF assms(1)]])
  ultimately show ?thesis using assms(3) ok(2) code by (simp add: Coin_Serialize_def Coin_Unserialize_def)
qed

lemma tx_undo_codec:
  assumes "lawful_pubkeys pk"
  shows "codec (undo_entries pk) (TxUndo_Unserialize pk)
    (\<lambda>us. length us \<le> MAX_INPUTS_PER_BLOCK \<and> list_all storable us)"
proof
  fix us rest assume ok: "length us \<le> MAX_INPUTS_PER_BLOCK \<and> list_all storable us"
  then have n: "unat (of_nat (length us) :: 64 word) = length us" by (simp add: unat_of_nat)
  have "ReadCompactSize (WriteCompactSize (of_nat (length us)) @ concat (map (undo_entry pk) us) @ rest) =
      Some (of_nat (length us), concat (map (undo_entry pk) us) @ rest)"
    using ok n by (intro compact.dec_enc) simp
  moreover have "read_elements (TxInUndo_Unserialize pk) (length us)
      (concat (map (undo_entry pk) us) @ rest) = Some (us, rest)"
    using ok by (intro codec.read_elements_enc [OF undo_entry_codec [OF assms]]) (simp add: list_all_iff)
  ultimately show "TxUndo_Unserialize pk (undo_entries pk us @ rest) = Some (us, rest)"
    using n ok by (simp add: TxUndo_Unserialize_def undo_entries_def)
qed

text \<open>C29: undo data of a block is read back from its disk format: every spent output comes back with its
  amount, its script, its height and its coinbase flag, through the compressed forms of amounts and of
  the standard scripts, provided the curve library finds valid keys again.\<close>

theorem undo_data_roundtrip:
  assumes "lawful_pubkeys pk" and "length undo \<le> MAX_SIZE"
    and "list_all (\<lambda>us. length us \<le> MAX_INPUTS_PER_BLOCK \<and> list_all storable us) undo"
  shows "\<exists>bs. BlockUndo_Serialize pk undo = Ret bs \<and> BlockUndo_Unserialize pk (bs @ rest) = Some (undo, rest)"
proof (intro exI conjI)
  show "BlockUndo_Serialize pk undo = Ret (ser_vector (undo_entries pk) undo)"
    using assms(3) by (auto simp: BlockUndo_Serialize_def guard_heights_def list_ex_iff list_all_iff storable_def not_le [symmetric])
  show "BlockUndo_Unserialize pk (ser_vector (undo_entries pk) undo @ rest) = Some (undo, rest)"
    unfolding BlockUndo_Unserialize_def
    by (rule codec.dec_enc [OF codec.vector_codec [OF tx_undo_codec [OF assms(1)]]])
       (use assms(2,3) in \<open>simp add: list_all_iff\<close>)
qed

text \<open>One valid key, and undo data with the four standard scripts, an amount with zeros and one without.\<close>

definition sample_pubkeys :: pubkey_ops where
  "sample_pubkeys = \<lparr>IsFullyValid = (\<lambda>k. k = 4 # replicate 32 7 @ replicate 32 9),
     pubkey_Decompress = (\<lambda>k. if k = 3 # replicate 32 7 then Some (4 # replicate 32 7 @ replicate 32 9) else None)\<rparr>"

definition sample_undo :: "Coin list list" where
  "sample_undo =
     [[make_coin \<lparr>nValue = 5000000000, scriptPubKey = [0x76, 0xa9, 20] @ replicate 20 1 @ [0x88, 0xac]\<rparr> 7 True,
       make_coin \<lparr>nValue = 123456789, scriptPubKey = [65, 4] @ replicate 32 7 @ replicate 32 9 @ [0xac]\<rparr> 0 False],
      [], [make_coin \<lparr>nValue = 1, scriptPubKey = [0xa9, 20] @ replicate 20 2 @ [0x87]\<rparr> 100 False]]"

lemma sample_pubkeys_lawful: "lawful_pubkeys sample_pubkeys"
  unfolding lawful_pubkeys_def
proof (intro allI impI)
  fix x y :: bytes assume l: "length x = 32" "length y = 32" and "IsFullyValid sample_pubkeys (4 # x @ y)"
  then have "x @ y = replicate 32 7 @ replicate 32 9" by (simp add: sample_pubkeys_def)
  then have "x = replicate 32 7" "y = replicate 32 9" using l append_eq_append_conv [of x "replicate 32 7"] by auto
  then show "pubkey_Decompress sample_pubkeys ((if last y AND 1 = 0 then 2 else 3) # x) = Some (4 # x @ y)"
    by (simp add: sample_pubkeys_def)
qed

theorem undo_data_roundtrip_witness:
  "(\<exists>bs. BlockUndo_Serialize sample_pubkeys sample_undo = Ret bs \<and>
         BlockUndo_Unserialize sample_pubkeys bs = Some (sample_undo, [])) \<and>
   Compress sample_pubkeys ([65, 4] @ replicate 32 7 @ replicate 32 9 @ [0xac]) = Some (5 # replicate 32 7)"
proof -
  have "list_all (\<lambda>us. length us \<le> MAX_INPUTS_PER_BLOCK \<and> list_all storable us) sample_undo"
    by (simp add: sample_undo_def storable_def storable_out_def make_coin_def MoneyRange_def)
  moreover have "length sample_undo \<le> MAX_SIZE" by (simp add: sample_undo_def)
  ultimately show ?thesis
    using undo_data_roundtrip [OF sample_pubkeys_lawful, of sample_undo "[]"]
    by (simp add: Compress_def IsToKeyID_def IsToScriptID_def IsToPubKey_def sample_pubkeys_def nth_append)
qed

end
