(* ===== verification/Spec2Isabelle.thy ===== *)
theory Spec2Isabelle
  imports VerifyProps StackTypes SigEncoding Multisig OpNames BlockTree UpdateCoins ContractProps TxAmounts VersionBitsProps PowProps Compressor
begin

text \<open>
  Verification of the consensus core of the United Bitcoin node.

  \<^bold>\<open>The program.\<close>  The node keeps a tree of block headers, an active chain in it, and the set of
  unspent transaction outputs that the chain leaves behind.  A transaction spends outputs by scripts;
  the interpreter decides whether a script accepts.  Block headers carry targets of 256 bits in a
  compact format, and the chain with most work is followed.  Connecting a block changes the set of
  coins in memory caches stacked over a database; disconnecting it has to undo this exactly.

  \<^bold>\<open>The model.\<close>  Functions of the code are functions of the logic with the names of the code; state
  is passed and returned.  Bytes are \<^typ>\<open>8 word\<close>, machine integers words or integers with the range
  written out, structs records, enumerations datatypes.  Assertions, exceptions and undefined behaviour
  are values (\<open>outcome\<close>, sums with an error type, options).  Loops are structural recursions, functions
  with a measure, or recursions with a bound derived from the data.

  \<^bold>\<open>Scripts.\<close>
  \<^item> \<open>Prelude\<close>: bytes, little endian numbers (\<^verbatim>\<open>src/src/crypto/common.h\<close>), lemma collections.
  \<^item> \<open>ScriptNum\<close>: \<^verbatim>\<open>CScriptNum\<close>; decoding and encoding are inverse, encodings unique.
  \<^item> \<open>Script\<close>: \<^verbatim>\<open>CScript\<close> of \<^verbatim>\<open>src/src/script/script.h\<close> and \<^verbatim>\<open>script.cpp\<close>: reading and writing of opcodes,
    \<^verbatim>\<open>FindAndDelete\<close>, output patterns, signature operation counts.
  \<^item> \<open>OpNames\<close>: the enumeration of the opcodes and the names printed for them.
  \<^item> \<open>Interpreter\<close>, \<open>EvalScript\<close>, \<open>VerifyScript\<close>: \<^verbatim>\<open>src/src/script/interpreter.cpp\<close>, one definition per opcode
    group.  The hash functions, the low-S test and the signature check are fields of records
    (\<open>script_crypto\<close>, \<open>signature_checker\<close>), heights of the active chain fields of \<open>chain_ctx\<close>.
  \<^item> \<open>EvalProps\<close>, \<open>EvalStd\<close>, \<open>VerifyProps\<close>, \<open>SigEncoding\<close>, \<open>Multisig\<close>, \<open>StackTypes\<close>: the interpreter
    returns on every script, keeps the stack and its elements within their limits, runs no disabled opcode; it accepts standard outputs exactly for
    the right keys and signatures; pay-to-script-hash and witness programs run the committed script;
    the signature format test is strict DER; the fork rules and the contract opcodes.

  \<^bold>\<open>Data on the wire.\<close>
  \<^item> \<open>Serialize\<close>: \<^verbatim>\<open>src/src/serialize.h\<close>, with the locales \<open>codec\<close> (a reader inverts a writer in front of
    any rest) and \<open>strict_codec\<close> (and accepts nothing else), interpreted for every format below.
  \<^item> \<open>Transaction\<close>, \<open>Sighash\<close>, \<open>Block\<close>: transactions with and without witness data, their hashes, the
    legacy and version 0 signature hashes, block headers and blocks.

  \<^bold>\<open>The block tree.\<close>
  \<^item> \<open>ArithUint256\<close>, \<open>ArithCompact\<close>: \<^verbatim>\<open>src/src/arith_uint256.cpp\<close>; arrays of eight words refine arithmetic
    modulo \<open>2 ^ 256\<close> through the abstraction \<open>limbs\<close>.
  \<^item> \<open>Chain\<close>, \<open>ChainProps\<close>: \<^verbatim>\<open>src/src/chain.h\<close> and \<^verbatim>\<open>chain.cpp\<close>.  Pointers to index entries are block hashes into a
    store.  Walks along \<^verbatim>\<open>pprev\<close> have the height of the entry as a bound; in a well-formed store it is
    always enough, which the lemmas show by proving that the walks return.
  \<^item> \<open>BlockTree\<close>: \<^verbatim>\<open>AddToBlockIndex\<close> of \<^verbatim>\<open>src/src/validation.cpp\<close> keeps the tree well-formed.

  \<^bold>\<open>Coins.\<close>
  \<^item> \<open>Coins\<close>: \<^verbatim>\<open>src/src/coins.cpp\<close> and the coin database of \<^verbatim>\<open>src/src/txdb.cpp\<close>; virtual functions are a record
    of operations, so that caches stack.
  \<^item> \<open>CoinsProps\<close>, \<open>CoinsDB\<close>: the locale \<open>lawful_view\<close> states what a view promises; caches over lawful views
    are lawful; the database is lawful; interrupted writes can be repeated.
  \<^item> \<open>UpdateCoins\<close>: the coins of a block connected and disconnected (\<^verbatim>\<open>validation.cpp\<close>).
  \<^item> \<open>Compressor\<close>: the compressed amounts and scripts of \<^verbatim>\<open>src/src/compressor.cpp\<close>, the stored form of a coin
    (\<^verbatim>\<open>coins.h\<close>) and of undo data (\<^verbatim>\<open>undo.h\<close>), which is read back.  Validity and decompression of public keys are
    the record \<open>pubkey_ops\<close>, with the law that decompressing the compressed form of a valid key gives the key.

  \<^bold>\<open>Consensus rules.\<close>
  \<^item> \<open>ConsensusParams\<close>: \<^verbatim>\<open>src/src/consensus/params.h\<close>, \<^verbatim>\<open>consensus.h\<close> and \<^verbatim>\<open>validation.h\<close>; the global fork heights are
    the record \<open>fork_nums\<close>.
  \<^item> \<open>ContractTx\<close>, \<open>ContractProps\<close>: contract transactions of \<^verbatim>\<open>src/src/validation.cpp\<close> and the ledger of
    \<^verbatim>\<open>src/src/contract_engine/pending_state.cpp\<close>.  Operands are read by a parser over the stack that
    \<open>EvalScript\<close> leaves; the rest of the node is the record \<open>contract_host\<close>.
  \<^item> \<open>TxVerify\<close>, \<open>TxVerifyProps\<close>, \<open>TxAmounts\<close>: \<^verbatim>\<open>src/src/consensus/tx_verify.cpp\<close>.  The checks accept exactly the well
    formed transactions, lock times asked for in scripts are kept, accepted inputs pay for the
    outputs, and where deposits to contracts break this.
  \<^item> \<open>VersionBits\<close>, \<open>VersionBitsProps\<close>: \<^verbatim>\<open>src/src/versionbits.cpp\<close>, deployments with their caches: an
    inductive relation gives the state machine of BIP 9, the code computes its states, and signalled
    deployments are activated.
  \<^item> \<open>Pow\<close>, \<open>PowProps\<close>: \<^verbatim>\<open>src/src/pow.cpp\<close>, the target of the next block for proof of work and proof of stake.  The
    parameters that the code changes in place are returned.  Retargeting stays within a factor of four and
    below the limit, the check of a hash is exact, and answers depend on what was asked before.

  \<^bold>\<open>Not modelled.\<close>  The elliptic curve library (its results are parameters), the contract
  virtual machine and its storage, the network, the wallet, remote procedure calls, the graphical
  interface, the third party databases and JSON libraries, threads and locks, logging and printing.
\<close>

end
